(* ===== verification/Prelude.thy ===== *)
theory Prelude
  imports Main "HOL-Library.Word" "HOL-Library.Multiset"
begin

text \<open>
  Shared vocabulary of the development: the machine integer types of the sources, the
  Linux error numbers they return, the copy primitives on byte buffers, and the lemmas on
  words, modular offsets and lists that the component theories use.
\<close>

unbundle bit_operations_syntax

section \<open>Machine integers and error numbers\<close>

type_synonym u8 = "8 word"
type_synonym u16 = "16 word"
type_synonym u32 = "32 word"
type_synonym u64 = "64 word"

text \<open>
  The values of \<open>errno-base.h\<close> and \<open>errno.h\<close> that the sources return. A function that
  returns \<open>int\<close> returns the negated number, as in C.
\<close>

abbreviation (input) EPERM :: int where "EPERM \<equiv> 1"
abbreviation (input) EINTR :: int where "EINTR \<equiv> 4"
abbreviation (input) EIO :: int where "EIO \<equiv> 5"
abbreviation (input) ENXIO :: int where "ENXIO \<equiv> 6"
abbreviation (input) E2BIG :: int where "E2BIG \<equiv> 7"
abbreviation (input) EAGAIN :: int where "EAGAIN \<equiv> 11"
abbreviation (input) ENOMEM :: int where "ENOMEM \<equiv> 12"
abbreviation (input) EACCES :: int where "EACCES \<equiv> 13"
abbreviation (input) EFAULT :: int where "EFAULT \<equiv> 14"
abbreviation (input) EBUSY :: int where "EBUSY \<equiv> 16"
abbreviation (input) ENODEV :: int where "ENODEV \<equiv> 19"
abbreviation (input) EINVAL :: int where "EINVAL \<equiv> 22"
abbreviation (input) ENOSPC :: int where "ENOSPC \<equiv> 28"
abbreviation (input) EADDRINUSE :: int where "EADDRINUSE \<equiv> 98"
abbreviation (input) EOPNOTSUPP :: int where "EOPNOTSUPP \<equiv> 95"
abbreviation (input) ECONNRESET :: int where "ECONNRESET \<equiv> 104"
abbreviation (input) EISCONN :: int where "EISCONN \<equiv> 106"
abbreviation (input) ENOTCONN :: int where "ENOTCONN \<equiv> 107"
abbreviation (input) ECONNREFUSED :: int where "ECONNREFUSED \<equiv> 111"
abbreviation (input) EALREADY :: int where "EALREADY \<equiv> 114"
abbreviation (input) EINPROGRESS :: int where "EINPROGRESS \<equiv> 115"
abbreviation (input) ERESTARTSYS :: int where "ERESTARTSYS \<equiv> 512"

named_theorems ring_simps "distance and slice equations of the ring buffer"

section \<open>Copying between byte buffers\<close>

text \<open>
  \<open>memcpy_toio\<close> and \<open>memcpy_fromio\<close> move \<open>n\<close> bytes between a buffer and a message. A copy
  that would leave either of the two areas is \<open>None\<close>: in C it is a memory error.
\<close>

definition memcpy_toio :: "u8 list \<Rightarrow> nat \<Rightarrow> u8 list \<Rightarrow> nat \<Rightarrow> u8 list option" where
  "memcpy_toio buf dst src n =
     (if dst + n \<le> length buf \<and> n \<le> length src
      then Some (take dst buf @ take n src @ drop (dst + n) buf) else None)"

definition memcpy_fromio :: "u8 list \<Rightarrow> nat \<Rightarrow> nat \<Rightarrow> u8 list option" where
  "memcpy_fromio buf src n =
     (if src + n \<le> length buf then Some (take n (drop src buf)) else None)"

lemma memcpy_toio_ok:
  assumes "dst + n \<le> length buf" and "n \<le> length src"
  obtains buf' where "memcpy_toio buf dst src n = Some buf'" and "length buf' = length buf"
    and "\<And>i. i < length buf \<Longrightarrow>
           buf' ! i = (if dst \<le> i \<and> i < dst + n then src ! (i - dst) else buf ! i)"
proof
  show "memcpy_toio buf dst src n = Some (take dst buf @ take n src @ drop (dst + n) buf)"
    using assms by (simp add: memcpy_toio_def)
qed (use assms in \<open>auto simp: nth_append min_def\<close>)

section \<open>Offsets modulo a power of two\<close>

lemma unat_and_mask:
  fixes x :: u32
  assumes "k < 32"
  shows "unat (x AND (2 ^ k - 1)) = unat x mod 2 ^ k"
proof -
  have "x AND (2 ^ k - 1) = take_bit k x"
    by (simp add: take_bit_eq_mask mask_eq_exp_minus_1)
  then show ?thesis
    by (simp flip: take_bit_eq_mod add: unsigned_take_bit_eq)
qed

lemma unat_two_pow:
  assumes "k < 32"
  shows "unat ((2 :: u32) ^ k) = 2 ^ k"
proof -
  have "unat (of_nat (2 ^ k) :: u32) = 2 ^ k"
    using assms by (simp only: unsigned_of_nat take_bit_nat_eq_self_iff len_num1 len_bit0) simp
  then show ?thesis by simp
qed

lemma two_pow_le_word32: "k < 32 \<Longrightarrow> (2::nat) ^ k dvd 2 ^ 32"
  by (rule le_imp_power_dvd) simp

lemma unat_sub_mask:
  fixes a b :: u32
  assumes k: "k < 32"
  shows "unat ((a - b) AND (2 ^ k - 1)) = (unat a + 2 ^ k - unat b mod 2 ^ k) mod 2 ^ k"
proof -
  let ?N = "(2::nat) ^ k" and ?b = "unat b mod 2 ^ k"
  have "unat (a - b) = (unat a + (2 ^ 32 - unat b)) mod 2 ^ 32"
    using unsigned_less [of a, where 'a = nat] unsigned_less [of b, where 'a = nat]
    by (simp add: unat_sub_if_size word_size mod_if)
  then have "unat (a - b) mod ?N = (unat a + (2 ^ 32 - unat b)) mod ?N"
    using two_pow_le_word32 [OF k] by (simp add: mod_mod_cancel)
  also have "\<dots> = (unat a + ?N - ?b) mod ?N"
  proof -
    obtain m where m: "(2::nat) ^ 32 = ?N * m"
      using two_pow_le_word32 [OF k] by (auto simp: dvd_def)
    define q where "q = unat b div ?N"
    have "unat b < m * ?N" using unsigned_less [of b, where 'a = nat] m by (simp add: mult.commute)
    then have "q < m" unfolding q_def by (rule less_mult_imp_div_less)
    then obtain e where e: "m = Suc (q + e)" using less_imp_Suc_add by blast
    define r where "r = ?b"
    have b: "unat b = ?N * q + r" unfolding q_def r_def by simp
    have "r \<le> ?N" unfolding r_def by simp
    have "?N * m - unat b = (?N - r) + ?N * e"
      unfolding e b using \<open>r \<le> ?N\<close> by (simp add: algebra_simps)
    then have "(2::nat) ^ 32 - unat b = (?N - r) + ?N * e" by (simp only: m)
    then have "unat a + (2 ^ 32 - unat b) = (unat a + ?N - r) + ?N * e"
      using \<open>r \<le> ?N\<close> by simp
    then show ?thesis by (simp only: r_def mod_mult_self2)
  qed
  finally show ?thesis using unat_and_mask [OF k] by simp
qed

lemma unat_add_mask:
  fixes a b :: u32
  assumes k: "k < 32"
  shows "unat ((a + b) AND (2 ^ k - 1)) = (unat a + unat b) mod 2 ^ k"
proof -
  have "unat (a + b) = (unat a + unat b) mod 2 ^ 32"
    by (simp add: unat_word_ariths)
  then have "unat (a + b) mod 2 ^ k = (unat a + unat b) mod 2 ^ k"
    using two_pow_le_word32 [OF k] by (simp add: mod_mod_cancel)
  then show ?thesis using unat_and_mask [OF k] by simp
qed

lemma remove_nth:
  assumes "k < length xs" "distinct xs"
  shows "distinct (take k xs @ drop (Suc k) xs) \<and> set (take k xs @ drop (Suc k) xs) = set xs - {xs ! k}"
proof -
  define us vs where "us = take k xs" and "vs = drop (Suc k) xs"
  have "xs = us @ xs ! k # vs" using assms(1) by (simp add: us_def vs_def id_take_nth_drop)
  then have "distinct (us @ xs ! k # vs)" "set xs = set (us @ xs ! k # vs)"
    using assms(2) by metis+
  then show ?thesis unfolding us_def [symmetric] vs_def [symmetric] by auto
qed

end
