(* ===== verification/Cosm.thy ===== *)
theory Cosm
  imports Prelude
begin

text \<open>
  Coprocessor state management (\<open>cosm/cosm_main.c\<close>, \<open>cosm_sysfs.c\<close> and
  \<open>cosm_scif_server.c\<close>, \<open>cosm_client/cosm_scif_client.c\<close>): the state machine that takes a card
  from reset to ready, online, shutdown or error. A command is accepted by
  \<open>cosm_set_command\<close>, which holds a mutex while it cancels the running work item, records the
  command and waits for it to start; the work item \<open>cosm_state_flow\<close> invokes the command and
  polls for its completion until it succeeds, fails, times out or is aborted.

  The hardware operations (\<open>struct cosm_hw_ops\<close>) and the SCIF endpoint are parameters: a record
  of functions on an arbitrary hardware state \<open>'h\<close>. The interleaving of the callers, the work
  item, the card and the hardware is the step relation \<open>cosm_step\<close>. Logging and
  \<open>sysfs_notify_dirent\<close> are left out. States and commands are datatypes, so the guard
  \<open>state > MIC_STATE_LAST\<close> of \<open>cosm_switch_to_state\<close> is the decoding \<open>mic_state_of\<close> where a
  byte comes from the card.
\<close>

section \<open>States, commands and devices\<close>

datatype mic_state =
    MIC_STATE_UNKNOWN | MIC_STATE_ERROR | MIC_STATE_READY | MIC_STATE_ONLINE
  | MIC_STATE_ONLINE_FIRMWARE | MIC_STATE_SHUTDOWN | MIC_STATE_RESETTING
  | MIC_STATE_SHUTTING_DOWN | MIC_STATE_BOOTING | MIC_STATE_BOOTING_FIRMWARE

datatype mic_command =
    MIC_CMD_NONE | MIC_CMD_BOOT_FIRMWARE | MIC_CMD_BOOT | MIC_CMD_RESET
  | MIC_CMD_RESET_FROM_CARD | MIC_CMD_RESET_FORCE | MIC_CMD_RESET_FORCE_WARM
  | MIC_CMD_SHUTDOWN | MIC_CMD_SHUTDOWN_FROM_CARD | MIC_CMD_SHUTDOWN_FORCE
  | MIC_CMD_HANDLE_PANIC | MIC_CMD_HANDLE_HANG

definition mic_states :: "mic_state list" where
  "mic_states = [MIC_STATE_UNKNOWN, MIC_STATE_ERROR, MIC_STATE_READY, MIC_STATE_ONLINE,
     MIC_STATE_ONLINE_FIRMWARE, MIC_STATE_SHUTDOWN, MIC_STATE_RESETTING,
     MIC_STATE_SHUTTING_DOWN, MIC_STATE_BOOTING, MIC_STATE_BOOTING_FIRMWARE]"

definition mic_commands :: "mic_command list" where
  "mic_commands = [MIC_CMD_NONE, MIC_CMD_BOOT_FIRMWARE, MIC_CMD_BOOT, MIC_CMD_RESET,
     MIC_CMD_RESET_FROM_CARD, MIC_CMD_RESET_FORCE, MIC_CMD_RESET_FORCE_WARM, MIC_CMD_SHUTDOWN,
     MIC_CMD_SHUTDOWN_FROM_CARD, MIC_CMD_SHUTDOWN_FORCE, MIC_CMD_HANDLE_PANIC, MIC_CMD_HANDLE_HANG]"

definition mic_state_of :: "u8 \<Rightarrow> mic_state option" where
  "mic_state_of b = (if unat b < length mic_states then Some (mic_states ! unat b) else None)"

record cosm_state =
  state_string :: string
  allowed_commands :: "mic_command list"

fun cosm_states :: "mic_state \<Rightarrow> cosm_state" where
  "cosm_states MIC_STATE_READY = \<lparr>state_string = ''ready'', allowed_commands =
     [MIC_CMD_BOOT_FIRMWARE, MIC_CMD_BOOT, MIC_CMD_RESET, MIC_CMD_SHUTDOWN]\<rparr>"
| "cosm_states MIC_STATE_ONLINE = \<lparr>state_string = ''online'', allowed_commands =
     [MIC_CMD_RESET, MIC_CMD_RESET_FROM_CARD, MIC_CMD_SHUTDOWN, MIC_CMD_SHUTDOWN_FROM_CARD]\<rparr>"
| "cosm_states MIC_STATE_ONLINE_FIRMWARE =
     \<lparr>state_string = ''online_firmware'', allowed_commands = [MIC_CMD_RESET]\<rparr>"
| "cosm_states MIC_STATE_SHUTDOWN =
     \<lparr>state_string = ''shutdown'', allowed_commands = [MIC_CMD_RESET]\<rparr>"
| "cosm_states MIC_STATE_ERROR =
     \<lparr>state_string = ''error'', allowed_commands = [MIC_CMD_RESET]\<rparr>"
| "cosm_states MIC_STATE_UNKNOWN =
     \<lparr>state_string = ''unknown'', allowed_commands = [MIC_CMD_RESET]\<rparr>"
| "cosm_states MIC_STATE_RESETTING = \<lparr>state_string = ''resetting'', allowed_commands = []\<rparr>"
| "cosm_states MIC_STATE_SHUTTING_DOWN = \<lparr>state_string = ''shutting_down'', allowed_commands = []\<rparr>"
| "cosm_states MIC_STATE_BOOTING = \<lparr>state_string = ''booting'', allowed_commands = []\<rparr>"
| "cosm_states MIC_STATE_BOOTING_FIRMWARE =
     \<lparr>state_string = ''booting_firmware'', allowed_commands = []\<rparr>"

definition is_command_allowed :: "mic_state \<Rightarrow> mic_command \<Rightarrow> bool" where
  "is_command_allowed state command \<longleftrightarrow> command \<in> set (allowed_commands (cosm_states state))"

record cosm_device_config =
  efi_image :: "string option"
  kernel_image :: "string option"
  kernel_cmdline :: "string option"
  initramfs_image :: "string option"
  execute_on_ready :: mic_command
  boot_timeout :: u32
  shutdown_timeout :: u32

record cosm_device =
  config :: cosm_device_config
  is_module_locked :: bool
  current_command_id :: mic_command
  received_online :: bool
  abort :: bool
  state_changed :: bool
  state :: mic_state
  previous_state :: mic_state
  state_msg :: "string option"
  epd :: bool

datatype cosm_msg_id =
    COSM_MSG_SHUTDOWN | COSM_MSG_REBOOT | COSM_MSG_SYNC_TIME | COSM_MSG_HEARTBEAT
  | COSM_MSG_STATE_CHANGE

text \<open>
  The parameters: the hardware operations of the bus driver, \<open>scif_send\<close> on the endpoint of
  the card, \<open>try_module_get\<close>, and the two facts \<open>cosm_is_boot_safe\<close> asks of the host.
\<close>

record 'h cosm_hw_ops =
  op_boot_firmware :: "'h \<Rightarrow> int \<times> 'h"
  op_boot :: "'h \<Rightarrow> int \<times> 'h"
  op_reset :: "'h \<Rightarrow> int \<times> 'h"
  op_reset_warm :: "'h \<Rightarrow> int \<times> 'h"
  op_shutdown :: "'h \<Rightarrow> int \<times> 'h"
  op_reset_timeout :: u32
  op_boot_firmware_timeout :: u32
  op_detect_state :: "'h \<Rightarrow> mic_state"
  op_cleanup :: "'h \<Rightarrow> 'h"
  op_dev_update :: "'h \<Rightarrow> int \<times> 'h"
  op_max_supported_address :: "'h \<Rightarrow> u64"
  op_scif_send :: "cosm_msg_id \<Rightarrow> 'h \<Rightarrow> int \<times> 'h"
  op_try_module_get :: "'h \<Rightarrow> bool"
  op_intel_iommu_enabled :: bool
  op_high_memory :: u64

section \<open>The commands\<close>

definition cosm_stop :: "'h cosm_hw_ops \<Rightarrow> 'h \<Rightarrow> 'h" where
  "cosm_stop ops h = op_cleanup ops h"

definition cosm_boot_firmware :: "'h cosm_hw_ops \<Rightarrow> cosm_device \<Rightarrow> 'h \<Rightarrow> int \<times> 'h \<times> string option" where
  "cosm_boot_firmware ops cdev h = (let (rc, h1) = op_boot_firmware ops h in (rc, h1, None))"

definition cosm_boot_firmware_complete ::
    "'h cosm_hw_ops \<Rightarrow> cosm_device \<Rightarrow> 'h \<Rightarrow> int \<times> cosm_device \<times> 'h \<times> string option" where
  "cosm_boot_firmware_complete ops cdev h =
     (if op_detect_state ops h \<noteq> MIC_STATE_ONLINE_FIRMWARE then (- EAGAIN, cdev, h, None)
      else (0, cdev, h, None))"

definition cosm_boot_firmware_timeout :: "'h cosm_hw_ops \<Rightarrow> cosm_device \<Rightarrow> u32" where
  "cosm_boot_firmware_timeout ops cdev = op_boot_firmware_timeout ops"

definition cosm_is_boot_safe :: "'h cosm_hw_ops \<Rightarrow> 'h \<Rightarrow> bool" where
  "cosm_is_boot_safe ops h =
     (let max_supported_address = op_max_supported_address ops h;
          max_system_address = op_high_memory ops - 1
      in if op_intel_iommu_enabled ops then True
         else if max_system_address \<le> max_supported_address then True else False)"

definition cosm_boot :: "'h cosm_hw_ops \<Rightarrow> cosm_device \<Rightarrow> 'h \<Rightarrow> int \<times> 'h \<times> string option" where
  "cosm_boot ops cdev h =
     (if \<not> cosm_is_boot_safe ops h
      then (- E2BIG, h, Some ''memory above supported value, enable IOMMU'')
      else let (rc, h1) = op_boot ops h in (rc, h1, None))"

definition cosm_boot_complete ::
    "'h cosm_hw_ops \<Rightarrow> cosm_device \<Rightarrow> 'h \<Rightarrow> int \<times> cosm_device \<times> 'h \<times> string option" where
  "cosm_boot_complete ops cdev h =
     (if received_online cdev then (0, cdev, h, None) else (- EAGAIN, cdev, h, None))"

definition cosm_boot_timeout :: "'h cosm_hw_ops \<Rightarrow> cosm_device \<Rightarrow> u32" where
  "cosm_boot_timeout ops cdev = boot_timeout (config cdev)"

definition cosm_reset_force :: "'h cosm_hw_ops \<Rightarrow> cosm_device \<Rightarrow> 'h \<Rightarrow> int \<times> 'h \<times> string option" where
  "cosm_reset_force ops cdev h = (let (rc, h1) = op_reset ops (cosm_stop ops h) in (rc, h1, None))"

definition cosm_reset_force_warm ::
    "'h cosm_hw_ops \<Rightarrow> cosm_device \<Rightarrow> 'h \<Rightarrow> int \<times> 'h \<times> string option" where
  "cosm_reset_force_warm ops cdev h =
     (let (rc, h1) = op_reset_warm ops (cosm_stop ops h) in (rc, h1, None))"

definition cosm_reset :: "'h cosm_hw_ops \<Rightarrow> cosm_device \<Rightarrow> 'h \<Rightarrow> int \<times> 'h \<times> string option" where
  "cosm_reset ops cdev h =
     (if previous_state cdev = MIC_STATE_UNKNOWN \<and> op_detect_state ops h = MIC_STATE_RESETTING
      then (0, h, None)
      else
        let (sent, h1) =
              (if epd cdev \<and> previous_state cdev = MIC_STATE_ONLINE
               then (let (rc, h') = op_scif_send ops COSM_MSG_REBOOT h in (rc > 0, h'))
               else (False, h))
        in if sent then (0, h1, None)
           else let (rc, h2) = op_reset ops (cosm_stop ops h1) in (rc, h2, None))"

definition cosm_reset_from_card_complete ::
    "'h cosm_hw_ops \<Rightarrow> cosm_device \<Rightarrow> 'h \<Rightarrow> int \<times> cosm_device \<times> 'h \<times> string option" where
  "cosm_reset_from_card_complete ops cdev h =
     (if op_detect_state ops h \<noteq> MIC_STATE_READY then (- EAGAIN, cdev, h, None)
      else (0, cdev\<lparr>config := (config cdev)\<lparr>execute_on_ready := MIC_CMD_BOOT\<rparr>\<rparr>, cosm_stop ops h, None))"

definition cosm_reset_complete ::
    "'h cosm_hw_ops \<Rightarrow> cosm_device \<Rightarrow> 'h \<Rightarrow> int \<times> cosm_device \<times> 'h \<times> string option" where
  "cosm_reset_complete ops cdev h =
     (if op_detect_state ops h \<noteq> MIC_STATE_READY then (- EAGAIN, cdev, h, None)
      else let (rc, h1) = op_dev_update ops (cosm_stop ops h) in (0, cdev, h1, None))"

definition cosm_reset_timeout :: "'h cosm_hw_ops \<Rightarrow> cosm_device \<Rightarrow> u32" where
  "cosm_reset_timeout ops cdev = shutdown_timeout (config cdev) + op_reset_timeout ops"

definition cosm_handle_hang_complete ::
    "'h cosm_hw_ops \<Rightarrow> cosm_device \<Rightarrow> 'h \<Rightarrow> int \<times> cosm_device \<times> 'h \<times> string option" where
  "cosm_handle_hang_complete ops cdev h = (0, cdev, h, Some ''coprocessor not responding'')"

definition cosm_handle_panic_complete ::
    "'h cosm_hw_ops \<Rightarrow> cosm_device \<Rightarrow> 'h \<Rightarrow> int \<times> cosm_device \<times> 'h \<times> string option" where
  "cosm_handle_panic_complete ops cdev h = (0, cdev, h, Some ''kernel panic'')"

definition cosm_shutdown_force :: "'h cosm_hw_ops \<Rightarrow> cosm_device \<Rightarrow> 'h \<Rightarrow> int \<times> 'h \<times> string option" where
  "cosm_shutdown_force ops cdev h =
     (let (rc, h1) = op_shutdown ops (cosm_stop ops h) in (rc, h1, None))"

definition cosm_shutdown :: "'h cosm_hw_ops \<Rightarrow> cosm_device \<Rightarrow> 'h \<Rightarrow> int \<times> 'h \<times> string option" where
  "cosm_shutdown ops cdev h =
     (if op_detect_state ops h = MIC_STATE_READY
      then (let (rc, h1) = op_shutdown ops (cosm_stop ops h) in (rc, h1, None))
      else if epd cdev \<and> previous_state cdev = MIC_STATE_ONLINE
      then (let (rc, h1) = op_scif_send ops COSM_MSG_SHUTDOWN h
            in if rc > 0 then (0, h1, None) else (- EINVAL, h1, None))
      else (- EINVAL, h, None))"

definition cosm_shutdown_complete ::
    "'h cosm_hw_ops \<Rightarrow> cosm_device \<Rightarrow> 'h \<Rightarrow> int \<times> cosm_device \<times> 'h \<times> string option" where
  "cosm_shutdown_complete ops cdev h =
     (if op_detect_state ops h \<noteq> MIC_STATE_SHUTDOWN then (- EAGAIN, cdev, h, None)
      else (0, cdev, cosm_stop ops h, None))"

definition cosm_shutdown_timeout :: "'h cosm_hw_ops \<Rightarrow> cosm_device \<Rightarrow> u32" where
  "cosm_shutdown_timeout ops cdev = shutdown_timeout (config cdev)"

record 'h cosm_command =
  invoke :: "('h cosm_hw_ops \<Rightarrow> cosm_device \<Rightarrow> 'h \<Rightarrow> int \<times> 'h \<times> string option) option"
  complete :: "('h cosm_hw_ops \<Rightarrow> cosm_device \<Rightarrow> 'h \<Rightarrow> int \<times> cosm_device \<times> 'h \<times> string option) option"
  get_timeout :: "('h cosm_hw_ops \<Rightarrow> cosm_device \<Rightarrow> u32) option"
  cmd_string :: string
  temporal_state :: mic_state
  target_state :: mic_state
  hidden :: bool
  abort_current :: bool

text \<open>A designated initialiser leaves the fields it does not name zero: no function, state 0.\<close>

definition cosm_command_zero :: "'h cosm_command" where
  "cosm_command_zero = \<lparr>invoke = None, complete = None, get_timeout = None, cmd_string = [],
     temporal_state = MIC_STATE_UNKNOWN, target_state = MIC_STATE_UNKNOWN, hidden = False,
     abort_current = False\<rparr>"

fun cosm_commands :: "mic_command \<Rightarrow> 'h cosm_command" where
  "cosm_commands MIC_CMD_NONE = cosm_command_zero\<lparr>cmd_string := ''none'', hidden := True\<rparr>"
| "cosm_commands MIC_CMD_HANDLE_PANIC = cosm_command_zero\<lparr>cmd_string := ''handle_panic'',
     complete := Some cosm_handle_panic_complete, hidden := True, abort_current := True,
     temporal_state := MIC_STATE_UNKNOWN, target_state := MIC_STATE_ERROR\<rparr>"
| "cosm_commands MIC_CMD_HANDLE_HANG = cosm_command_zero\<lparr>cmd_string := ''handle_hang'',
     complete := Some cosm_handle_hang_complete, hidden := True, abort_current := True,
     temporal_state := MIC_STATE_UNKNOWN, target_state := MIC_STATE_ERROR\<rparr>"
| "cosm_commands MIC_CMD_BOOT_FIRMWARE = cosm_command_zero\<lparr>cmd_string := ''boot_firmware'',
     invoke := Some cosm_boot_firmware, complete := Some cosm_boot_firmware_complete,
     get_timeout := Some cosm_boot_firmware_timeout,
     temporal_state := MIC_STATE_BOOTING_FIRMWARE, target_state := MIC_STATE_ONLINE_FIRMWARE\<rparr>"
| "cosm_commands MIC_CMD_BOOT = cosm_command_zero\<lparr>cmd_string := ''boot'',
     invoke := Some cosm_boot, complete := Some cosm_boot_complete,
     get_timeout := Some cosm_boot_timeout,
     temporal_state := MIC_STATE_BOOTING, target_state := MIC_STATE_ONLINE\<rparr>"
| "cosm_commands MIC_CMD_RESET = cosm_command_zero\<lparr>cmd_string := ''reset'',
     invoke := Some cosm_reset, complete := Some cosm_reset_complete,
     get_timeout := Some cosm_reset_timeout,
     temporal_state := MIC_STATE_RESETTING, target_state := MIC_STATE_READY\<rparr>"
| "cosm_commands MIC_CMD_RESET_FROM_CARD = cosm_command_zero\<lparr>cmd_string := ''reset_from_card'',
     complete := Some cosm_reset_from_card_complete, get_timeout := Some cosm_reset_timeout,
     temporal_state := MIC_STATE_RESETTING, target_state := MIC_STATE_READY, hidden := True\<rparr>"
| "cosm_commands MIC_CMD_RESET_FORCE = cosm_command_zero\<lparr>cmd_string := ''reset_force'',
     invoke := Some cosm_reset_force, complete := Some cosm_reset_complete,
     get_timeout := Some cosm_reset_timeout,
     temporal_state := MIC_STATE_RESETTING, target_state := MIC_STATE_READY, abort_current := True\<rparr>"
| "cosm_commands MIC_CMD_RESET_FORCE_WARM = cosm_command_zero\<lparr>cmd_string := ''reset_force_warm'',
     invoke := Some cosm_reset_force_warm, complete := Some cosm_reset_complete,
     get_timeout := Some cosm_reset_timeout,
     temporal_state := MIC_STATE_RESETTING, target_state := MIC_STATE_READY, abort_current := True\<rparr>"
| "cosm_commands MIC_CMD_SHUTDOWN = cosm_command_zero\<lparr>cmd_string := ''shutdown'',
     invoke := Some cosm_shutdown, complete := Some cosm_shutdown_complete,
     get_timeout := Some cosm_shutdown_timeout,
     temporal_state := MIC_STATE_SHUTTING_DOWN, target_state := MIC_STATE_SHUTDOWN\<rparr>"
| "cosm_commands MIC_CMD_SHUTDOWN_FROM_CARD = cosm_command_zero\<lparr>cmd_string := ''shutdown_from_card'',
     complete := Some cosm_shutdown_complete, get_timeout := Some cosm_shutdown_timeout,
     temporal_state := MIC_STATE_SHUTTING_DOWN, target_state := MIC_STATE_SHUTDOWN, hidden := True\<rparr>"
| "cosm_commands MIC_CMD_SHUTDOWN_FORCE = cosm_command_zero\<lparr>cmd_string := ''shutdown_force'',
     invoke := Some cosm_shutdown_force, complete := Some cosm_shutdown_complete,
     get_timeout := Some cosm_shutdown_timeout,
     temporal_state := MIC_STATE_SHUTTING_DOWN, target_state := MIC_STATE_SHUTDOWN,
     abort_current := True\<rparr>"

section \<open>Switching states and accepting commands\<close>

definition cosm_lock_module :: "bool \<Rightarrow> cosm_device \<Rightarrow> cosm_device" where
  "cosm_lock_module got cdev =
     (if \<not> is_module_locked cdev then (if \<not> got then cdev else cdev\<lparr>is_module_locked := True\<rparr>)
      else cdev)"

definition cosm_unlock_module :: "cosm_device \<Rightarrow> cosm_device" where
  "cosm_unlock_module cdev = (if is_module_locked cdev then cdev\<lparr>is_module_locked := False\<rparr> else cdev)"

definition cosm_update_module_lock :: "bool \<Rightarrow> mic_state \<Rightarrow> cosm_device \<Rightarrow> cosm_device" where
  "cosm_update_module_lock got st cdev =
     (if st = MIC_STATE_READY \<or> st = MIC_STATE_SHUTDOWN \<or> st = MIC_STATE_ERROR
      then cosm_unlock_module cdev else cosm_lock_module got cdev)"

definition cosm_switch_to_state :: "bool \<Rightarrow> mic_state \<Rightarrow> string option \<Rightarrow> cosm_device \<Rightarrow> cosm_device" where
  "cosm_switch_to_state got st msg cdev =
     (let current_state = state cdev;
          c1 = (if current_state = MIC_STATE_READY \<or> st = MIC_STATE_ERROR
                then cdev\<lparr>config := (config cdev)\<lparr>execute_on_ready := MIC_CMD_NONE\<rparr>\<rparr> else cdev);
          c2 = cosm_update_module_lock got st c1
      in c2\<lparr>previous_state := current_state, state := st, state_msg := msg, state_changed := True\<rparr>)"

definition is_command_already_executed :: "cosm_device \<Rightarrow> mic_command \<Rightarrow> bool" where
  "is_command_already_executed cdev command \<longleftrightarrow>
     (let target = target_state (cosm_commands command :: unit cosm_command)
      in current_command_id cdev = MIC_CMD_NONE \<and> target = state cdev \<or>
         current_command_id cdev \<noteq> MIC_CMD_NONE \<and>
         target = target_state (cosm_commands (current_command_id cdev) :: unit cosm_command))"

text \<open>
  \<open>cosm_set_command\<close> in its three parts, each run under \<open>command_mutex\<close>: the checks up to the
  label \<open>exec_command\<close> (\<open>Inl rc\<close> when it returns there), the part between
  \<open>cancel_work_sync\<close> and the wait, and the return after the wait.
\<close>

definition cosm_set_command_check :: "mic_command \<Rightarrow> cosm_device \<Rightarrow> int + cosm_device" where
  "cosm_set_command_check command cdev =
     (if abort_current (cosm_commands command :: unit cosm_command) then Inr (cdev\<lparr>abort := True\<rparr>)
      else if is_command_already_executed cdev command then Inl (- EALREADY)
      else if current_command_id cdev \<noteq> MIC_CMD_NONE then Inl (- EBUSY)
      else if \<not> is_command_allowed (state cdev) command then Inl (- EPERM)
      else Inr cdev)"

definition cosm_set_command_exec :: "mic_command \<Rightarrow> cosm_device \<Rightarrow> cosm_device" where
  "cosm_set_command_exec command cdev =
     cdev\<lparr>current_command_id := command, abort := False, received_online := False,
          state_changed := False\<rparr>"

definition cosm_set_command_return :: "int \<Rightarrow> int" where
  "cosm_set_command_return wait_rc = (if wait_rc = 0 \<or> wait_rc = - ERESTARTSYS then - EINTR else 0)"

text \<open>\<open>sysfs_streq\<close> of the kernel: equality up to one trailing newline.\<close>

definition sysfs_streq :: "string \<Rightarrow> string \<Rightarrow> bool" where
  "sysfs_streq a b \<longleftrightarrow> a = b \<or> a = b @ [CHR 0x0A] \<or> b = a @ [CHR 0x0A]"

fun get_command_id_loop :: "string \<Rightarrow> mic_command list \<Rightarrow> int + mic_command" where
  "get_command_id_loop s [] = Inl (- EINVAL)"
| "get_command_id_loop s (c # cs) =
     (if hidden (cosm_commands c :: unit cosm_command) then get_command_id_loop s cs
      else if sysfs_streq s (cmd_string (cosm_commands c :: unit cosm_command)) then Inr c
      else get_command_id_loop s cs)"

definition cosm_get_command_id :: "string \<Rightarrow> int + mic_command" where
  "cosm_get_command_id s = get_command_id_loop s mic_commands"

section \<open>The work item\<close>

text \<open>
  \<open>Running c start limit msg\<close>: \<open>cosm_state_flow\<close> is in its polling loop for command \<open>c\<close>,
  entered at \<open>start\<close>, to time out after \<open>limit\<close> (in jiffies), with the local \<open>state_msg\<close>.
\<close>

datatype flow_work = Idle | Pending | Running mic_command u64 u64 "string option"

abbreviation cosm_max_state_timeout :: u32 where "cosm_max_state_timeout \<equiv> 180"

definition command_timeout :: "'h cosm_hw_ops \<Rightarrow> cosm_device \<Rightarrow> mic_command \<Rightarrow> u32" where
  "command_timeout ops cdev c =
     (let t = (case get_timeout (cosm_commands c) of Some f \<Rightarrow> f ops cdev | None \<Rightarrow> 0)
      in if t = 0 \<or> t > cosm_max_state_timeout then cosm_max_state_timeout else t)"

text \<open>
  \<open>time_is_before_jiffies\<close>: the difference of two \<open>unsigned long\<close>, read as a signed number, is
  negative: its top bit is set.
\<close>

definition time_is_before_jiffies :: "u64 \<Rightarrow> u64 \<Rightarrow> bool" where
  "time_is_before_jiffies now a \<longleftrightarrow> 2 ^ 63 \<le> unat (a - now)"

definition new_msg :: "string option \<Rightarrow> string option \<Rightarrow> string option" where
  "new_msg written old = (case written of Some m \<Rightarrow> Some m | None \<Rightarrow> old)"

definition cosm_command_exit ::
    "'h cosm_hw_ops \<Rightarrow> mic_state \<Rightarrow> string option \<Rightarrow> cosm_device \<Rightarrow> 'h \<Rightarrow> cosm_device \<times> 'h \<times> flow_work" where
  "cosm_command_exit ops st msg cdev h =
     ((cosm_switch_to_state (op_try_module_get ops h) st msg cdev)\<lparr>current_command_id := MIC_CMD_NONE\<rparr>,
      h, Idle)"

definition cosm_state_flow_start ::
    "'h cosm_hw_ops \<Rightarrow> (u32 \<Rightarrow> u64) \<Rightarrow> u64 \<Rightarrow> cosm_device \<Rightarrow> 'h \<Rightarrow> cosm_device \<times> 'h \<times> flow_work" where
  "cosm_state_flow_start ops msecs_to_jiffies now cdev h =
     (let c = current_command_id cdev;
          command = cosm_commands c;
          limit = now + msecs_to_jiffies (command_timeout ops cdev c * 1000);
          cdev1 = (if temporal_state command \<noteq> MIC_STATE_UNKNOWN
                   then cosm_switch_to_state (op_try_module_get ops h) (temporal_state command) None cdev
                   else cdev)
      in case invoke command of
           None \<Rightarrow> (cdev1, h, Running c now limit None)
         | Some f \<Rightarrow>
             (let (rc, h1, written) = f ops cdev1 h
              in if rc \<noteq> 0 then cosm_command_exit ops MIC_STATE_ERROR written cdev1 h1
                 else (cdev1, h1, Running c now limit written)))"

text \<open>One iteration of the loop; \<open>None\<close> is the call of a \<open>complete\<close> that is not there.\<close>

definition cosm_state_flow_poll ::
    "'h cosm_hw_ops \<Rightarrow> u64 \<Rightarrow> mic_command \<Rightarrow> u64 \<Rightarrow> u64 \<Rightarrow> string option \<Rightarrow> cosm_device \<Rightarrow> 'h
       \<Rightarrow> (cosm_device \<times> 'h \<times> flow_work) option" where
  "cosm_state_flow_poll ops now c start limit msg cdev h =
     (let command = cosm_commands c
      in case complete command of
           None \<Rightarrow> None
         | Some f \<Rightarrow>
             (let (rc, cdev1, h1, written) = f ops cdev h; msg1 = new_msg written msg
              in Some (if rc = 0 then cosm_command_exit ops (target_state command) msg1 cdev1 h1
                       else if rc = - EINTR then
                         cosm_command_exit ops MIC_STATE_ERROR (Some ''interrupted by signal'') cdev1 h1
                       else if time_is_before_jiffies now limit then
                         cosm_command_exit ops MIC_STATE_ERROR (Some ''interrupted by timeout'') cdev1 h1
                       else if abort cdev1 then (cdev1, h1, Idle)
                       else if rc = - EAGAIN then (cdev1, h1, Running c start limit msg1)
                       else cosm_command_exit ops MIC_STATE_ERROR
                              (Some ''interrupted by unknown complete code'') cdev1 h1)))"

section \<open>Messages from the card, and the sysfs files\<close>

text \<open>
  What \<open>cosm_status_handler\<close> does with a state byte from the card: note that the card is
  online, issue a command, read \<open>cosm_states\<close> out of its bounds, or ignore it.
\<close>

datatype card_event = Card_online | Issue mic_command | Bad_index | Unsupported

definition cosm_status_handler :: "u8 \<Rightarrow> card_event" where
  "cosm_status_handler b =
     (case mic_state_of b of
        None \<Rightarrow> Bad_index
      | Some st \<Rightarrow>
          (case st of
             MIC_STATE_ONLINE \<Rightarrow> Card_online
           | MIC_STATE_RESETTING \<Rightarrow> Issue MIC_CMD_RESET_FROM_CARD
           | MIC_STATE_SHUTTING_DOWN \<Rightarrow> Issue MIC_CMD_SHUTDOWN_FROM_CARD
           | MIC_STATE_ERROR \<Rightarrow> Issue MIC_CMD_HANDLE_PANIC
           | _ \<Rightarrow> Unsupported))"

text \<open>
  \<open>cosm_scif_recv\<close> on the messages (id and first payload byte) that \<open>scif_recv\<close> returns before
  it returns no more: the events handled, and the result that tells the caller to close.
\<close>

fun cosm_scif_recv :: "(u64 \<times> u8) list \<Rightarrow> card_event list \<times> int" where
  "cosm_scif_recv [] = ([], 0)"
| "cosm_scif_recv ((msg_id, msg_state) # msgs) =
     (let ev = (if msg_id = 4 then [cosm_status_handler msg_state] else [])
      in if msg_state = 1 then (ev, 1)
         else let (evs, r) = cosm_scif_recv msgs in (ev @ evs, r))"

definition boot_timeout_store :: "int + u32 \<Rightarrow> int \<Rightarrow> cosm_device \<Rightarrow> int \<times> cosm_device" where
  "boot_timeout_store parsed n cdev =
     (case parsed of
        Inl e \<Rightarrow> (e, cdev)
      | Inr timeout \<Rightarrow>
          if timeout < 90 then (- EINVAL, cdev)
          else (n, cdev\<lparr>config := (config cdev)\<lparr>boot_timeout := timeout\<rparr>\<rparr>))"

definition shutdown_timeout_store :: "int + u32 \<Rightarrow> int \<Rightarrow> cosm_device \<Rightarrow> int \<times> cosm_device" where
  "shutdown_timeout_store parsed n cdev =
     (case parsed of
        Inl e \<Rightarrow> (e, cdev)
      | Inr timeout \<Rightarrow>
          if timeout < 60 then (- EINVAL, cdev)
          else (n, cdev\<lparr>config := (config cdev)\<lparr>shutdown_timeout := timeout\<rparr>\<rparr>))"

definition execute_on_ready_store :: "string \<Rightarrow> cosm_device \<Rightarrow> int \<times> cosm_device" where
  "execute_on_ready_store buf cdev =
     (case cosm_get_command_id buf of
        Inl rc \<Rightarrow> (rc, cdev)
      | Inr c \<Rightarrow> (int (length buf), cdev\<lparr>config := (config cdev)\<lparr>execute_on_ready := c\<rparr>\<rparr>))"

text \<open>The command that a write to the \<open>state\<close> file hands to \<open>cosm_set_command\<close>.\<close>

definition state_store :: "string \<Rightarrow> int + mic_command" where
  "state_store buf = cosm_get_command_id buf"

section \<open>The interleaved system\<close>

datatype set_phase = Free | Cancelling mic_command | Waiting

record 'h cosm_sys =
  dev :: cosm_device
  work :: flow_work
  phase :: set_phase
  hw :: 'h
  now :: u64

inductive cosm_step ::
    "'h cosm_hw_ops \<Rightarrow> (u32 \<Rightarrow> u64) \<Rightarrow> 'h cosm_sys \<Rightarrow> 'h cosm_sys \<Rightarrow> bool"
  for ops :: "'h cosm_hw_ops" and mj :: "u32 \<Rightarrow> u64" where
  step_enter: "phase s = Free \<Longrightarrow> cosm_set_command_check c (dev s) = Inr d \<Longrightarrow>
     cosm_step ops mj s (s\<lparr>dev := d, phase := Cancelling c\<rparr>)"
| step_exec: "phase s = Cancelling c \<Longrightarrow> work s = Idle \<or> work s = Pending \<Longrightarrow>
     cosm_step ops mj s (s\<lparr>dev := cosm_set_command_exec c (dev s), work := Pending, phase := Waiting\<rparr>)"
| step_return: "phase s = Waiting \<Longrightarrow> cosm_step ops mj s (s\<lparr>phase := Free\<rparr>)"
| step_start: "work s = Pending \<Longrightarrow>
     cosm_state_flow_start ops mj (now s) (dev s) (hw s) = (d, h, w) \<Longrightarrow>
     cosm_step ops mj s (s\<lparr>dev := d, hw := h, work := w\<rparr>)"
| step_poll: "work s = Running c start limit msg \<Longrightarrow>
     cosm_state_flow_poll ops (now s) c start limit msg (dev s) (hw s) = Some (d, h, w) \<Longrightarrow>
     cosm_step ops mj s (s\<lparr>dev := d, hw := h, work := w\<rparr>)"
| step_time: "cosm_step ops mj s (s\<lparr>hw := h, now := t\<rparr>)"
| step_online: "cosm_status_handler b = Card_online \<Longrightarrow>
     cosm_step ops mj s (s\<lparr>dev := (dev s)\<lparr>received_online := True\<rparr>\<rparr>)"
| step_epd: "cosm_step ops mj s (s\<lparr>dev := (dev s)\<lparr>epd := b\<rparr>\<rparr>)"
| step_boot_timeout: "boot_timeout_store v n (dev s) = (r, d) \<Longrightarrow> cosm_step ops mj s (s\<lparr>dev := d\<rparr>)"
| step_shutdown_timeout: "shutdown_timeout_store v n (dev s) = (r, d) \<Longrightarrow> cosm_step ops mj s (s\<lparr>dev := d\<rparr>)"
| step_on_ready: "execute_on_ready_store buf (dev s) = (r, d) \<Longrightarrow> cosm_step ops mj s (s\<lparr>dev := d\<rparr>)"

text \<open>
  The device as \<open>cosm_driver_probe\<close> leaves it just before its \<open>cosm_set_command (MIC_CMD_RESET)\<close>:
  the structure was allocated zeroed, so no command is current.
\<close>

definition cosm_probe_device :: "bool \<Rightarrow> cosm_device" where
  "cosm_probe_device got =
     cosm_lock_module got
       \<lparr>config = \<lparr>efi_image = None, kernel_image = None, kernel_cmdline = None,
                  initramfs_image = None, execute_on_ready = MIC_CMD_NONE,
                  boot_timeout = 90, shutdown_timeout = 60\<rparr>,
        is_module_locked = False, current_command_id = MIC_CMD_NONE, received_online = False,
        abort = False, state_changed = False, state = MIC_STATE_UNKNOWN,
        previous_state = MIC_STATE_UNKNOWN, state_msg = None, epd = False\<rparr>"

definition cosm_probe_sys :: "bool \<Rightarrow> 'h \<Rightarrow> u64 \<Rightarrow> 'h cosm_sys" where
  "cosm_probe_sys got h t =
     \<lparr>dev = cosm_probe_device got, work = Idle, phase = Free, hw = h, now = t\<rparr>"

inductive cosm_reachable :: "'h cosm_hw_ops \<Rightarrow> (u32 \<Rightarrow> u64) \<Rightarrow> 'h cosm_sys \<Rightarrow> bool"
  for ops :: "'h cosm_hw_ops" and mj :: "u32 \<Rightarrow> u64" where
  reach_probe: "cosm_reachable ops mj (cosm_probe_sys (op_try_module_get ops h) h t)"
| reach_step: "cosm_reachable ops mj s \<Longrightarrow> cosm_step ops mj s s' \<Longrightarrow> cosm_reachable ops mj s'"

section \<open>The invariant\<close>

definition temporal_of :: "mic_command \<Rightarrow> mic_state" where
  "temporal_of c = temporal_state (cosm_commands c :: unit cosm_command)"

definition target_of :: "mic_command \<Rightarrow> mic_state" where
  "target_of c = target_state (cosm_commands c :: unit cosm_command)"

definition aborting :: "mic_command \<Rightarrow> bool" where
  "aborting c = abort_current (cosm_commands c :: unit cosm_command)"

definition transitional :: "mic_state \<Rightarrow> bool" where
  "transitional st \<longleftrightarrow> st \<in> {MIC_STATE_RESETTING, MIC_STATE_SHUTTING_DOWN, MIC_STATE_BOOTING,
                          MIC_STATE_BOOTING_FIRMWARE}"

lemma command_values [simp]:
  "temporal_of MIC_CMD_NONE = MIC_STATE_UNKNOWN"
  "temporal_of MIC_CMD_BOOT_FIRMWARE = MIC_STATE_BOOTING_FIRMWARE"
  "temporal_of MIC_CMD_BOOT = MIC_STATE_BOOTING"
  "temporal_of MIC_CMD_RESET = MIC_STATE_RESETTING"
  "temporal_of MIC_CMD_RESET_FROM_CARD = MIC_STATE_RESETTING"
  "temporal_of MIC_CMD_RESET_FORCE = MIC_STATE_RESETTING"
  "temporal_of MIC_CMD_RESET_FORCE_WARM = MIC_STATE_RESETTING"
  "temporal_of MIC_CMD_SHUTDOWN = MIC_STATE_SHUTTING_DOWN"
  "temporal_of MIC_CMD_SHUTDOWN_FROM_CARD = MIC_STATE_SHUTTING_DOWN"
  "temporal_of MIC_CMD_SHUTDOWN_FORCE = MIC_STATE_SHUTTING_DOWN"
  "temporal_of MIC_CMD_HANDLE_PANIC = MIC_STATE_UNKNOWN"
  "temporal_of MIC_CMD_HANDLE_HANG = MIC_STATE_UNKNOWN"
  "target_of MIC_CMD_NONE = MIC_STATE_UNKNOWN"
  "target_of MIC_CMD_BOOT_FIRMWARE = MIC_STATE_ONLINE_FIRMWARE"
  "target_of MIC_CMD_BOOT = MIC_STATE_ONLINE"
  "target_of MIC_CMD_RESET = MIC_STATE_READY"
  "target_of MIC_CMD_RESET_FROM_CARD = MIC_STATE_READY"
  "target_of MIC_CMD_RESET_FORCE = MIC_STATE_READY"
  "target_of MIC_CMD_RESET_FORCE_WARM = MIC_STATE_READY"
  "target_of MIC_CMD_SHUTDOWN = MIC_STATE_SHUTDOWN"
  "target_of MIC_CMD_SHUTDOWN_FROM_CARD = MIC_STATE_SHUTDOWN"
  "target_of MIC_CMD_SHUTDOWN_FORCE = MIC_STATE_SHUTDOWN"
  "target_of MIC_CMD_HANDLE_PANIC = MIC_STATE_ERROR"
  "target_of MIC_CMD_HANDLE_HANG = MIC_STATE_ERROR"
  "\<not> aborting MIC_CMD_NONE"
  "\<not> aborting MIC_CMD_BOOT_FIRMWARE"
  "\<not> aborting MIC_CMD_BOOT"
  "\<not> aborting MIC_CMD_RESET"
  "\<not> aborting MIC_CMD_RESET_FROM_CARD"
  "aborting MIC_CMD_RESET_FORCE"
  "aborting MIC_CMD_RESET_FORCE_WARM"
  "\<not> aborting MIC_CMD_SHUTDOWN"
  "\<not> aborting MIC_CMD_SHUTDOWN_FROM_CARD"
  "aborting MIC_CMD_SHUTDOWN_FORCE"
  "aborting MIC_CMD_HANDLE_PANIC"
  "aborting MIC_CMD_HANDLE_HANG"
  by (simp_all add: temporal_of_def target_of_def aborting_def cosm_command_zero_def)

lemma command_table [simp]:
  "temporal_state (cosm_commands c) = temporal_of c"
  "target_state (cosm_commands c) = target_of c"
  "abort_current (cosm_commands c) = aborting c"
  by (cases c; simp add: temporal_of_def target_of_def aborting_def cosm_command_zero_def)+

lemma target_stable: "c \<noteq> MIC_CMD_NONE \<Longrightarrow> \<not> transitional (target_of c)"
  by (cases c) (simp_all add: transitional_def)

lemma complete_exists:
  "complete (cosm_commands c :: 'h cosm_command) = None \<longleftrightarrow> c = MIC_CMD_NONE"
  by (cases c) (simp_all add: cosm_command_zero_def)

lemmas complete_defs =
  cosm_boot_firmware_complete_def cosm_boot_complete_def cosm_reset_from_card_complete_def
  cosm_reset_complete_def cosm_handle_hang_complete_def cosm_handle_panic_complete_def
  cosm_shutdown_complete_def

lemma complete_frame:
  assumes "complete (cosm_commands c) = Some f" "f ops cdev h = (rc, cdev1, h1, written)"
  shows "\<exists>x. cdev1 = cdev\<lparr>config := (config cdev)\<lparr>execute_on_ready := x\<rparr>\<rparr>"
proof -
  have same: "\<exists>x. cdev = cdev\<lparr>config := (config cdev)\<lparr>execute_on_ready := x\<rparr>\<rparr>"
    by (rule exI [of _ "execute_on_ready (config cdev)"]) simp
  show ?thesis
    using assms same
    by (cases c) (auto simp: complete_defs cosm_command_zero_def split: if_splits prod.splits)
qed

lemma complete_codes:
  assumes "complete (cosm_commands c) = Some f" "f ops cdev h = (rc, cdev1, h1, written)"
  shows "rc = 0 \<or> rc = - EAGAIN"
  using assms by (cases c) (auto simp: complete_defs cosm_command_zero_def split: if_splits prod.splits)

lemma switch_simps [simp]:
  "state (cosm_switch_to_state got st msg cdev) = st"
  "previous_state (cosm_switch_to_state got st msg cdev) = state cdev"
  "state_msg (cosm_switch_to_state got st msg cdev) = msg"
  "current_command_id (cosm_switch_to_state got st msg cdev) = current_command_id cdev"
  "abort (cosm_switch_to_state got st msg cdev) = abort cdev"
  "received_online (cosm_switch_to_state got st msg cdev) = received_online cdev"
  "boot_timeout (config (cosm_switch_to_state got st msg cdev)) = boot_timeout (config cdev)"
  "shutdown_timeout (config (cosm_switch_to_state got st msg cdev)) = shutdown_timeout (config cdev)"
  "execute_on_ready (config (cosm_switch_to_state got st msg cdev)) =
     (if state cdev = MIC_STATE_READY \<or> st = MIC_STATE_ERROR then MIC_CMD_NONE
      else execute_on_ready (config cdev))"
  by (simp_all add: cosm_switch_to_state_def cosm_update_module_lock_def cosm_lock_module_def
      cosm_unlock_module_def Let_def)

lemma switch_locked [simp]:
  "is_module_locked (cosm_switch_to_state got st msg cdev) =
     (if st = MIC_STATE_READY \<or> st = MIC_STATE_SHUTDOWN \<or> st = MIC_STATE_ERROR then False
      else is_module_locked cdev \<or> got)"
  by (simp add: cosm_switch_to_state_def cosm_update_module_lock_def cosm_lock_module_def
      cosm_unlock_module_def Let_def)

definition cancelling :: "set_phase \<Rightarrow> bool" where
  "cancelling ph \<longleftrightarrow> (\<exists>c. ph = Cancelling c)"

definition work_ok :: "cosm_device \<Rightarrow> flow_work \<Rightarrow> bool" where
  "work_ok d w \<longleftrightarrow>
     (case w of
        Idle \<Rightarrow> True
      | Pending \<Rightarrow> current_command_id d \<noteq> MIC_CMD_NONE \<and>
          (aborting (current_command_id d) \<or> is_command_allowed (state d) (current_command_id d))
      | Running c start limit msg \<Rightarrow> current_command_id d = c \<and> c \<noteq> MIC_CMD_NONE \<and>
          (temporal_of c \<noteq> MIC_STATE_UNKNOWN \<longrightarrow> state d = temporal_of c))"

definition phase_ok :: "cosm_device \<Rightarrow> flow_work \<Rightarrow> set_phase \<Rightarrow> bool" where
  "phase_ok d w ph \<longleftrightarrow>
     (case ph of
        Cancelling c \<Rightarrow> c \<noteq> MIC_CMD_NONE \<and>
          (aborting c \<or> \<not> abort d \<and> w = Idle \<and> current_command_id d = MIC_CMD_NONE \<and>
             is_command_allowed (state d) c)
      | _ \<Rightarrow> \<not> abort d \<and> (w = Idle \<longrightarrow> current_command_id d = MIC_CMD_NONE))"

definition dev_ok :: "cosm_device \<Rightarrow> bool" where
  "dev_ok d \<longleftrightarrow> (transitional (state d) \<longrightarrow> current_command_id d \<noteq> MIC_CMD_NONE) \<and>
     90 \<le> boot_timeout (config d) \<and> 60 \<le> shutdown_timeout (config d)"

definition cosm_inv :: "'h cosm_sys \<Rightarrow> bool" where
  "cosm_inv s \<longleftrightarrow> work_ok (dev s) (work s) \<and> phase_ok (dev s) (work s) (phase s) \<and> dev_ok (dev s)"

lemmas inv_defs = cosm_inv_def work_ok_def phase_ok_def dev_ok_def

lemma check_accepts:
  assumes "cosm_set_command_check c d = Inr d'"
  shows "c \<noteq> MIC_CMD_NONE"
    and "aborting c \<and> d' = d\<lparr>abort := True\<rparr> \<or>
         \<not> aborting c \<and> d' = d \<and> current_command_id d = MIC_CMD_NONE \<and> is_command_allowed (state d) c"
proof -
  show "aborting c \<and> d' = d\<lparr>abort := True\<rparr> \<or>
        \<not> aborting c \<and> d' = d \<and> current_command_id d = MIC_CMD_NONE \<and> is_command_allowed (state d) c"
    using assms by (auto simp: cosm_set_command_check_def split: if_splits)
  then show "c \<noteq> MIC_CMD_NONE"
    by (cases "state d") (auto simp: is_command_allowed_def)
qed

lemma start_result:
  assumes "cosm_state_flow_start ops mj t d h = (d', h', w)" and "c = current_command_id d"
  obtains (failed) "w = Idle" "state d' = MIC_STATE_ERROR" "current_command_id d' = MIC_CMD_NONE"
      "abort d' = abort d" "boot_timeout (config d') = boot_timeout (config d)"
      "shutdown_timeout (config d') = shutdown_timeout (config d)" "\<not> is_module_locked d'"
  | (running) msg where "w = Running c t (t + mj (command_timeout ops d c * 1000)) msg"
      "state d' = (if temporal_of c \<noteq> MIC_STATE_UNKNOWN then temporal_of c else state d)"
      "current_command_id d' = c" "abort d' = abort d"
      "boot_timeout (config d') = boot_timeout (config d)"
      "shutdown_timeout (config d') = shutdown_timeout (config d)"
      "is_module_locked d' = is_module_locked
         (if temporal_of c \<noteq> MIC_STATE_UNKNOWN
          then cosm_switch_to_state (op_try_module_get ops h) (temporal_of c) None d else d)"
proof -
  define d1 where "d1 = (if temporal_of c \<noteq> MIC_STATE_UNKNOWN
    then cosm_switch_to_state (op_try_module_get ops h) (temporal_of c) None d else d)"
  have d1: "state d1 = (if temporal_of c \<noteq> MIC_STATE_UNKNOWN then temporal_of c else state d)"
    "current_command_id d1 = c" "abort d1 = abort d"
    "boot_timeout (config d1) = boot_timeout (config d)"
    "shutdown_timeout (config d1) = shutdown_timeout (config d)"
    by (simp_all add: d1_def assms(2))
  consider h2 msg where "cosm_command_exit ops MIC_STATE_ERROR msg d1 h2 = (d', h', w)"
    | msg where "w = Running c t (t + mj (command_timeout ops d c * 1000)) msg" "d' = d1"
    using assms(1) unfolding cosm_state_flow_start_def Let_def command_table assms(2) [symmetric] d1_def [symmetric]
    by (auto split: option.splits prod.splits if_splits)
  then show thesis
  proof cases
    case 1
    then show thesis using d1 by (intro failed) (auto simp: cosm_command_exit_def)
  next
    case (2 msg)
    then show thesis using d1 by (intro running [of msg]) (auto simp: d1_def)
  qed
qed

lemma poll_result:
  assumes "cosm_state_flow_poll ops t c start limit msg d h = Some (d', h', w)"
  obtains (exited) "w = Idle" "state d' = target_of c \<or> state d' = MIC_STATE_ERROR"
      "current_command_id d' = MIC_CMD_NONE" "abort d' = abort d"
      "boot_timeout (config d') = boot_timeout (config d)"
      "shutdown_timeout (config d') = shutdown_timeout (config d)"
      "is_module_locked d' = (if state d' = MIC_STATE_READY \<or> state d' = MIC_STATE_SHUTDOWN \<or>
         state d' = MIC_STATE_ERROR then False else is_module_locked d \<or> op_try_module_get ops h')"
  | (aborted) x where "w = Idle" "abort d" "d' = d\<lparr>config := (config d)\<lparr>execute_on_ready := x\<rparr>\<rparr>"
  | (again) x msg' where "w = Running c start limit msg'"
      "d' = d\<lparr>config := (config d)\<lparr>execute_on_ready := x\<rparr>\<rparr>"
      "\<not> time_is_before_jiffies t limit" "\<not> abort d"
proof -
  obtain f rc d1 h1 written where f: "complete (cosm_commands c) = Some f"
      "f ops d h = (rc, d1, h1, written)"
    using assms by (auto simp: cosm_state_flow_poll_def Let_def split: option.splits prod.splits)
  obtain x where d1: "d1 = d\<lparr>config := (config d)\<lparr>execute_on_ready := x\<rparr>\<rparr>"
    using complete_frame [OF f] by blast
  consider st m where "cosm_command_exit ops st m d1 h1 = (d', h', w)"
      "st = target_of c \<or> st = MIC_STATE_ERROR"
    | "d' = d1" "w = Idle" "abort d1"
    | "d' = d1" "w = Running c start limit (new_msg written msg)"
      "\<not> time_is_before_jiffies t limit" "\<not> abort d1"
    using assms by (auto simp: cosm_state_flow_poll_def Let_def f split: if_splits)
  then show thesis
  proof cases
    case (1 st m)
    then show thesis
      by (intro exited) (auto simp: cosm_command_exit_def d1)
  next
    case 2
    then show thesis by (intro aborted [of x]) (simp_all add: d1)
  next
    case 3
    then show thesis by (intro again [of _ x]) (simp_all add: d1)
  qed
qed

lemma store_frame:
  "boot_timeout_store v n d = (r, d') \<or> shutdown_timeout_store v n d = (r, d') \<or>
   execute_on_ready_store buf d = (r, d') \<Longrightarrow>
   \<exists>cfg. d' = d\<lparr>config := cfg\<rparr> \<and> (dev_ok d \<longrightarrow> dev_ok d')"
  by (auto simp: boot_timeout_store_def shutdown_timeout_store_def execute_on_ready_store_def
      dev_ok_def not_less split: sum.splits if_splits) (metis cosm_device.surjective
      cosm_device.update_convs(1))+

lemma config_frame:
  "work_ok (d\<lparr>config := cfg\<rparr>) w = work_ok d w"
  "phase_ok (d\<lparr>config := cfg\<rparr>) w ph = phase_ok d w ph"
  by (simp_all add: work_ok_def phase_ok_def split: flow_work.splits set_phase.splits)

lemma cosm_inv_probe: "cosm_inv (cosm_probe_sys got h t)"
  by (simp add: inv_defs cosm_probe_sys_def cosm_probe_device_def cosm_lock_module_def
      transitional_def)

lemma inv_start:
  assumes "cosm_inv s" "work s = Pending"
    and "cosm_state_flow_start ops mj (now s) (dev s) (hw s) = (d, h, w)"
  shows "cosm_inv (s\<lparr>dev := d, hw := h, work := w\<rparr>)"
proof (cases rule: start_result [OF assms(3) refl])
  case 1
  with assms(1,2) show ?thesis
    by (auto simp: inv_defs transitional_def split: set_phase.splits)
next
  case (2 msg)
  with assms(1,2) show ?thesis
    by (auto simp: inv_defs split: set_phase.splits)
qed

lemma inv_poll:
  assumes "cosm_inv s" "work s = Running c start limit msg"
    and "cosm_state_flow_poll ops (now s) c start limit msg (dev s) (hw s) = Some (d, h, w)"
  shows "cosm_inv (s\<lparr>dev := d, hw := h, work := w\<rparr>)"
proof (cases rule: poll_result [OF assms(3)])
  case 1
  moreover have "\<not> transitional (state d)"
    using 1(2) target_stable [of c] assms(1,2)
    by (auto simp: cosm_inv_def work_ok_def transitional_def)
  ultimately show ?thesis
    using assms(1,2) by (auto simp: inv_defs split: set_phase.splits)
next
  case (2 x)
  with assms(1,2) show ?thesis
    by (auto simp: inv_defs split: set_phase.splits)
next
  case (3 x msg')
  with assms(1,2) show ?thesis
    by (auto simp: inv_defs split: set_phase.splits)
qed

lemma cosm_inv_step: "cosm_step ops mj s s' \<Longrightarrow> cosm_inv s \<Longrightarrow> cosm_inv s'"
proof (induction rule: cosm_step.induct)
  case (step_enter s c d)
  with check_accepts [OF step_enter(2)] show ?case
    by (auto simp: inv_defs split: flow_work.splits)
next
  case (step_exec s c)
  then show ?case
    by (auto simp: inv_defs cosm_set_command_exec_def)
next
  case (step_return s)
  then show ?case by (simp add: inv_defs)
next
  case (step_start s d h w)
  then show ?case by (rule inv_start [rotated])
next
  case (step_poll s c start limit msg d h w)
  then show ?case by (rule inv_poll [rotated])
next
  case (step_boot_timeout v n s r d)
  with store_frame [of v n "dev s" r d] show ?case by (auto simp: cosm_inv_def config_frame)
next
  case (step_shutdown_timeout v n s r d)
  with store_frame [of v n "dev s" r d] show ?case by (auto simp: cosm_inv_def config_frame)
next
  case (step_on_ready buf s r d)
  with store_frame [of _ _ "dev s" r d buf] show ?case by (auto simp: cosm_inv_def config_frame)
qed (auto simp: inv_defs split: flow_work.splits set_phase.splits)

lemma cosm_inv_reachable: "cosm_reachable ops mj s \<Longrightarrow> cosm_inv s"
  by (induction rule: cosm_reachable.induct) (auto intro: cosm_inv_probe cosm_inv_step)

section \<open>Bounds on the time a command takes\<close>

lemma command_timeout_bounds:
  "1 \<le> command_timeout ops d c \<and> command_timeout ops d c \<le> cosm_max_state_timeout"
  unfolding command_timeout_def Let_def
  by (cases "get_timeout (cosm_commands c)") (auto simp: word_le_nat_alt Suc_le_eq unat_gt_0 not_less)

lemma running_limit:
  assumes "cosm_reachable ops mj s"
  shows "\<forall>c start limit msg. work s = Running c start limit msg \<longrightarrow>
           (\<exists>T. 1 \<le> T \<and> T \<le> cosm_max_state_timeout \<and> limit = start + mj (T * 1000))"
  using assms
proof (induction rule: cosm_reachable.induct)
  case (reach_probe h t)
  then show ?case by (simp add: cosm_probe_sys_def)
next
  case (reach_step s s')
  from reach_step.hyps(2) reach_step.IH show ?case
  proof (induction rule: cosm_step.induct)
    case (step_start s d h w)
    show ?case
      by (cases rule: start_result [OF step_start(2) refl])
         (use command_timeout_bounds in auto)
  next
    case (step_poll s c start limit msg d h w)
    then show ?case
      by (cases rule: poll_result [OF step_poll(2)]) auto
  qed auto
qed

lemma elapsed_past_limit:
  assumes "unat (m :: u64) < unat (t - start)" "unat (t - start) \<le> 2 ^ 63"
  shows "time_is_before_jiffies t (start + m)"
proof -
  have shift: "start + m - t = m - (t - start)" by simp
  have "unat (m - (t - start)) = unat m + 2 ^ 64 - unat (t - start)"
    using assms(1) by (simp add: unat_sub_if_size word_size)
  then show ?thesis
    using assms(2) unfolding time_is_before_jiffies_def shift by simp
qed

section \<open>When the state changes\<close>

definition reported :: "'h cosm_hw_ops \<Rightarrow> cosm_device \<Rightarrow> 'h \<Rightarrow> mic_state \<Rightarrow> bool" where
  "reported ops d h st \<longleftrightarrow>
     (case st of
        MIC_STATE_ONLINE \<Rightarrow> received_online d
      | MIC_STATE_READY \<Rightarrow> op_detect_state ops h = MIC_STATE_READY
      | MIC_STATE_SHUTDOWN \<Rightarrow> op_detect_state ops h = MIC_STATE_SHUTDOWN
      | MIC_STATE_ONLINE_FIRMWARE \<Rightarrow> op_detect_state ops h = MIC_STATE_ONLINE_FIRMWARE
      | _ \<Rightarrow> True)"

definition state_edge :: "mic_state \<Rightarrow> mic_state \<Rightarrow> bool" where
  "state_edge st st' \<longleftrightarrow>
     (case st' of
        MIC_STATE_UNKNOWN \<Rightarrow> False
      | MIC_STATE_ERROR \<Rightarrow> True
      | MIC_STATE_RESETTING \<Rightarrow> True
      | MIC_STATE_SHUTTING_DOWN \<Rightarrow> True
      | MIC_STATE_BOOTING \<Rightarrow> st = MIC_STATE_READY
      | MIC_STATE_BOOTING_FIRMWARE \<Rightarrow> st = MIC_STATE_READY
      | MIC_STATE_READY \<Rightarrow> st = MIC_STATE_RESETTING
      | MIC_STATE_SHUTDOWN \<Rightarrow> st = MIC_STATE_SHUTTING_DOWN
      | MIC_STATE_ONLINE \<Rightarrow> st = MIC_STATE_BOOTING
      | MIC_STATE_ONLINE_FIRMWARE \<Rightarrow> st = MIC_STATE_BOOTING_FIRMWARE)"

lemma complete_reported:
  assumes "complete (cosm_commands c) = Some f" "f ops d h = (0, d1, h1, written)"
  shows "reported ops d h (target_of c)"
  using assms by (cases c) (auto simp: complete_defs cosm_command_zero_def reported_def split: if_splits prod.splits)

lemma poll_state:
  assumes "cosm_state_flow_poll ops t c start limit msg d h = Some (d', h', w)"
  shows "state d' = state d \<or> state d' = MIC_STATE_ERROR \<or>
         state d' = target_of c \<and> reported ops d h (target_of c)"
proof -
  obtain f rc d1 h1 written where f: "complete (cosm_commands c) = Some f"
      "f ops d h = (rc, d1, h1, written)"
    using assms by (auto simp: cosm_state_flow_poll_def Let_def split: option.splits prod.splits)
  obtain x where d1: "d1 = d\<lparr>config := (config d)\<lparr>execute_on_ready := x\<rparr>\<rparr>"
    using complete_frame [OF f] by blast
  then show ?thesis
    using assms complete_reported [OF f(1), of ops d h d1 h1 written]
    by (auto simp: cosm_state_flow_poll_def Let_def f cosm_command_exit_def split: if_splits)
qed

lemma start_edge:
  assumes "is_command_allowed st c \<or> aborting c" "temporal_of c \<noteq> MIC_STATE_UNKNOWN"
  shows "state_edge st (temporal_of c)"
  using assms by (cases c; cases st) (simp_all add: state_edge_def is_command_allowed_def)

lemma target_edge:
  assumes "c \<noteq> MIC_CMD_NONE" "temporal_of c \<noteq> MIC_STATE_UNKNOWN \<longrightarrow> st = temporal_of c"
  shows "state_edge st (target_of c)"
  using assms by (cases c) (simp_all add: state_edge_def)

lemma config_state:
  "boot_timeout_store v n d = (r, d') \<Longrightarrow> state d' = state d"
  "shutdown_timeout_store v n d = (r, d') \<Longrightarrow> state d' = state d"
  "execute_on_ready_store buf d = (r, d') \<Longrightarrow> state d' = state d"
  by (auto simp: boot_timeout_store_def shutdown_timeout_store_def execute_on_ready_store_def
      split: sum.splits if_splits)

lemma step_state:
  assumes "cosm_step ops mj s s'" "cosm_inv s" "state (dev s') \<noteq> state (dev s)"
  shows "state_edge (state (dev s)) (state (dev s')) \<and> reported ops (dev s) (hw s) (state (dev s'))"
  using assms
proof (induction rule: cosm_step.induct)
  case (step_enter s c d)
  with check_accepts(2) [OF step_enter(2)] show ?case by auto
next
  case (step_exec s c)
  then show ?case by (simp add: cosm_set_command_exec_def)
next
  case (step_start s d h w)
  let ?c = "current_command_id (dev s)"
  have ok: "is_command_allowed (state (dev s)) ?c \<or> aborting ?c"
    using step_start.hyps(1) step_start.prems(1) by (auto simp: cosm_inv_def work_ok_def)
  show ?case
  proof (cases rule: start_result [OF step_start(2) refl])
    case 1
    then show ?thesis by (simp add: state_edge_def reported_def)
  next
    case (2 msg)
    then have "state d = temporal_of ?c" "temporal_of ?c \<noteq> MIC_STATE_UNKNOWN"
      using step_start.prems(2) by (auto split: if_splits)
    with start_edge [OF ok] show ?thesis
      by (cases ?c) (simp_all add: reported_def)
  qed
next
  case (step_poll s c start limit msg d h w)
  have "c \<noteq> MIC_CMD_NONE" "temporal_of c \<noteq> MIC_STATE_UNKNOWN \<longrightarrow> state (dev s) = temporal_of c"
    using step_poll.hyps(1) step_poll.prems(1) by (auto simp: cosm_inv_def work_ok_def)
  with poll_state [OF step_poll(2)] target_edge [of c "state (dev s)"] step_poll.prems(2)
  show ?case by (auto simp: state_edge_def reported_def)
qed (auto dest: config_state)

lemma poll_defined:
  fixes ops :: "'h cosm_hw_ops"
  assumes "c \<noteq> MIC_CMD_NONE"
  obtains d' h' w where "cosm_state_flow_poll ops t c start limit msg d h = Some (d', h', w)"
proof -
  obtain f where "complete (cosm_commands c :: 'h cosm_command) = Some f"
    using complete_exists assms by blast
  then have "\<exists>r. cosm_state_flow_poll ops t c start limit msg d h = Some r"
    by (simp add: cosm_state_flow_poll_def cosm_command_exit_def Let_def case_prod_beta)
  with that show thesis by (metis prod_cases3)
qed

section \<open>A simulated card\<close>

text \<open>
  A hardware whose state is the state it would be detected in and whose operations take effect
  at once, for the instances below; a jiffy is a millisecond.
\<close>

definition sim_ops :: "mic_state cosm_hw_ops" where
  "sim_ops = \<lparr>op_boot_firmware = (\<lambda>h. (0, MIC_STATE_ONLINE_FIRMWARE)), op_boot = (\<lambda>h. (0, h)),
     op_reset = (\<lambda>h. (0, MIC_STATE_READY)), op_reset_warm = (\<lambda>h. (0, MIC_STATE_READY)),
     op_shutdown = (\<lambda>h. (0, MIC_STATE_SHUTDOWN)), op_reset_timeout = 60,
     op_boot_firmware_timeout = 30, op_detect_state = (\<lambda>h. h), op_cleanup = (\<lambda>h. h),
     op_dev_update = (\<lambda>h. (0, h)), op_max_supported_address = (\<lambda>h. 0xFFFFFFFF),
     op_scif_send = (\<lambda>m h. (16, h)), op_try_module_get = (\<lambda>h. True),
     op_intel_iommu_enabled = False, op_high_memory = 0x80000000\<rparr>"

definition sim_jiffies :: "u32 \<Rightarrow> u64" where
  "sim_jiffies ms = ucast ms"

definition sim_pending :: "mic_state cosm_sys" where
  "sim_pending = \<lparr>dev = cosm_set_command_exec MIC_CMD_RESET (cosm_probe_device True),
     work = Pending, phase = Waiting, hw = MIC_STATE_UNKNOWN, now = 0\<rparr>"

definition sim_polling :: "mic_state cosm_sys" where
  "sim_polling = sim_pending\<lparr>
     dev := cosm_switch_to_state True MIC_STATE_RESETTING None (dev sim_pending),
     hw := MIC_STATE_READY, work := Running MIC_CMD_RESET 0 120000 None\<rparr>"

definition sim_ready :: "mic_state cosm_sys" where
  "sim_ready = sim_polling\<lparr>
     dev := (cosm_switch_to_state True MIC_STATE_READY None (dev sim_polling))\<lparr>current_command_id := MIC_CMD_NONE\<rparr>,
     work := Idle, phase := Free\<rparr>"

lemmas sim_defs = sim_ops_def sim_jiffies_def sim_pending_def sim_polling_def sim_ready_def
  cosm_probe_sys_def cosm_probe_device_def cosm_set_command_exec_def cosm_lock_module_def
  cosm_command_zero_def

lemma sim_pending_reachable: "cosm_reachable sim_ops sim_jiffies sim_pending"
proof -
  let ?s0 = "cosm_probe_sys True MIC_STATE_UNKNOWN 0 :: mic_state cosm_sys"
  let ?s1 = "?s0\<lparr>phase := Cancelling MIC_CMD_RESET\<rparr>"
  have "cosm_reachable sim_ops sim_jiffies ?s0"
    using reach_probe [of sim_ops sim_jiffies MIC_STATE_UNKNOWN 0] by (simp add: sim_ops_def)
  moreover have "cosm_step sim_ops sim_jiffies ?s0 ?s1"
    using step_enter [where s = ?s0 and c = MIC_CMD_RESET and d = "dev ?s0" and ops = sim_ops and mj = sim_jiffies]
    by (simp add: sim_defs cosm_set_command_check_def is_command_already_executed_def
        is_command_allowed_def)
  ultimately have "cosm_reachable sim_ops sim_jiffies ?s1"
    by (rule reach_step)
  moreover have "cosm_step sim_ops sim_jiffies ?s1 sim_pending"
    using step_exec [where s = ?s1 and c = MIC_CMD_RESET and ops = sim_ops and mj = sim_jiffies] by (simp add: sim_defs)
  ultimately show ?thesis by (rule reach_step)
qed

lemma sim_start_step: "cosm_step sim_ops sim_jiffies sim_pending sim_polling"
proof -
  have "cosm_state_flow_start sim_ops sim_jiffies (now sim_pending) (dev sim_pending) (hw sim_pending) =
      (dev sim_polling, hw sim_polling, work sim_polling)"
    by (simp add: cosm_state_flow_start_def sim_defs cosm_reset_def
        cosm_stop_def command_timeout_def cosm_reset_timeout_def Let_def)
  from step_start [OF _ this] show ?thesis
    by (simp add: sim_defs)
qed

lemma sim_polling_reachable: "cosm_reachable sim_ops sim_jiffies sim_polling"
  by (rule reach_step [OF sim_pending_reachable sim_start_step])

lemma sim_ready_reachable: "cosm_reachable sim_ops sim_jiffies sim_ready"
proof -
  let ?s = "sim_ready\<lparr>phase := Waiting\<rparr>"
  have "cosm_state_flow_poll sim_ops (now sim_polling) MIC_CMD_RESET 0 120000 None (dev sim_polling)
      (hw sim_polling) = Some (dev ?s, hw ?s, work ?s)"
    by (simp add: cosm_state_flow_poll_def sim_defs cosm_reset_complete_def
        cosm_command_exit_def cosm_stop_def new_msg_def Let_def)
  from step_poll [OF _ this, where mj = sim_jiffies]
  have "cosm_step sim_ops sim_jiffies sim_polling ?s" by (simp add: sim_defs)
  from reach_step [OF sim_polling_reachable this] have "cosm_reachable sim_ops sim_jiffies ?s" .
  moreover have "cosm_step sim_ops sim_jiffies ?s sim_ready"
    using step_return [where s = ?s and ops = sim_ops and mj = sim_jiffies] by (simp add: sim_defs)
  ultimately show ?thesis by (rule reach_step)
qed

section \<open>Properties\<close>

text \<open>
  C4: The state of a card is truthful. Whenever any step of the system changes the state, the
  change is an edge of the documented graph (booting starts only from ready, ready is reached
  only from resetting, shutdown only from shutting down, online only from booting), and the new
  state has been reported: online only after the card's message since the command was accepted,
  ready, shutdown and online firmware only while the hardware is detected there.
\<close>

theorem cosm_state_truthful:
  assumes "cosm_reachable ops mj s" "cosm_step ops mj s s'" "state (dev s') \<noteq> state (dev s)"
  shows "state_edge (state (dev s)) (state (dev s')) \<and> reported ops (dev s) (hw s) (state (dev s'))"
  by (rule step_state [OF assms(2) cosm_inv_reachable [OF assms(1)] assms(3)])

theorem cosm_state_truthful_witness:
  "state_edge (state (dev sim_pending)) (state (dev sim_polling)) \<and>
   state (dev sim_polling) = MIC_STATE_RESETTING"
  using cosm_state_truthful [OF sim_pending_reachable sim_start_step]
  by (simp add: sim_defs)

text \<open>
  C13: No command is lost and no card is stuck. In every reachable state the work item only
  polls commands that have a completion routine; while no caller is cancelling a command, one is
  current exactly when the work item is queued or running, and no abort is pending; a
  transitional state (resetting, shutting down, booting) is shown only while a command is
  current; and the configured timeouts respect their minima.
\<close>

theorem cosm_invariant:
  assumes "cosm_reachable ops mj s"
  shows "(\<forall>c start limit msg. work s = Running c start limit msg \<longrightarrow>
            current_command_id (dev s) = c \<and>
            cosm_state_flow_poll ops t c start limit msg (dev s) (hw s) \<noteq> None) \<and>
         (phase s = Free \<or> phase s = Waiting \<longrightarrow> \<not> abort (dev s) \<and>
            (current_command_id (dev s) = MIC_CMD_NONE \<longleftrightarrow> work s = Idle)) \<and>
         (transitional (state (dev s)) \<longrightarrow> current_command_id (dev s) \<noteq> MIC_CMD_NONE) \<and>
         90 \<le> boot_timeout (config (dev s)) \<and> 60 \<le> shutdown_timeout (config (dev s))"
proof -
  have poll: "cosm_state_flow_poll ops t c start limit msg (dev s) (hw s) \<noteq> None"
    if "c \<noteq> MIC_CMD_NONE" for c start limit msg
    using poll_defined [OF that] by (metis option.distinct(1))
  show ?thesis
    using cosm_inv_reachable [OF assms] poll
    by (cases "work s") (auto simp: inv_defs split: set_phase.splits)
qed

theorem cosm_invariant_witness:
  "current_command_id (dev sim_polling) = MIC_CMD_RESET \<and> \<not> abort (dev sim_polling) \<and>
   cosm_state_flow_poll sim_ops 0 MIC_CMD_RESET 0 120000 None (dev sim_polling) (hw sim_polling) \<noteq> None"
  using cosm_invariant [OF sim_polling_reachable, of 0] by (simp add: sim_defs)

text \<open>
  C19: Every command ends. The work item has a limit of at most 180 seconds from its start;
  whatever the hardware, the card and the other threads did meanwhile, an iteration of the loop
  later than that leaves the loop. If no abort was requested the command is over, with the
  target state or the error state reached.
\<close>

theorem cosm_command_ends:
  assumes "cosm_reachable ops mj s" "work s = Running c start limit msg"
  shows "\<exists>T. 1 \<le> T \<and> T \<le> cosm_max_state_timeout \<and> limit = start + mj (T * 1000) \<and>
           (\<forall>t d h. unat (mj (T * 1000)) < unat (t - start) \<and> unat (t - start) \<le> 2 ^ 63 \<longrightarrow>
              (\<exists>d' h'. cosm_state_flow_poll ops t c start limit msg d h = Some (d', h', Idle) \<and>
                 (\<not> abort d \<longrightarrow> current_command_id d' = MIC_CMD_NONE \<and>
                    (state d' = target_of c \<or> state d' = MIC_STATE_ERROR))))"
proof -
  from running_limit [OF assms(1)] assms(2) obtain T
    where T: "1 \<le> T" "T \<le> cosm_max_state_timeout" "limit = start + mj (T * 1000)" by blast
  have c: "c \<noteq> MIC_CMD_NONE"
    using cosm_inv_reachable [OF assms(1)] assms(2) by (simp add: cosm_inv_def work_ok_def)
  have "\<exists>d' h'. cosm_state_flow_poll ops t c start limit msg d h = Some (d', h', Idle) \<and>
          (\<not> abort d \<longrightarrow> current_command_id d' = MIC_CMD_NONE \<and>
             (state d' = target_of c \<or> state d' = MIC_STATE_ERROR))"
    if "unat (mj (T * 1000)) < unat (t - start)" "unat (t - start) \<le> 2 ^ 63" for t d h
  proof -
    have late: "time_is_before_jiffies t limit"
      unfolding T(3) by (rule elapsed_past_limit [OF that])
    obtain d' h' w where p: "cosm_state_flow_poll ops t c start limit msg d h = Some (d', h', w)"
      by (rule poll_defined [OF c])
    show ?thesis
      by (cases rule: poll_result [OF p]) (use late p in auto)
  qed
  with T show ?thesis by blast
qed

theorem cosm_command_ends_witness:
  "\<exists>T. 1 \<le> T \<and> T \<le> cosm_max_state_timeout \<and> (120000 :: u64) = 0 + sim_jiffies (T * 1000)"
  using cosm_command_ends [OF sim_polling_reachable, of MIC_CMD_RESET 0 120000 None]
  by (auto simp: sim_polling_def)

lemma store_locked:
  "boot_timeout_store v n d = (r, d') \<or> shutdown_timeout_store v n d = (r, d') \<or>
   execute_on_ready_store buf d = (r, d') \<Longrightarrow> is_module_locked d' = is_module_locked d \<and> state d' = state d"
  by (auto simp: boot_timeout_store_def shutdown_timeout_store_def execute_on_ready_store_def
      split: sum.splits if_splits)

definition unlocked_state :: "mic_state \<Rightarrow> bool" where
  "unlocked_state st \<longleftrightarrow> st = MIC_STATE_READY \<or> st = MIC_STATE_SHUTDOWN \<or> st = MIC_STATE_ERROR"

definition lock_ok :: "cosm_device \<Rightarrow> bool" where
  "lock_ok d \<longleftrightarrow> is_module_locked d = (\<not> unlocked_state (state d))"

lemma unlocked_error: "unlocked_state MIC_STATE_ERROR"
  by (simp add: unlocked_state_def)

lemma lock_ok_step:
  assumes "cosm_step ops mj s s'" "\<And>h. op_try_module_get ops h" "lock_ok (dev s)"
  shows "lock_ok (dev s')"
  using assms(1,3)
proof (induction rule: cosm_step.induct)
  case (step_enter s c d)
  with check_accepts(2) [OF step_enter(2)] show ?case by (auto simp: lock_ok_def)
next
  case (step_exec s c)
  then show ?case by (simp add: lock_ok_def cosm_set_command_exec_def)
next
  case (step_start s d h w)
  show ?case
  proof (cases rule: start_result [OF step_start(2) refl])
    case 1
    then show ?thesis by (simp add: lock_ok_def unlocked_error)
  next
    case (2 msg)
    with step_start(3) assms(2) show ?thesis
      by (simp add: lock_ok_def unlocked_state_def [symmetric])
  qed
next
  case (step_poll s c start limit msg d h w)
  show ?case
  proof (cases rule: poll_result [OF step_poll(2)])
    case 1
    then have "is_module_locked d = (if unlocked_state (state d) then False else True)"
      using assms(2) by (simp only: unlocked_state_def simp_thms)
    then show ?thesis by (simp add: lock_ok_def)
  qed (use step_poll(3) in \<open>simp_all add: lock_ok_def\<close>)
next
  case (step_boot_timeout v n s r d)
  with store_locked [of v n "dev s" r d] show ?case by (simp add: lock_ok_def)
next
  case (step_shutdown_timeout v n s r d)
  with store_locked [of v n "dev s" r d] show ?case by (simp add: lock_ok_def)
next
  case (step_on_ready buf s r d)
  with store_locked [of _ _ "dev s" r d buf] show ?case by (simp add: lock_ok_def)
qed (simp_all add: lock_ok_def)

text \<open>
  C21: The module cannot be unloaded while a card is in use. As long as \<open>try_module_get\<close>
  succeeds, in every reachable state the module reference is held exactly when the card is
  neither ready, nor shut down, nor in the error state.
\<close>

theorem cosm_module_lock:
  assumes "cosm_reachable ops mj s" "\<And>h. op_try_module_get ops h"
  shows "is_module_locked (dev s) =
    (state (dev s) \<notin> {MIC_STATE_READY, MIC_STATE_SHUTDOWN, MIC_STATE_ERROR})"
proof -
  have "lock_ok (dev s)"
    using assms
  proof (induction rule: cosm_reachable.induct)
    case (reach_probe h t)
    then show ?case
      by (simp add: lock_ok_def unlocked_state_def cosm_probe_sys_def cosm_probe_device_def cosm_lock_module_def)
  next
    case (reach_step s s')
    then show ?case by (blast intro: lock_ok_step)
  qed
  then show ?thesis by (simp add: lock_ok_def unlocked_state_def)
qed

theorem cosm_module_lock_witness:
  "is_module_locked (dev sim_polling) \<and> \<not> is_module_locked (dev sim_ready)"
  using cosm_module_lock [OF sim_polling_reachable] cosm_module_lock [OF sim_ready_reachable]
  by (simp add: sim_defs)



text \<open>
  C22: The names of commands. Writing the name of a command, with or without a newline, is
  understood as that command if it is not hidden; whatever is written, a hidden command (one
  reserved to the card or to the driver) is never returned, and any other text is \<open>-EINVAL\<close>.
\<close>

theorem cosm_get_command_id_roundtrip:
  "(cosm_get_command_id s = Inr c \<longleftrightarrow>
     \<not> hidden (cosm_commands c :: unit cosm_command) \<and>
     (s = cmd_string (cosm_commands c :: unit cosm_command) \<or>
      s = cmd_string (cosm_commands c :: unit cosm_command) @ [CHR 0x0A])) \<and>
   (cosm_get_command_id s = Inl e \<longrightarrow> e = - EINVAL)"
  by (cases c) (auto simp: cosm_get_command_id_def mic_commands_def sysfs_streq_def cosm_command_zero_def)

theorem cosm_get_command_id_roundtrip_witness:
  "cosm_get_command_id (''boot'' @ [CHR 0x0A]) = Inr MIC_CMD_BOOT \<and>
   cosm_get_command_id ''handle_hang'' = Inl (- EINVAL)"
proof -
  have "cosm_get_command_id (''boot'' @ [CHR 0x0A]) = Inr MIC_CMD_BOOT"
    using cosm_get_command_id_roundtrip [of "''boot'' @ [CHR 0x0A]" MIC_CMD_BOOT 0]
    by (simp add: cosm_command_zero_def)
  moreover have "cosm_get_command_id ''handle_hang'' = Inl (- EINVAL)"
    by (simp add: cosm_get_command_id_def mic_commands_def sysfs_streq_def cosm_command_zero_def)
  ultimately show ?thesis by blast
qed

section \<open>Where the code departs from its intent\<close>

text \<open>
  \<open>shutdown_timeout_store\<close> checks only the minimum, and \<open>cosm_reset_timeout\<close> adds the two
  timeouts in \<open>unsigned int\<close>: a large shutdown timeout makes the sum wrap, and a reset of an
  online card is then given one second.
\<close>

lemma reset_timeout_wraps:
  assumes "op_reset_timeout ops = 60"
  shows "\<exists>v d'. shutdown_timeout_store (Inr v) n d = (n, d') \<and> command_timeout ops d' MIC_CMD_RESET = 1"
  by (rule exI [of _ "- 59"], rule exI [of _ "d\<lparr>config := (config d)\<lparr>shutdown_timeout := - 59\<rparr>\<rparr>"])
     (simp add: shutdown_timeout_store_def command_timeout_def cosm_command_zero_def
        cosm_reset_timeout_def assms)

text \<open>A state byte of the card above the last state is used as an index before it is checked.\<close>

lemma status_byte_unchecked: "cosm_status_handler b = Bad_index \<longleftrightarrow> 10 \<le> unat b"
proof -
  have "cosm_status_handler b \<noteq> Bad_index" if "mic_state_of b = Some st" for st
    using that by (cases st) (simp_all add: cosm_status_handler_def)
  then show ?thesis
    by (auto simp: cosm_status_handler_def mic_state_of_def mic_states_def split: option.splits)
qed

text \<open>
  \<open>cosm_scif_recv\<close> looks at the state byte of every message: a heartbeat whose payload starts
  with the byte 1, which carries no state, closes the connection.
\<close>

lemma heartbeat_closes: "cosm_scif_recv ((3, 1) # msgs) = ([], 1)"
  by simp

end
