(* ===== verification/Scif_Rb.thy ===== *)
theory Scif_Rb
  imports Prelude
begin

text \<open>
  The lock-free byte ring of \<open>scif_rb.c\<close>. Each side of a connection keeps its own
  \<open>struct scif_rb\<close> (cached offsets); the buffer and the two published offsets that its
  pointers \<open>rb_base\<close>, \<open>read_ptr\<close> and \<open>write_ptr\<close> designate are shared memory, the record
  \<open>rb_mem\<close>. Offsets and sizes are 32-bit words and wrap. A copy outside the buffer is
  \<open>None\<close>.

  The second half views a producer and a consumer over one memory as a bounded FIFO with
  an uncommitted tail, states that contract as the locale \<open>bounded_fifo\<close>, proves what any
  client sequence of operations delivers, and interprets it on the ring.
\<close>

section \<open>The operations of the source\<close>

record scif_rb =
  rb_size :: u32
  current_read_offset :: u32
  current_write_offset :: u32

record rb_mem =
  rb_base :: "u8 list"
  read_ptr :: u32
  write_ptr :: u32

text \<open>The macros \<open>CIRC_CNT\<close> and \<open>CIRC_SPACE\<close> of the kernel, as the two inline functions use them.\<close>

definition scif_rb_ring_cnt :: "u32 \<Rightarrow> u32 \<Rightarrow> u32 \<Rightarrow> u32" where
  "scif_rb_ring_cnt head tail sz = (head - tail) AND (sz - 1)"

definition scif_rb_ring_space :: "u32 \<Rightarrow> u32 \<Rightarrow> u32 \<Rightarrow> u32" where
  "scif_rb_ring_space head tail sz = (tail - (head + 1)) AND (sz - 1)"

definition scif_rb_init :: "rb_mem \<Rightarrow> u8 \<Rightarrow> scif_rb" where
  "scif_rb_init m sz =
     \<lparr>rb_size = push_bit (unat sz) 1,
      current_read_offset = read_ptr m,
      current_write_offset = write_ptr m\<rparr>"

definition memcpy_torb :: "scif_rb \<Rightarrow> u8 list \<Rightarrow> nat \<Rightarrow> u8 list \<Rightarrow> u32 \<Rightarrow> u8 list option" where
  "memcpy_torb rb base header msg sz =
     (if header + unat sz \<ge> unat (rb_size rb) then
        (let size1 = (word_of_int (int (unat (rb_size rb)) - int header) :: u32);
             size2 = sz - size1
         in case memcpy_toio base header msg (unat size1) of
              None \<Rightarrow> None
            | Some base' \<Rightarrow> memcpy_toio base' 0 (drop (unat size1) msg) (unat size2))
      else memcpy_toio base header msg (unat sz))"

definition memcpy_fromrb :: "scif_rb \<Rightarrow> u8 list \<Rightarrow> nat \<Rightarrow> u32 \<Rightarrow> u8 list option" where
  "memcpy_fromrb rb base header sz =
     (if header + unat sz \<ge> unat (rb_size rb) then
        (let size1 = (word_of_int (int (unat (rb_size rb)) - int header) :: u32);
             size2 = sz - size1
         in case memcpy_fromio base header (unat size1) of
              None \<Rightarrow> None
            | Some part1 \<Rightarrow>
                (case memcpy_fromio base 0 (unat size2) of
                   None \<Rightarrow> None
                 | Some part2 \<Rightarrow> Some (part1 @ part2)))
      else memcpy_fromio base header (unat sz))"

definition scif_rb_space :: "scif_rb \<Rightarrow> rb_mem \<Rightarrow> u32" where
  "scif_rb_space rb m =
     scif_rb_ring_space (current_write_offset rb) (read_ptr m) (rb_size rb)"

definition scif_rb_write :: "scif_rb \<Rightarrow> rb_mem \<Rightarrow> u8 list \<Rightarrow> u32 \<Rightarrow> (int \<times> scif_rb \<times> rb_mem) option" where
  "scif_rb_write rb m msg sz =
     (if scif_rb_space rb m < sz then Some (- ENOMEM, rb, m)
      else case memcpy_torb rb (rb_base m) (unat (current_write_offset rb)) msg sz of
             None \<Rightarrow> None
           | Some base' \<Rightarrow>
               Some (0, rb\<lparr>current_write_offset :=
                             (current_write_offset rb + sz) AND (rb_size rb - 1)\<rparr>,
                     m\<lparr>rb_base := base'\<rparr>))"

definition scif_rb_commit :: "scif_rb \<Rightarrow> rb_mem \<Rightarrow> rb_mem" where
  "scif_rb_commit rb m = m\<lparr>write_ptr := current_write_offset rb\<rparr>"

definition scif_rb_count :: "scif_rb \<Rightarrow> rb_mem \<Rightarrow> u32" where
  "scif_rb_count rb m =
     scif_rb_ring_cnt (write_ptr m) (current_read_offset rb) (rb_size rb)"

text \<open>\<open>NULL\<close> is \<open>None\<close>; otherwise the offset of the message in the buffer.\<close>

definition scif_rb_get :: "scif_rb \<Rightarrow> rb_mem \<Rightarrow> u32 \<Rightarrow> nat option" where
  "scif_rb_get rb m sz =
     (if scif_rb_count rb m \<ge> sz then Some (unat (current_read_offset rb)) else None)"

definition scif_rb_get_next :: "scif_rb \<Rightarrow> rb_mem \<Rightarrow> u32 \<Rightarrow> (u32 \<times> u8 list \<times> scif_rb) option" where
  "scif_rb_get_next rb m sz =
     (case scif_rb_get rb m sz of
        None \<Rightarrow> Some (0, [], rb)
      | Some header \<Rightarrow>
          (let next_cmd_offset = (current_read_offset rb + sz) AND (rb_size rb - 1);
               rb' = rb\<lparr>current_read_offset := next_cmd_offset\<rparr>
           in case memcpy_fromrb rb' (rb_base m) header sz of
                None \<Rightarrow> None
              | Some msg \<Rightarrow> Some (sz, msg, rb')))"

definition scif_rb_update_read_ptr :: "scif_rb \<Rightarrow> rb_mem \<Rightarrow> rb_mem" where
  "scif_rb_update_read_ptr rb m = m\<lparr>read_ptr := current_read_offset rb\<rparr>"

section \<open>Distances and slices on a ring\<close>

definition ring_dist :: "nat \<Rightarrow> nat \<Rightarrow> nat \<Rightarrow> nat" where
  "ring_dist N a b = (b + N - a) mod N"

definition ring_slice :: "u8 list \<Rightarrow> nat \<Rightarrow> nat \<Rightarrow> u8 list" where
  "ring_slice base s n = map (\<lambda>i. base ! ((s + i) mod length base)) [0..<n]"

lemma length_ring_slice [simp]: "length (ring_slice base s n) = n"
  by (simp add: ring_slice_def)

lemma ring_slice_append:
  "ring_slice base s (m + n) = ring_slice base s m @ ring_slice base ((s + m) mod length base) n"
  by (rule nth_equalityI) (auto simp: ring_slice_def nth_append mod_add_left_eq add.assoc)

lemma ring_dist_less [simp]: "0 < N \<Longrightarrow> ring_dist N a b < N"
  by (simp add: ring_dist_def)

lemma ring_dist_refl [simp]: "a < N \<Longrightarrow> ring_dist N a a = 0"
  by (simp add: ring_dist_def)

lemma ring_dist_self [simp]: "a < N \<Longrightarrow> b < N \<Longrightarrow> (a + ring_dist N a b) mod N = b"
  by (simp add: ring_dist_def mod_add_right_eq)

text \<open>Distances between points given relative to a common origin \<open>s\<close>.\<close>

lemma ring_dist_rel:
  assumes "0 < N" "x \<le> y" "y < x + N"
  shows "ring_dist N ((s + x) mod N) ((s + y) mod N) = y - x"
proof -
  let ?a = "(s + x) mod N"
  obtain d where d: "y = x + d" and "d < N" using assms by (auto simp: le_iff_add)
  have "?a < N" using assms(1) by simp
  have "((s + y) mod N + N - ?a) mod N = ((s + y) mod N + (N - ?a)) mod N"
    using \<open>?a < N\<close> by simp
  also have "\<dots> = (s + y + (N - ?a)) mod N" by (simp add: mod_add_left_eq)
  also have "\<dots> = ((s + x) + (N - ?a) + d) mod N" using d by (simp add: algebra_simps)
  also have "\<dots> = (?a + (N - ?a) + d) mod N"
    by (metis (no_types, lifting) mod_add_left_eq)
  also have "\<dots> = d" using \<open>?a < N\<close> \<open>d < N\<close> by simp
  finally show ?thesis using d by (simp add: ring_dist_def)
qed

lemma ring_dist_wrap:
  assumes "0 < N" "y < x" "x \<le> y + N"
  shows "ring_dist N ((s + x) mod N) ((s + y) mod N) = (if x = y + N then 0 else y + N - x)"
proof -
  have "(s + y) mod N = (s + (y + N)) mod N" by (metis add.assoc mod_add_self2)
  then show ?thesis using ring_dist_rel [of N x "y + N" s] assms by auto
qed

section \<open>The two-part copies\<close>

lemma ring_dist_plain: "a \<le> j \<Longrightarrow> j < N \<Longrightarrow> ring_dist N a j = j - a"
  by (simp add: ring_dist_def mod_if)

lemma ring_dist_before: "j < a \<Longrightarrow> a < N \<Longrightarrow> ring_dist N a j = j + N - a"
  by (simp add: ring_dist_def)

lemma size1_word:
  assumes "header < unat (rb_size rb)"
  shows "unat (word_of_int (int (unat (rb_size rb)) - int header) :: u32) = unat (rb_size rb) - header"
proof -
  have "(word_of_int (int (unat (rb_size rb)) - int header) :: u32) = rb_size rb - of_nat header"
    by simp
  moreover have "unat (of_nat header :: u32) = header"
    using assms unsigned_less [of "rb_size rb", where 'a = nat]
    by (simp add: unsigned_of_nat take_bit_nat_eq_self)
  moreover have "(of_nat header :: u32) \<le> rb_size rb"
    using assms \<open>unat (of_nat header :: u32) = header\<close> by (simp add: word_le_nat_alt)
  ultimately show ?thesis by (simp add: unat_sub)
qed

lemma size2_word:
  fixes s :: u32
  assumes "header < unat (rb_size rb)" and "unat (rb_size rb) \<le> header + unat s"
  shows "unat (s - word_of_int (int (unat (rb_size rb)) - int header)) = unat s - (unat (rb_size rb) - header)"
proof -
  let ?s1 = "word_of_int (int (unat (rb_size rb)) - int header) :: u32"
  have s1: "unat ?s1 = unat (rb_size rb) - header" using assms(1) by (rule size1_word)
  then have "?s1 \<le> s" using assms(2) by (simp only: word_le_nat_alt)
  then show ?thesis using s1 by (simp only: unat_sub)
qed

lemma memcpy_torb_spec:
  assumes N: "length base = unat (rb_size rb)" and h: "header < length base"
    and sz: "unat s \<le> length base" and msg: "unat s \<le> length msg"
  obtains base' where "memcpy_torb rb base header msg s = Some base'" "length base' = length base"
    "\<And>j. j < length base \<Longrightarrow> base' ! j =
        (if ring_dist (length base) header j < unat s then msg ! ring_dist (length base) header j
         else base ! j)"
proof (cases "header + unat s \<ge> unat (rb_size rb)")
  case False
  then have le: "header + unat s < length base" using N by simp
  obtain b where b: "memcpy_toio base header msg (unat s) = Some b" "length b = length base"
    "\<And>j. j < length base \<Longrightarrow> b ! j = (if header \<le> j \<and> j < header + unat s then msg ! (j - header) else base ! j)"
    using memcpy_toio_ok [of header "unat s" base msg] le msg by (metis less_imp_le)
  show ?thesis
  proof (rule that [of b])
    fix j assume j: "j < length base"
    then show "b ! j = (if ring_dist (length base) header j < unat s
        then msg ! ring_dist (length base) header j else base ! j)"
      using b(3) [OF j] le
      by (cases "header \<le> j") (auto simp: ring_dist_plain ring_dist_before)
  qed (use b False in \<open>simp_all add: memcpy_torb_def\<close>)
next
  case True
  let ?a = "length base - header"
  have s1: "unat (word_of_int (int (unat (rb_size rb)) - int header) :: u32) = ?a"
    using size1_word [of header rb] h N by simp
  have s2: "unat (s - word_of_int (int (unat (rb_size rb)) - int header)) = unat s - ?a"
    using size2_word [of header rb s] h N True by simp
  have a: "?a \<le> unat s" using True N by simp
  obtain b1 where b1: "memcpy_toio base header msg ?a = Some b1" "length b1 = length base"
    "\<And>j. j < length base \<Longrightarrow> b1 ! j = (if header \<le> j \<and> j < header + ?a then msg ! (j - header) else base ! j)"
    using memcpy_toio_ok [of header ?a base msg] h a msg by auto
  have p: "0 + (unat s - ?a) \<le> length b1" "unat s - ?a \<le> length (drop ?a msg)"
    using msg sz b1(2) by simp_all
  obtain b2 where b2: "memcpy_toio b1 0 (drop ?a msg) (unat s - ?a) = Some b2" "length b2 = length b1"
    "\<And>j. j < length b1 \<Longrightarrow> b2 ! j = (if 0 \<le> j \<and> j < 0 + (unat s - ?a) then drop ?a msg ! (j - 0) else b1 ! j)"
    using memcpy_toio_ok [OF p] by blast
  show ?thesis
  proof (rule that [of b2])
    show "memcpy_torb rb base header msg s = Some b2"
      using True s1 s2 b1(1) b2(1) by (simp add: memcpy_torb_def Let_def)
    show "length b2 = length base" using b1 b2 by simp
    fix j assume j: "j < length base"
    show "b2 ! j = (if ring_dist (length base) header j < unat s
        then msg ! ring_dist (length base) header j else base ! j)"
      using b1(2) b1(3) [OF j] b2(3) [of j] h j a msg sz
      by (cases "header \<le> j") (auto simp: ring_dist_plain ring_dist_before add.commute)
  qed
qed

lemma memcpy_fromrb_spec:
  assumes N: "length base = unat (rb_size rb)" and h: "header < length base"
    and sz: "unat s \<le> length base"
  shows "memcpy_fromrb rb base header s = Some (ring_slice base header (unat s))"
proof (cases "header + unat s \<ge> unat (rb_size rb)")
  case False
  then have le: "header + unat s < length base" using N by simp
  have "take (unat s) (drop header base) = ring_slice base header (unat s)"
    using le by (intro nth_equalityI) (auto simp: ring_slice_def)
  then show ?thesis using False le by (simp add: memcpy_fromrb_def memcpy_fromio_def)
next
  case True
  let ?a = "length base - header"
  have s1: "unat (word_of_int (int (unat (rb_size rb)) - int header) :: u32) = ?a"
    using size1_word [of header rb] h N by simp
  have s2: "unat (s - word_of_int (int (unat (rb_size rb)) - int header)) = unat s - ?a"
    using size2_word [of header rb s] h N True by simp
  have a: "?a \<le> unat s" using True N by simp
  have "take ?a (drop header base) @ take (unat s - ?a) base = ring_slice base header (unat s)"
    using h a sz
    by (intro nth_equalityI) (auto simp: ring_slice_def nth_append mod_if add.commute)
  then show ?thesis
    using True s1 s2 h a sz N by (simp add: memcpy_fromrb_def memcpy_fromio_def Let_def)
qed

section \<open>A producer and a consumer over one memory\<close>

record rb_chan =
  mem :: rb_mem
  tx :: scif_rb
  rx :: scif_rb

definition chan_size :: "rb_chan \<Rightarrow> nat" where
  "chan_size c = length (rb_base (mem c))"

definition held :: "rb_chan \<Rightarrow> nat" where
  "held c = ring_dist (chan_size c) (unat (read_ptr (mem c))) (unat (current_read_offset (rx c)))"

definition unread_len :: "rb_chan \<Rightarrow> nat" where
  "unread_len c = ring_dist (chan_size c) (unat (current_read_offset (rx c))) (unat (write_ptr (mem c)))"

definition pending_len :: "rb_chan \<Rightarrow> nat" where
  "pending_len c = ring_dist (chan_size c) (unat (write_ptr (mem c))) (unat (current_write_offset (tx c)))"

definition unread :: "rb_chan \<Rightarrow> u8 list" where
  "unread c = ring_slice (rb_base (mem c)) (unat (current_read_offset (rx c))) (unread_len c)"

definition pending :: "rb_chan \<Rightarrow> u8 list" where
  "pending c = ring_slice (rb_base (mem c)) (unat (write_ptr (mem c))) (pending_len c)"

definition chan_inv :: "nat \<Rightarrow> rb_chan \<Rightarrow> bool" where
  "chan_inv k c \<longleftrightarrow> k < 32 \<and> chan_size c = 2 ^ k \<and> rb_size (tx c) = 2 ^ k \<and> rb_size (rx c) = 2 ^ k \<and>
     unat (read_ptr (mem c)) < 2 ^ k \<and> unat (write_ptr (mem c)) < 2 ^ k \<and>
     unat (current_read_offset (rx c)) < 2 ^ k \<and> unat (current_write_offset (tx c)) < 2 ^ k \<and>
     held c + unread_len c + pending_len c < 2 ^ k"

lemmas chan_lens = held_def unread_len_def pending_len_def

text \<open>The four offsets, relative to the published read offset.\<close>

lemma chan_offsets:
  assumes "chan_inv k c"
  shows "unat (current_read_offset (rx c)) = (unat (read_ptr (mem c)) + held c) mod 2 ^ k"
    and "unat (write_ptr (mem c)) = (unat (read_ptr (mem c)) + (held c + unread_len c)) mod 2 ^ k"
    and "unat (current_write_offset (tx c)) =
           (unat (read_ptr (mem c)) + (held c + unread_len c + pending_len c)) mod 2 ^ k"
proof -
  let ?N = "(2::nat) ^ k" and ?r = "unat (read_ptr (mem c))"
  note inv = assms [unfolded chan_inv_def]
  have N: "chan_size c = ?N" using inv by simp
  show 1: "unat (current_read_offset (rx c)) = (?r + held c) mod ?N"
    using inv by (simp add: held_def N)
  show 2: "unat (write_ptr (mem c)) = (?r + (held c + unread_len c)) mod ?N"
    using ring_dist_self [of "unat (current_read_offset (rx c))" ?N "unat (write_ptr (mem c))"] inv 1
    by (simp add: unread_len_def N mod_add_left_eq add.assoc)
  show "unat (current_write_offset (tx c)) = (?r + (held c + unread_len c + pending_len c)) mod ?N"
    using ring_dist_self [of "unat (write_ptr (mem c))" ?N "unat (current_write_offset (tx c))"] inv 2
    by (simp add: pending_len_def N mod_add_left_eq add.assoc)
qed

lemma chan_size_word: "chan_inv k c \<Longrightarrow> unat (rb_size (tx c)) = 2 ^ k \<and> unat (rb_size (rx c)) = 2 ^ k"
  by (simp add: chan_inv_def unat_two_pow)

text \<open>What the two queries of the source compute.\<close>

lemma scif_rb_space_chan:
  assumes "chan_inv k c"
  shows "unat (scif_rb_space (tx c) (mem c)) = 2 ^ k - 1 - (held c + unread_len c + pending_len c)"
proof -
  let ?N = "(2::nat) ^ k" and ?r = "unat (read_ptr (mem c))"
  let ?d = "held c + unread_len c + pending_len c"
  note inv = assms [unfolded chan_inv_def]
  have k: "k < 32" and r: "?r < ?N" and d: "?d < ?N" using inv by auto
  have "unat (current_write_offset (tx c) + 1) mod ?N = (unat (current_write_offset (tx c)) + 1) mod ?N"
    using two_pow_le_word32 [OF k] by (simp add: unat_word_ariths mod_mod_cancel)
  also have "\<dots> = (?r + Suc ?d) mod ?N"
    by (simp add: chan_offsets(3) [OF assms] mod_Suc_eq)
  finally have "unat (scif_rb_space (tx c) (mem c)) = ring_dist ?N ((?r + Suc ?d) mod ?N) ((?r + ?N) mod ?N)"
    using inv r unat_sub_mask [OF k, of "read_ptr (mem c)" "current_write_offset (tx c) + 1"]
    by (simp add: scif_rb_space_def scif_rb_ring_space_def ring_dist_def)
  also have "\<dots> = ?N - Suc ?d" using d by (intro ring_dist_rel) auto
  finally show ?thesis by simp
qed

lemma scif_rb_count_chan:
  assumes "chan_inv k c"
  shows "unat (scif_rb_count (rx c) (mem c)) = unread_len c"
  using assms unat_sub_mask [of k "write_ptr (mem c)" "current_read_offset (rx c)"]
  by (simp add: chan_inv_def scif_rb_count_def scif_rb_ring_cnt_def unread_len_def ring_dist_def)

section \<open>Each operation on the channel\<close>

lemma chan_size_update [simp]:
  "chan_size (c\<lparr>tx := t\<rparr>) = chan_size c" "chan_size (c\<lparr>rx := r\<rparr>) = chan_size c"
  by (simp_all add: chan_size_def)

lemma ring_slice_cong:
  assumes "length b' = length b" and "\<And>i. i < n \<Longrightarrow> b' ! ((s + i) mod length b) = b ! ((s + i) mod length b)"
  shows "ring_slice b' s n = ring_slice b s n"
  using assms by (simp add: ring_slice_def)

lemma ring_slice_written:
  assumes "length b' = length b" "a < length b" "n \<le> length b" "n \<le> length msg"
    and "\<And>j. j < length b \<Longrightarrow> b' ! j =
           (if ring_dist (length b) a j < n then msg ! ring_dist (length b) a j else b ! j)"
  shows "ring_slice b' a n = take n msg"
proof (rule nth_equalityI)
  show "length (ring_slice b' a n) = length (take n msg)" using assms by simp
  fix i assume "i < length (ring_slice b' a n)"
  then have i: "i < n" by simp
  have "b \<noteq> []" using assms(2) by auto
  then have b: "(a + i) mod length b < length b" by simp
  have "ring_dist (length b) a ((a + i) mod length b) = i"
    using \<open>b \<noteq> []\<close> ring_dist_rel [of "length b" 0 i a] assms(2,3) i by simp
  then show "ring_slice b' a n ! i = take n msg ! i"
    using assms(1) assms(5) [OF b] i by (simp add: ring_slice_def)
qed

text \<open>The channel after a write of \<open>sz\<close> bytes that left the buffer \<open>b'\<close>.\<close>

definition chan_written :: "rb_chan \<Rightarrow> u8 list \<Rightarrow> u32 \<Rightarrow> rb_chan" where
  "chan_written c b' sz =
     c\<lparr>tx := (tx c)\<lparr>current_write_offset := (current_write_offset (tx c) + sz) AND (rb_size (tx c) - 1)\<rparr>,
       mem := (mem c)\<lparr>rb_base := b'\<rparr>\<rparr>"

lemma chan_written_lens:
  assumes inv: "chan_inv k c" and room: "held c + unread_len c + pending_len c + unat sz < 2 ^ k"
    and len: "length b' = length (rb_base (mem c))"
  shows "held (chan_written c b' sz) = held c" "unread_len (chan_written c b' sz) = unread_len c"
    "pending_len (chan_written c b' sz) = pending_len c + unat sz" "chan_inv k (chan_written c b' sz)"
proof -
  let ?N = "(2::nat) ^ k" and ?r = "unat (read_ptr (mem c))" and ?c = "chan_written c b' sz"
  let ?d = "held c + unread_len c + pending_len c"
  note inv' = inv [unfolded chan_inv_def chan_size_def]
  have w': "unat (current_write_offset (tx ?c)) = (?r + (?d + unat sz)) mod ?N"
    using unat_add_mask [of k "current_write_offset (tx c)" sz] inv'
    by (simp add: chan_written_def chan_offsets(3) [OF inv] mod_add_left_eq add.assoc)
  show 1: "held ?c = held c" and 2: "unread_len ?c = unread_len c"
    by (simp_all add: chan_lens chan_size_def chan_written_def len)
  show 3: "pending_len ?c = pending_len c + unat sz"
    using ring_dist_rel [of ?N "held c + unread_len c" "?d + unat sz" ?r] room w' inv'
      chan_offsets(2) [OF inv]
    by (simp add: pending_len_def chan_size_def chan_written_def len)
  show "chan_inv k ?c"
    using inv' w' 1 2 3 room len
    by (simp add: chan_inv_def chan_size_def) (simp add: chan_written_def)
qed

lemma chan_written_keeps:
  assumes inv: "chan_inv k c" and room: "held c + unread_len c + pending_len c + unat sz < 2 ^ k"
    and b': "\<And>j. j < length (rb_base (mem c)) \<Longrightarrow> b' ! j =
        (if ring_dist (length (rb_base (mem c))) (unat (current_write_offset (tx c))) j < unat sz
         then msg ! ring_dist (length (rb_base (mem c))) (unat (current_write_offset (tx c))) j
         else rb_base (mem c) ! j)"
    and y: "x + y < held c + unread_len c + pending_len c"
    and s: "s = (unat (read_ptr (mem c)) + x) mod 2 ^ k"
  shows "b' ! ((s + y) mod length (rb_base (mem c))) = rb_base (mem c) ! ((s + y) mod length (rb_base (mem c)))"
proof -
  let ?N = "(2::nat) ^ k" and ?d = "held c + unread_len c + pending_len c"
  let ?r = "unat (read_ptr (mem c))"
  have N: "length (rb_base (mem c)) = ?N" using inv by (simp add: chan_inv_def chan_size_def)
  have "(s + y) mod ?N = (?r + (x + y)) mod ?N" by (simp add: s mod_add_left_eq add.assoc)
  moreover have "ring_dist ?N ((?r + ?d) mod ?N) ((?r + (x + y)) mod ?N) = x + y + ?N - ?d"
    using ring_dist_wrap [of ?N "x + y" ?d ?r] y room by auto
  ultimately show ?thesis
    using b' [of "(s + y) mod ?N"] y room N by (auto simp: chan_offsets(3) [OF inv])
qed

lemma scif_rb_write_full:
  "chan_inv k c \<Longrightarrow> 2 ^ k - 1 - (held c + unread_len c + pending_len c) < unat sz \<Longrightarrow>
   scif_rb_write (tx c) (mem c) msg sz = Some (- ENOMEM, tx c, mem c)"
  by (simp add: scif_rb_write_def word_less_nat_alt scif_rb_space_chan)

lemma scif_rb_write_chan:
  assumes inv: "chan_inv k c" and room: "held c + unread_len c + pending_len c + unat sz < 2 ^ k"
    and msg: "unat sz \<le> length msg"
  obtains tx' mem' where "scif_rb_write (tx c) (mem c) msg sz = Some (0, tx', mem')"
    and "chan_inv k (c\<lparr>tx := tx', mem := mem'\<rparr>)"
    and "held (c\<lparr>tx := tx', mem := mem'\<rparr>) = held c"
    and "unread (c\<lparr>tx := tx', mem := mem'\<rparr>) = unread c"
    and "pending (c\<lparr>tx := tx', mem := mem'\<rparr>) = pending c @ take (unat sz) msg"
proof -
  let ?N = "(2::nat) ^ k" and ?b = "rb_base (mem c)" and ?w = "unat (current_write_offset (tx c))"
  have N: "length ?b = ?N" and w: "?w < ?N" using inv by (auto simp: chan_inv_def chan_size_def)
  obtain b' where b': "memcpy_torb (tx c) ?b ?w msg sz = Some b'" "length b' = length ?b"
    "\<And>j. j < length ?b \<Longrightarrow> b' ! j = (if ring_dist (length ?b) ?w j < unat sz
        then msg ! ring_dist (length ?b) ?w j else ?b ! j)"
    using memcpy_torb_spec [of ?b "tx c" ?w sz msg] N w room msg chan_size_word [OF inv] by auto
  let ?c = "chan_written c b' sz"
  note lens = chan_written_lens [OF inv room b'(2)]
  note keep = chan_written_keeps [OF inv room b'(3)]
  have c: "c\<lparr>tx := tx ?c, mem := mem ?c\<rparr> = ?c" by (simp add: chan_written_def)
  have "unread ?c = unread c"
    unfolding unread_def lens(2)
    by (simp add: chan_written_def)
      (rule ring_slice_cong [OF b'(2)], rule keep, auto simp: chan_offsets(1) [OF inv])
  moreover have "pending ?c = ring_slice b' (unat (write_ptr (mem c))) (pending_len c) @ ring_slice b' ?w (unat sz)"
    unfolding pending_def lens(3)
    by (simp add: chan_written_def ring_slice_append b'(2) N chan_offsets(2,3) [OF inv] mod_add_left_eq add.assoc)
  moreover have "ring_slice b' (unat (write_ptr (mem c))) (pending_len c) = pending c"
    unfolding pending_def
    by (rule ring_slice_cong [OF b'(2)], rule keep, auto simp: chan_offsets(2) [OF inv])
  moreover have "ring_slice b' ?w (unat sz) = take (unat sz) msg"
    using b' N w room msg by (intro ring_slice_written [of b' ?b]) auto
  moreover have "scif_rb_write (tx c) (mem c) msg sz = Some (0, tx ?c, mem ?c)"
    using room b'(1) scif_rb_space_chan [OF inv]
    by (simp add: scif_rb_write_def word_less_nat_alt chan_written_def)
  ultimately show ?thesis using that [of "tx ?c" "mem ?c"] lens c by simp
qed

lemma scif_rb_commit_chan:
  assumes inv: "chan_inv k c"
  defines "c' \<equiv> c\<lparr>mem := scif_rb_commit (tx c) (mem c)\<rparr>"
  shows "chan_inv k c'" "held c' = held c" "unread c' = unread c @ pending c" "pending c' = []"
proof -
  let ?N = "(2::nat) ^ k" and ?r = "unat (read_ptr (mem c))"
  note inv' = inv [unfolded chan_inv_def]
  have sel: "tx c' = tx c" "rx c' = rx c" "read_ptr (mem c') = read_ptr (mem c)"
    "rb_base (mem c') = rb_base (mem c)" "write_ptr (mem c') = current_write_offset (tx c)"
    by (simp_all add: c'_def scif_rb_commit_def)
  have N: "chan_size c' = ?N" using inv' by (simp add: chan_size_def sel)
  show h: "held c' = held c" using inv' by (simp add: held_def N sel)
  have u: "unread_len c' = unread_len c + pending_len c"
    using ring_dist_rel [of ?N "held c" "held c + unread_len c + pending_len c" ?r] inv'
    by (simp add: unread_len_def [of c'] N sel chan_offsets(1,3) [OF inv])
  have p: "pending_len c' = 0" using inv' by (simp add: pending_len_def N sel)
  show "pending c' = []" by (simp add: pending_def p ring_slice_def)
  show "unread c' = unread c @ pending c"
    unfolding unread_def u pending_def using inv'
    by (simp add: sel ring_slice_append chan_offsets(1,2) [OF inv] mod_add_left_eq add.assoc chan_size_def)
  show "chan_inv k c'"
    using inv' h u p N by (simp add: chan_inv_def [of k c'] sel)
qed

lemma scif_rb_get_next_short:
  "chan_inv k c \<Longrightarrow> unread_len c < unat sz \<Longrightarrow> scif_rb_get_next (rx c) (mem c) sz = Some (0, [], rx c)"
  by (simp add: scif_rb_get_next_def scif_rb_get_def word_le_nat_alt scif_rb_count_chan)

lemma scif_rb_get_next_chan:
  assumes inv: "chan_inv k c" and sz: "unat sz \<le> unread_len c"
  obtains rx' where "scif_rb_get_next (rx c) (mem c) sz = Some (sz, take (unat sz) (unread c), rx')"
    and "chan_inv k (c\<lparr>rx := rx'\<rparr>)"
    and "held (c\<lparr>rx := rx'\<rparr>) = held c + unat sz"
    and "unread (c\<lparr>rx := rx'\<rparr>) = drop (unat sz) (unread c)"
    and "pending (c\<lparr>rx := rx'\<rparr>) = pending c"
proof -
  let ?N = "(2::nat) ^ k" and ?r = "unat (read_ptr (mem c))"
  let ?rx = "(rx c)\<lparr>current_read_offset := (current_read_offset (rx c) + sz) AND (rb_size (rx c) - 1)\<rparr>"
  let ?c = "c\<lparr>rx := ?rx\<rparr>" and ?b = "rb_base (mem c)"
  note inv' = inv [unfolded chan_inv_def]
  obtain u where u: "unread_len c = unat sz + u" using sz by (auto simp: le_iff_add)
  have N: "chan_size c = ?N" "length ?b = ?N" using inv' by (simp_all add: chan_size_def)
  have r': "unat (current_read_offset ?rx) = (?r + (held c + unat sz)) mod ?N"
    using unat_add_mask [of k "current_read_offset (rx c)" sz] inv'
    by (simp add: chan_offsets(1) [OF inv] mod_add_left_eq add.assoc)
  have h: "held ?c = held c + unat sz"
    using ring_dist_rel [of ?N 0 "held c + unat sz" ?r] inv' u r' unfolding held_def [of ?c] by simp
  have ul: "unread_len ?c = u"
    using ring_dist_rel [of ?N "held c + unat sz" "held c + unread_len c" ?r] inv' u r'
    unfolding unread_len_def [of ?c] by (simp add: chan_offsets(2) [OF inv])
  have split: "unread c = ring_slice ?b (unat (current_read_offset (rx c))) (unat sz) @ unread ?c"
    using r' unfolding unread_def ul u
    by (simp add: ring_slice_append N chan_offsets(1) [OF inv] mod_add_left_eq add.assoc)
  have pl: "pending_len ?c = pending_len c" by (simp add: pending_len_def)
  show ?thesis
  proof (rule that [of ?rx])
    have "memcpy_fromrb ?rx ?b (unat (current_read_offset (rx c))) sz = Some (take (unat sz) (unread c))"
      using memcpy_fromrb_spec [of ?b ?rx "unat (current_read_offset (rx c))" sz]
        split inv' u N chan_size_word [OF inv] by simp
    then show "scif_rb_get_next (rx c) (mem c) sz = Some (sz, take (unat sz) (unread c), ?rx)"
      using sz inv by (simp add: scif_rb_get_next_def scif_rb_get_def word_le_nat_alt scif_rb_count_chan Let_def)
    show "chan_inv k ?c" using inv' u r' unfolding chan_inv_def [of k ?c] h ul pl by simp
    show "unread ?c = drop (unat sz) (unread c)" by (simp add: split)
    show "pending ?c = pending c" unfolding pending_def pl by simp
  qed (rule h)
qed

lemma scif_rb_update_read_ptr_chan:
  assumes inv: "chan_inv k c"
  defines "c' \<equiv> c\<lparr>mem := scif_rb_update_read_ptr (rx c) (mem c)\<rparr>"
  shows "chan_inv k c'" "held c' = 0" "unread c' = unread c" "pending c' = pending c"
proof -
  note inv' = inv [unfolded chan_inv_def]
  have sel: "tx c' = tx c" "rx c' = rx c" "write_ptr (mem c') = write_ptr (mem c)"
    "rb_base (mem c') = rb_base (mem c)" "read_ptr (mem c') = current_read_offset (rx c)"
    by (simp_all add: c'_def scif_rb_update_read_ptr_def)
  have N: "chan_size c' = chan_size c" by (simp add: chan_size_def sel)
  have lens: "unread_len c' = unread_len c" "pending_len c' = pending_len c"
    by (simp_all add: unread_len_def pending_len_def N sel)
  show h: "held c' = 0" using inv' by (simp add: held_def N sel)
  show "unread c' = unread c" "pending c' = pending c"
    by (simp_all add: unread_def pending_def lens sel)
  show "chan_inv k c'" using inv' h lens N by (simp add: chan_inv_def [of k c'] sel)
qed

section \<open>The contract of a bounded FIFO\<close>

text \<open>
  What the users of a ring rely on: an append either is refused without effect or extends
  the uncommitted tail; a commit publishes the tail; a take returns the front of what is
  published, all or nothing; a release frees the space of what was taken.
\<close>

datatype 'b fifo_op = Append "'b list" | Commit | Take nat | Release

text \<open>
  A client run threads the state through a list of operations and collects what was accepted
  and what was delivered.
\<close>

fun fifo_run :: "('b list \<Rightarrow> 's \<Rightarrow> bool \<times> 's) \<Rightarrow> ('s \<Rightarrow> 's) \<Rightarrow> (nat \<Rightarrow> 's \<Rightarrow> 'b list \<times> 's) \<Rightarrow> ('s \<Rightarrow> 's) \<Rightarrow>
    'b fifo_op list \<Rightarrow> 's \<Rightarrow> 'b list \<Rightarrow> 'b list \<Rightarrow> 'b list \<times> 'b list \<times> 's" where
  "fifo_run ap co ta re [] s acc out = (acc, out, s)"
| "fifo_run ap co ta re (Append xs # ops) s acc out =
     fifo_run ap co ta re ops (snd (ap xs s)) (if fst (ap xs s) then acc @ xs else acc) out"
| "fifo_run ap co ta re (Commit # ops) s acc out = fifo_run ap co ta re ops (co s) acc out"
| "fifo_run ap co ta re (Take n # ops) s acc out =
     fifo_run ap co ta re ops (snd (ta n s)) acc (out @ fst (ta n s))"
| "fifo_run ap co ta re (Release # ops) s acc out = fifo_run ap co ta re ops (re s) acc out"

locale bounded_fifo =
  fixes inv :: "'s \<Rightarrow> bool"
    and visible :: "'s \<Rightarrow> 'b list"
    and hidden :: "'s \<Rightarrow> 'b list"
    and taken :: "'s \<Rightarrow> nat"
    and capacity :: nat
    and append :: "'b list \<Rightarrow> 's \<Rightarrow> (bool \<times> 's)"
    and commit :: "'s \<Rightarrow> 's"
    and take_front :: "nat \<Rightarrow> 's \<Rightarrow> ('b list \<times> 's)"
    and release :: "'s \<Rightarrow> 's"
  assumes append_ok: "inv s \<Longrightarrow> taken s + length (visible s) + length (hidden s) + length xs \<le> capacity \<Longrightarrow>
      fst (append xs s) \<and> inv (snd (append xs s)) \<and> visible (snd (append xs s)) = visible s \<and>
      hidden (snd (append xs s)) = hidden s @ xs \<and> taken (snd (append xs s)) = taken s"
    and append_full: "inv s \<Longrightarrow> capacity < taken s + length (visible s) + length (hidden s) + length xs \<Longrightarrow>
      append xs s = (False, s)"
    and commit: "inv s \<Longrightarrow> inv (commit s) \<and> visible (commit s) = visible s @ hidden s \<and>
      hidden (commit s) = [] \<and> taken (commit s) = taken s"
    and take_ok: "inv s \<Longrightarrow> n \<le> length (visible s) \<Longrightarrow>
      fst (take_front n s) = take n (visible s) \<and> inv (snd (take_front n s)) \<and>
      visible (snd (take_front n s)) = drop n (visible s) \<and>
      hidden (snd (take_front n s)) = hidden s \<and> taken (snd (take_front n s)) = taken s + n"
    and take_short: "inv s \<Longrightarrow> length (visible s) < n \<Longrightarrow> take_front n s = ([], s)"
    and release: "inv s \<Longrightarrow> inv (release s) \<and> visible (release s) = visible s \<and>
      hidden (release s) = hidden s \<and> taken (release s) = 0"
    and bounded: "inv s \<Longrightarrow> taken s + length (visible s) + length (hidden s) \<le> capacity"
begin

lemma append_cases:
  assumes "inv s"
  shows "inv (snd (append xs s)) \<and> visible (snd (append xs s)) = visible s \<and>
    hidden (snd (append xs s)) = (if fst (append xs s) then hidden s @ xs else hidden s)"
  using assms append_ok [of s xs] append_full [of s xs]
  by (cases "taken s + length (visible s) + length (hidden s) + length xs \<le> capacity") auto

lemma take_cases:
  assumes "inv s"
  shows "inv (snd (take_front n s)) \<and> visible s = fst (take_front n s) @ visible (snd (take_front n s)) \<and>
    hidden (snd (take_front n s)) = hidden s"
  using assms take_ok [of s n] take_short [of s n] by (cases "n \<le> length (visible s)") auto

lemma run_stream:
  assumes "inv s" and "acc = out @ visible s @ hidden s"
    and "fifo_run append commit take_front release ops s acc out = (acc', out', s')"
  shows "inv s' \<and> acc' = out' @ visible s' @ hidden s'"
  using assms
proof (induction ops arbitrary: s acc out)
  case (Cons op ops)
  show ?case
  proof (cases op)
    case (Append xs)
    with Cons.prems append_cases [of s xs] show ?thesis
      by (intro Cons.IH [of "snd (append xs s)" "if fst (append xs s) then acc @ xs else acc" out]) auto
  next
    case Commit
    with Cons.prems commit show ?thesis by (intro Cons.IH [of "commit s" acc out]) auto
  next
    case (Take n)
    with Cons.prems take_cases [of s n] show ?thesis
      by (intro Cons.IH [of "snd (take_front n s)" acc "out @ fst (take_front n s)"]) auto
  next
    case Release
    with Cons.prems release show ?thesis by (intro Cons.IH [of "release s" acc out]) auto
  qed
qed simp

end

text \<open>The ring as such a FIFO.\<close>

definition rb_append :: "u8 list \<Rightarrow> rb_chan \<Rightarrow> bool \<times> rb_chan" where
  "rb_append xs c =
     (if length xs \<ge> 2 ^ 32 then (False, c)
      else case scif_rb_write (tx c) (mem c) xs (of_nat (length xs)) of
             None \<Rightarrow> (False, c)
           | Some (rc, tx', mem') \<Rightarrow> (rc = 0, c\<lparr>tx := tx', mem := mem'\<rparr>))"

definition rb_commit :: "rb_chan \<Rightarrow> rb_chan" where
  "rb_commit c = c\<lparr>mem := scif_rb_commit (tx c) (mem c)\<rparr>"

definition rb_take :: "nat \<Rightarrow> rb_chan \<Rightarrow> u8 list \<times> rb_chan" where
  "rb_take n c =
     (if n \<ge> 2 ^ 32 then ([], c)
      else case scif_rb_get_next (rx c) (mem c) (of_nat n) of
             None \<Rightarrow> ([], c)
           | Some (rc, msg, rx') \<Rightarrow> (msg, c\<lparr>rx := rx'\<rparr>))"

definition rb_release :: "rb_chan \<Rightarrow> rb_chan" where
  "rb_release c = c\<lparr>mem := scif_rb_update_read_ptr (rx c) (mem c)\<rparr>"

lemma unat_of_nat_u32: "n < 2 ^ 32 \<Longrightarrow> unat (of_nat n :: u32) = n"
  by (simp add: unsigned_of_nat take_bit_nat_eq_self)

lemma length_unread [simp]: "length (unread c) = unread_len c"
  by (simp add: unread_def)

lemma length_pending [simp]: "length (pending c) = pending_len c"
  by (simp add: pending_def)

lemma chan_inv_size: "chan_inv k c \<Longrightarrow> (2::nat) ^ k < 2 ^ 32"
  by (rule power_strict_increasing) (auto simp: chan_inv_def)

lemma rb_append_ok:
  assumes inv: "chan_inv k c" and room: "held c + unread_len c + pending_len c + length xs < 2 ^ k"
  shows "fst (rb_append xs c) \<and> chan_inv k (snd (rb_append xs c)) \<and>
    unread (snd (rb_append xs c)) = unread c \<and> pending (snd (rb_append xs c)) = pending c @ xs \<and>
    held (snd (rb_append xs c)) = held c"
proof -
  have len: "length xs < 2 ^ 32" using room chan_inv_size [OF inv] by linarith
  have "scif_rb_write (tx c) (mem c) xs (of_nat (length xs)) = Some (0, tx', mem') \<Longrightarrow>
    rb_append xs c = (True, c\<lparr>tx := tx', mem := mem'\<rparr>)" for tx' mem'
    using len by (simp add: rb_append_def)
  then show ?thesis
    using scif_rb_write_chan [OF inv, of "of_nat (length xs)" xs] room unat_of_nat_u32 [OF len]
    by (metis fst_conv snd_conv order_refl take_all_iff)
qed

lemma rb_append_full:
  assumes inv: "chan_inv k c" and room: "2 ^ k \<le> held c + unread_len c + pending_len c + length xs"
  shows "rb_append xs c = (False, c)"
proof (cases "length xs \<ge> 2 ^ 32")
  case False
  then have len: "length xs < 2 ^ 32" by simp
  have "held c + unread_len c + pending_len c < 2 ^ k" using inv by (simp add: chan_inv_def)
  then have "2 ^ k - 1 - (held c + unread_len c + pending_len c) < unat (of_nat (length xs) :: u32)"
    using room unat_of_nat_u32 [OF len] by linarith
  then show ?thesis using False by (simp add: rb_append_def scif_rb_write_full [OF inv])
qed (simp add: rb_append_def)

lemma rb_take_ok:
  assumes inv: "chan_inv k c" and n: "n \<le> unread_len c"
  shows "fst (rb_take n c) = take n (unread c) \<and> chan_inv k (snd (rb_take n c)) \<and>
    unread (snd (rb_take n c)) = drop n (unread c) \<and> pending (snd (rb_take n c)) = pending c \<and>
    held (snd (rb_take n c)) = held c + n"
proof -
  have "unread_len c < 2 ^ k" using inv by (simp add: chan_inv_def)
  then have len: "n < 2 ^ 32" using n chan_inv_size [OF inv] by linarith
  have "scif_rb_get_next (rx c) (mem c) (of_nat n) = Some (rc, msg, rx') \<Longrightarrow>
    rb_take n c = (msg, c\<lparr>rx := rx'\<rparr>)" for rc msg rx'
    using len by (simp add: rb_take_def)
  then show ?thesis
    using scif_rb_get_next_chan [OF inv, of "of_nat n"] n unat_of_nat_u32 [OF len]
    by (metis fst_conv snd_conv)
qed

lemma rb_take_short: "chan_inv k c \<Longrightarrow> unread_len c < n \<Longrightarrow> rb_take n c = ([], c)"
  by (simp add: rb_take_def scif_rb_get_next_short unat_of_nat_u32)

interpretation rb: bounded_fifo "chan_inv k" unread pending held "2 ^ k - 1"
  rb_append rb_commit rb_take rb_release for k
proof unfold_locales
  fix s xs assume inv: "chan_inv k s"
  then have lt: "held s + unread_len s + pending_len s < 2 ^ k" by (simp add: chan_inv_def)
  then show "held s + length (unread s) + length (pending s) \<le> 2 ^ k - 1" by simp
  show "2 ^ k - 1 < held s + length (unread s) + length (pending s) + length xs \<Longrightarrow>
    rb_append xs s = (False, s)"
    using rb_append_full [OF inv] by simp
  assume "held s + length (unread s) + length (pending s) + length xs \<le> 2 ^ k - 1"
  moreover have "(2::nat) ^ k > 0" by simp
  ultimately have "held s + unread_len s + pending_len s + length xs < 2 ^ k"
    by (simp only: length_unread length_pending)
  then show "fst (rb_append xs s) \<and> chan_inv k (snd (rb_append xs s)) \<and>
    unread (snd (rb_append xs s)) = unread s \<and> pending (snd (rb_append xs s)) = pending s @ xs \<and>
    held (snd (rb_append xs s)) = held s"
    by (rule rb_append_ok [OF inv])
qed (auto simp: rb_commit_def rb_release_def rb_take_ok rb_take_short scif_rb_commit_chan
    scif_rb_update_read_ptr_chan)

text \<open>A freshly set up ring: both offsets published as 0, both sides initialised from them.\<close>

definition rb_setup :: "u8 \<Rightarrow> rb_chan" where
  "rb_setup order =
     (let m = \<lparr>rb_base = replicate (2 ^ unat order) 0, read_ptr = 0, write_ptr = 0\<rparr>
      in \<lparr>mem = m, tx = scif_rb_init m order, rx = scif_rb_init m order\<rparr>)"

lemma rb_setup_inv: "order < 32 \<Longrightarrow> chan_inv (unat order) (rb_setup order)"
  by (simp add: chan_inv_def rb_setup_def Let_def chan_size_def chan_lens scif_rb_init_def
      word_less_nat_alt push_bit_eq_mult)

lemma rb_setup_empty: "unread (rb_setup order) = []" "pending (rb_setup order) = []"
  by (simp_all add: unread_def pending_def rb_setup_def Let_def chan_size_def chan_lens
      scif_rb_init_def ring_slice_def)

text \<open>The equations that evaluate a concrete run.\<close>

lemmas rb_eval = rb_append_def rb_setup_def Let_def scif_rb_init_def scif_rb_write_def
  scif_rb_space_def scif_rb_ring_space_def memcpy_torb_def memcpy_toio_def rb_commit_def
  scif_rb_commit_def rb_take_def scif_rb_get_next_def scif_rb_get_def scif_rb_count_def
  scif_rb_ring_cnt_def memcpy_fromrb_def memcpy_fromio_def rb_release_def
  scif_rb_update_read_ptr_def

section \<open>Properties\<close>

text \<open>
  C2: whatever sequence of writes, commits, reads and read-pointer updates producer and
  consumer perform on a freshly set up ring, the accepted bytes are exactly the bytes
  delivered so far followed by the bytes still in the ring, in order: nothing is lost,
  duplicated, reordered or overwritten.
\<close>

theorem rb_stream_fifo:
  assumes "order < 32"
    and "fifo_run rb_append rb_commit rb_take rb_release ops (rb_setup order) [] [] = (acc, out, c)"
  shows "acc = out @ unread c @ pending c"
  using rb.run_stream [of "unat order" "rb_setup order" "[]" "[]"] assms
  by (simp add: rb_setup_inv rb_setup_empty)

theorem rb_stream_fifo_witness:
  "\<exists>acc out c. (3 :: u8) < 32 \<and>
     fifo_run rb_append rb_commit rb_take rb_release
       [Append [1, 2, 3, 4, 5], Commit, Take 4, Release, Append [6, 7, 8, 9], Append [10, 11, 12], Commit, Take 4]
       (rb_setup 3) [] [] = (acc, out, c) \<and>
     acc = [1, 2, 3, 4, 5, 6, 7, 8, 9] \<and> out = [1, 2, 3, 4, 5, 6, 7, 8] \<and> acc = out @ unread c @ pending c"
proof -
  let ?ops = "[Append [1, 2, 3, 4, 5], Commit, Take 4, Release, Append [6, 7, 8, 9], Append [10, 11, 12], Commit, Take 4]"
  obtain acc out c where run: "fifo_run rb_append rb_commit rb_take rb_release ?ops (rb_setup 3) [] [] = (acc, out, c)"
    by (metis prod_cases3)
  have "fst (fifo_run rb_append rb_commit rb_take rb_release ?ops (rb_setup 3) [] []) = [1, 2, 3, 4, 5, 6, 7, 8, 9] \<and>
    fst (snd (fifo_run rb_append rb_commit rb_take rb_release ?ops (rb_setup 3) [] [])) = [1, 2, 3, 4, 5, 6, 7, 8]"
    by (simp add: rb_eval)
  then show ?thesis using run rb_stream_fifo [OF _ run] by (intro exI [of _ acc] exI [of _ out] exI [of _ c]) simp
qed

text \<open>
  C15: on a well-formed channel no write and no read copies outside the buffer or outside the
  message, for any requested size.
\<close>

theorem rb_memory_safe:
  assumes "chan_inv k c" and "unat sz \<le> length msg"
  shows "scif_rb_write (tx c) (mem c) msg sz \<noteq> None \<and> scif_rb_get_next (rx c) (mem c) sz' \<noteq> None"
proof
  show "scif_rb_write (tx c) (mem c) msg sz \<noteq> None"
  proof (cases "held c + unread_len c + pending_len c + unat sz < 2 ^ k")
    case True
    then show ?thesis using scif_rb_write_chan [OF assms(1) _ assms(2)] by (metis option.distinct(1))
  next
    case False
    have "held c + unread_len c + pending_len c < 2 ^ k" using assms(1) by (simp add: chan_inv_def)
    then show ?thesis using False scif_rb_write_full [OF assms(1), of sz msg] by simp
  qed
  show "scif_rb_get_next (rx c) (mem c) sz' \<noteq> None"
    using scif_rb_get_next_chan [OF assms(1), of sz'] scif_rb_get_next_short [OF assms(1), of sz']
    by (metis linorder_not_le option.distinct(1))
qed

theorem rb_memory_safe_witness:
  "chan_inv 4 (rb_setup 4) \<and> scif_rb_write (tx (rb_setup 4)) (mem (rb_setup 4)) [1, 2, 3] 3 \<noteq> None"
proof -
  have inv: "chan_inv 4 (rb_setup 4)" using rb_setup_inv [of 4] by simp
  show ?thesis using inv rb_memory_safe [OF inv, of 3 "[1, 2, 3]"] by simp
qed

text \<open>
  C16: a write is accepted exactly when it fits in the space \<open>scif_rb_space\<close> reports, that space
  is the capacity minus everything the reader has not yet released, and a refused write
  returns \<open>-ENOMEM\<close> and changes nothing.
\<close>

theorem rb_write_accepts:
  assumes "chan_inv k c" and "unat sz \<le> length msg"
  shows "unat (scif_rb_space (tx c) (mem c)) = 2 ^ k - 1 - (held c + length (unread c) + length (pending c)) \<and>
    (if sz \<le> scif_rb_space (tx c) (mem c)
     then \<exists>tx' mem'. scif_rb_write (tx c) (mem c) msg sz = Some (0, tx', mem') \<and>
            chan_inv k (c\<lparr>tx := tx', mem := mem'\<rparr>) \<and>
            unread (c\<lparr>tx := tx', mem := mem'\<rparr>) = unread c \<and>
            pending (c\<lparr>tx := tx', mem := mem'\<rparr>) = pending c @ take (unat sz) msg
     else scif_rb_write (tx c) (mem c) msg sz = Some (- ENOMEM, tx c, mem c))"
proof
  show space: "unat (scif_rb_space (tx c) (mem c)) = 2 ^ k - 1 - (held c + length (unread c) + length (pending c))"
    using scif_rb_space_chan [OF assms(1)] by simp
  have lt: "held c + unread_len c + pending_len c < 2 ^ k" using assms(1) by (simp add: chan_inv_def)
  show "if sz \<le> scif_rb_space (tx c) (mem c)
     then \<exists>tx' mem'. scif_rb_write (tx c) (mem c) msg sz = Some (0, tx', mem') \<and>
            chan_inv k (c\<lparr>tx := tx', mem := mem'\<rparr>) \<and>
            unread (c\<lparr>tx := tx', mem := mem'\<rparr>) = unread c \<and>
            pending (c\<lparr>tx := tx', mem := mem'\<rparr>) = pending c @ take (unat sz) msg
     else scif_rb_write (tx c) (mem c) msg sz = Some (- ENOMEM, tx c, mem c)"
  proof (cases "sz \<le> scif_rb_space (tx c) (mem c)")
    case True
    then have room: "held c + unread_len c + pending_len c + unat sz < 2 ^ k"
      using space lt by (simp add: word_le_nat_alt)
    then obtain tx' mem' where "scif_rb_write (tx c) (mem c) msg sz = Some (0, tx', mem')"
      "chan_inv k (c\<lparr>tx := tx', mem := mem'\<rparr>)" "unread (c\<lparr>tx := tx', mem := mem'\<rparr>) = unread c"
      "pending (c\<lparr>tx := tx', mem := mem'\<rparr>) = pending c @ take (unat sz) msg"
      using scif_rb_write_chan [OF assms(1) room assms(2)] by blast
    then show ?thesis using True by auto
  next
    case False
    then show ?thesis by (simp add: scif_rb_write_def not_le)
  qed
qed

theorem rb_write_accepts_witness:
  "chan_inv 2 (rb_setup 2) \<and> (3 :: u32) \<le> scif_rb_space (tx (rb_setup 2)) (mem (rb_setup 2)) \<and>
   scif_rb_write (tx (rb_setup 2)) (mem (rb_setup 2)) [1, 2, 3, 4] 4 =
     Some (- ENOMEM, tx (rb_setup 2), mem (rb_setup 2))"
proof -
  have inv: "chan_inv 2 (rb_setup 2)" using rb_setup_inv [of 2] by simp
  have sp: "scif_rb_space (tx (rb_setup 2)) (mem (rb_setup 2)) = 3" by (simp add: rb_eval)
  show ?thesis using inv sp rb_write_accepts [OF inv, of 4 "[1, 2, 3, 4]"] by simp
qed

end
