(* ===== verification/Scif_Ports.thy ===== *)
theory Scif_Ports
  imports Prelude
begin

text \<open>
  The port numbers of \<open>scif_ports.c\<close>, reference counted because every endpoint that
  \<open>scif_accept\<close> creates shares the port of its listener. The file has two implementations
  chosen by the kernel version: an \<open>idr\<close> that maps an id to its \<open>struct scif_port\<close>, and an
  \<open>ida\<close> of ids in use beside a linked list of structures. Both are modelled, and the second
  is shown to implement the first.

  Which free id the kernel's \<open>idr_alloc\<close> and \<open>ida_simple_get\<close> return is a parameter
  \<open>pick used start stop\<close> of the operations; \<open>alloc_contract\<close> states what the kernel
  documents of it. Whether \<open>kzalloc\<close> succeeds is the parameter \<open>kz\<close>.
\<close>

section \<open>The idr implementation\<close>

type_synonym picker = "(int \<Rightarrow> bool) \<Rightarrow> int \<Rightarrow> int \<Rightarrow> int"

definition alloc_contract :: "picker \<Rightarrow> bool" where
  "alloc_contract pick \<longleftrightarrow> (\<forall>used start stop. 0 \<le> start \<longrightarrow>
     (0 \<le> pick used start stop \<longrightarrow>
        start \<le> pick used start stop \<and> pick used start stop < stop \<and> \<not> used (pick used start stop)) \<and>
     (pick used start stop < 0 \<longrightarrow>
        pick used start stop = - ENOMEM \<or>
        pick used start stop = - ENOSPC \<and> (\<forall>i. start \<le> i \<and> i < stop \<longrightarrow> used i)))"

abbreviation (input) SCIF_PORT_COUNT :: int where "SCIF_PORT_COUNT \<equiv> 0x10000"
abbreviation (input) SCIF_PORT_RSVD :: int where "SCIF_PORT_RSVD \<equiv> 1088"
abbreviation (input) SCIF_ADMIN_PORT_END :: int where "SCIF_ADMIN_PORT_END \<equiv> 1024"

record scif_port =
  ref_cnt :: int

type_synonym scif_ports = "int \<rightharpoonup> scif_port"

definition idr_get_port_range :: "picker \<Rightarrow> bool \<Rightarrow> int \<Rightarrow> int \<Rightarrow> scif_ports \<Rightarrow> int \<times> scif_ports" where
  "idr_get_port_range pick kz start stop m =
     (if \<not> kz then (- ENOMEM, m)
      else let pid = pick (\<lambda>i. m i \<noteq> None) start stop
           in if pid \<ge> 0 then (pid, m(pid \<mapsto> \<lparr>ref_cnt = 1\<rparr>)) else (pid, m))"

definition scif_rsrv_port :: "picker \<Rightarrow> bool \<Rightarrow> u16 \<Rightarrow> scif_ports \<Rightarrow> int \<times> scif_ports" where
  "scif_rsrv_port pick kz port m = idr_get_port_range pick kz (uint port) (uint port + 1) m"

definition scif_get_new_port :: "picker \<Rightarrow> bool \<Rightarrow> scif_ports \<Rightarrow> int \<times> scif_ports" where
  "scif_get_new_port pick kz m = idr_get_port_range pick kz (SCIF_PORT_RSVD + 1) SCIF_PORT_COUNT m"

definition scif_get_port :: "u16 \<Rightarrow> scif_ports \<Rightarrow> scif_ports" where
  "scif_get_port pid m =
     (if pid = 0 then m
      else case m (uint pid) of
             None \<Rightarrow> m
           | Some port \<Rightarrow> m(uint pid \<mapsto> port\<lparr>ref_cnt := ref_cnt port + 1\<rparr>))"

definition scif_put_port :: "u16 \<Rightarrow> scif_ports \<Rightarrow> scif_ports" where
  "scif_put_port pid m =
     (if pid = 0 then m
      else case m (uint pid) of
             None \<Rightarrow> m
           | Some port \<Rightarrow>
               (let port' = port\<lparr>ref_cnt := ref_cnt port - 1\<rparr>
                in if ref_cnt port' = 0 then m(uint pid := None) else m(uint pid \<mapsto> port')))"

section \<open>The ida implementation\<close>

record ida_port =
  ida_id :: int
  ida_ref_cnt :: int

record ida_ports =
  ida_used :: "int \<Rightarrow> bool"
  ports_in_use :: "ida_port list"

definition ida_get_port_range :: "picker \<Rightarrow> bool \<Rightarrow> int \<Rightarrow> int \<Rightarrow> ida_ports \<Rightarrow> int \<times> ida_ports" where
  "ida_get_port_range pick kz start stop s =
     (let pid = pick (ida_used s) start stop
      in if pid \<ge> 0 then
           (let s1 = s\<lparr>ida_used := (ida_used s)(pid := True)\<rparr>
            in if \<not> kz then (- ENOMEM, s1\<lparr>ida_used := (ida_used s1)(pid := False)\<rparr>)
               else (pid, s1\<lparr>ports_in_use := ports_in_use s1 @ [\<lparr>ida_id = pid, ida_ref_cnt = 1\<rparr>]\<rparr>))
         else (pid, s))"

definition ida_rsrv_port :: "picker \<Rightarrow> bool \<Rightarrow> u16 \<Rightarrow> ida_ports \<Rightarrow> int \<times> ida_ports" where
  "ida_rsrv_port pick kz port s = ida_get_port_range pick kz (uint port) (uint port + 1) s"

definition ida_get_new_port :: "picker \<Rightarrow> bool \<Rightarrow> ida_ports \<Rightarrow> int \<times> ida_ports" where
  "ida_get_new_port pick kz s = ida_get_port_range pick kz (SCIF_PORT_RSVD + 1) SCIF_PORT_COUNT s"

text \<open>The walk of \<open>scif_get_port\<close>: it stops at the first match.\<close>

fun ida_get_walk :: "int \<Rightarrow> ida_port list \<Rightarrow> ida_port list" where
  "ida_get_walk pid [] = []"
| "ida_get_walk pid (p # ps) =
     (if ida_id p = pid then p\<lparr>ida_ref_cnt := ida_ref_cnt p + 1\<rparr> # ps else p # ida_get_walk pid ps)"

definition ida_get_port :: "u16 \<Rightarrow> ida_ports \<Rightarrow> ida_ports" where
  "ida_get_port pid s =
     (if pid = 0 then s else s\<lparr>ports_in_use := ida_get_walk (uint pid) (ports_in_use s)\<rparr>)"

text \<open>
  The walk of \<open>scif_put_port\<close>: it stops only where it removes an entry. The second component
  tells whether it did, which is when the id is given back to the \<open>ida\<close>.
\<close>

fun ida_put_walk :: "int \<Rightarrow> ida_port list \<Rightarrow> ida_port list \<times> bool" where
  "ida_put_walk pid [] = ([], False)"
| "ida_put_walk pid (p # ps) =
     (if pid = ida_id p then
        (let p' = p\<lparr>ida_ref_cnt := ida_ref_cnt p - 1\<rparr>
         in if ida_ref_cnt p' = 0 then (ps, True)
            else (let (ps', removed) = ida_put_walk pid ps in (p' # ps', removed)))
      else (let (ps', removed) = ida_put_walk pid ps in (p # ps', removed)))"

definition ida_put_port :: "u16 \<Rightarrow> ida_ports \<Rightarrow> ida_ports" where
  "ida_put_port pid s =
     (if pid = 0 then s
      else let (ps, removed) = ida_put_walk (uint pid) (ports_in_use s)
           in s\<lparr>ports_in_use := ps,
                ida_used := (if removed then (ida_used s)(uint pid := False) else ida_used s)\<rparr>)"

section \<open>References held on a port\<close>

definition port_refs :: "scif_ports \<Rightarrow> int \<Rightarrow> nat" where
  "port_refs m pid = (case m pid of None \<Rightarrow> 0 | Some p \<Rightarrow> nat (ref_cnt p))"

definition ports_ok :: "scif_ports \<Rightarrow> bool" where
  "ports_ok m \<longleftrightarrow> (\<forall>pid p. m pid = Some p \<longrightarrow> ref_cnt p > 0 \<and> 0 \<le> pid \<and> pid < SCIF_PORT_COUNT)"

lemma ports_okD: "ports_ok m \<Longrightarrow> m pid = Some p \<Longrightarrow> ref_cnt p > 0"
  by (simp add: ports_ok_def)

lemma ports_ok_empty: "ports_ok Map.empty"
  by (simp add: ports_ok_def)

lemma port_refs_zero_iff: "ports_ok m \<Longrightarrow> port_refs m pid = 0 \<longleftrightarrow> m pid = None"
  by (auto simp: port_refs_def dest: ports_okD split: option.splits)

lemma ports_ok_put: "ports_ok m \<Longrightarrow> ports_ok (scif_put_port pid m)"
  by (auto simp: scif_put_port_def Let_def ports_ok_def split: option.splits if_splits) fastforce+

lemma ports_ok_get: "ports_ok m \<Longrightarrow> ports_ok (scif_get_port pid m)"
  by (auto simp: scif_get_port_def ports_ok_def split: option.splits if_splits) fastforce+

lemma port_refs_get:
  "ports_ok m \<Longrightarrow> port_refs (scif_get_port pid m) j =
     (if pid \<noteq> 0 \<and> j = uint pid \<and> port_refs m j > 0 then Suc (port_refs m j) else port_refs m j)"
  by (auto simp: scif_get_port_def port_refs_def dest: ports_okD split: option.splits)

lemma port_refs_put:
  "ports_ok m \<Longrightarrow> port_refs (scif_put_port pid m) j =
     (if pid \<noteq> 0 \<and> j = uint pid then port_refs m j - 1 else port_refs m j)"
  by (auto simp: scif_put_port_def port_refs_def Let_def nat_diff_distrib dest: ports_okD split: option.splits)


text \<open>The choice that the kernel makes in fact: the lowest free id.\<close>

function lowest_free :: picker where
  "lowest_free used start stop =
     (if start \<ge> stop then - ENOSPC
      else if used start then lowest_free used (start + 1) stop else start)"
  by pat_completeness auto
termination
  by (relation "measure (\<lambda>(used, start, stop). nat (stop - start))") auto

declare lowest_free.simps [simp del]

lemma lowest_free_eval:
  "start \<ge> stop \<Longrightarrow> lowest_free used start stop = - ENOSPC"
  "start < stop \<Longrightarrow> \<not> used start \<Longrightarrow> lowest_free used start stop = start"
  "start < stop \<Longrightarrow> used start \<Longrightarrow> lowest_free used start stop = lowest_free used (start + 1) stop"
  by (subst lowest_free.simps; simp)+

lemma lowest_free_spec:
  "lowest_free used start stop = - ENOSPC \<and> (\<forall>i. start \<le> i \<and> i < stop \<longrightarrow> used i) \<or>
   start \<le> lowest_free used start stop \<and> lowest_free used start stop < stop \<and>
     \<not> used (lowest_free used start stop)"
proof (induction used start stop rule: lowest_free.induct)
  case (1 used start stop)
  show ?case
  proof (cases "start \<ge> stop \<or> \<not> used start")
    case False
    then have step: "lowest_free used start stop = lowest_free used (start + 1) stop"
      by (subst lowest_free.simps) simp
    have "used i" if "\<forall>i. start + 1 \<le> i \<and> i < stop \<longrightarrow> used i" "start \<le> i" "i < stop" for i
      using that False by (cases "i = start") auto
    with 1 False show ?thesis unfolding step by force
  qed (auto simp: lowest_free.simps [of used start stop])
qed

lemma lowest_free_contract: "alloc_contract lowest_free"
  unfolding alloc_contract_def
proof (intro allI impI)
  fix used :: "int \<Rightarrow> bool" and start stop :: int
  assume "0 \<le> start"
  with lowest_free_spec [of used start stop]
  show "(0 \<le> lowest_free used start stop \<longrightarrow>
          start \<le> lowest_free used start stop \<and> lowest_free used start stop < stop \<and>
          \<not> used (lowest_free used start stop)) \<and>
        (lowest_free used start stop < 0 \<longrightarrow>
          lowest_free used start stop = - ENOMEM \<or>
          lowest_free used start stop = - ENOSPC \<and> (\<forall>i. start \<le> i \<and> i < stop \<longrightarrow> used i))"
    by auto
qed

lemma alloc_range_cases:
  assumes "alloc_contract pick" "idr_get_port_range pick kz start stop m = (r, m')" "0 \<le> start"
  obtains "r < 0" "m' = m"
  | "0 \<le> r" "start \<le> r" "r < stop" "m r = None" "m' = m(r \<mapsto> \<lparr>ref_cnt = 1\<rparr>)"
proof (cases "kz \<and> 0 \<le> pick (\<lambda>i. m i \<noteq> None) start stop")
  case True
  then have "r = pick (\<lambda>i. m i \<noteq> None) start stop" "m' = m(r \<mapsto> \<lparr>ref_cnt = 1\<rparr>)"
    using assms(2) by (auto simp: idr_get_port_range_def Let_def)
  with True assms(1,3) that(2) show thesis
    unfolding alloc_contract_def by blast
next
  case False
  with assms(2) that(1) show thesis
    by (auto simp: idr_get_port_range_def Let_def split: if_splits)
qed

lemma ports_ok_alloc:
  assumes "alloc_contract pick" "idr_get_port_range pick kz start stop m = (r, m')" "0 \<le> start"
    and "ports_ok m" "stop \<le> SCIF_PORT_COUNT"
  shows "ports_ok m'"
  using assms(4,5) by (cases rule: alloc_range_cases [OF assms(1-3)]) (auto simp: ports_ok_def)

lemma alloc_not_in_use:
  assumes "alloc_contract pick" "m i \<noteq> None" "0 \<le> i" "0 \<le> start"
  shows "fst (idr_get_port_range pick kz start stop m) \<noteq> i"
proof
  assume a: "fst (idr_get_port_range pick kz start stop m) = i"
  then obtain m' where "idr_get_port_range pick kz start stop m = (i, m')"
    by (metis prod.collapse)
  from alloc_range_cases [OF assms(1) this assms(4)] assms(2,3) show False
    by cases auto
qed

section \<open>The contract of a reference-counted registry\<close>

datatype ref_op = Get u16 | Put u16

fun refs_run :: "(u16 \<Rightarrow> 's \<Rightarrow> 's) \<Rightarrow> (u16 \<Rightarrow> 's \<Rightarrow> 's) \<Rightarrow> ref_op list \<Rightarrow> 's \<Rightarrow> 's" where
  "refs_run get put [] s = s"
| "refs_run get put (Get i # ops) s = refs_run get put ops (get i s)"
| "refs_run get put (Put i # ops) s = refs_run get put ops (put i s)"

text \<open>\<open>covered i n ops\<close>: port \<open>i\<close>, held \<open>n\<close> times, is never put more often than it is held.\<close>

fun covered :: "u16 \<Rightarrow> nat \<Rightarrow> ref_op list \<Rightarrow> bool" where
  "covered i n [] \<longleftrightarrow> 0 < n"
| "covered i n (Get j # ops) \<longleftrightarrow> 0 < n \<and> covered i (if j = i then Suc n else n) ops"
| "covered i n (Put j # ops) \<longleftrightarrow> 0 < n \<and> covered i (if j = i then n - 1 else n) ops"

locale port_registry =
  fixes ok :: "'s \<Rightarrow> bool"
    and refs :: "'s \<Rightarrow> int \<Rightarrow> nat"
    and get put :: "u16 \<Rightarrow> 's \<Rightarrow> 's"
  assumes get_ok: "ok s \<Longrightarrow> ok (get i s)"
    and put_ok: "ok s \<Longrightarrow> ok (put i s)"
    and get_refs: "ok s \<Longrightarrow> refs (get i s) j =
      (if i \<noteq> 0 \<and> j = uint i \<and> refs s j > 0 then Suc (refs s j) else refs s j)"
    and put_refs: "ok s \<Longrightarrow> refs (put i s) j =
      (if i \<noteq> 0 \<and> j = uint i then refs s j - 1 else refs s j)"
begin

lemma run_ok: "ok s \<Longrightarrow> ok (refs_run get put ops s)"
proof (induction ops arbitrary: s)
  case (Cons a ops)
  then show ?case by (cases a) (simp_all add: get_ok put_ok)
qed simp

lemma run_balance:
  assumes "ok s" "i \<noteq> 0" "covered i (refs s (uint i)) ops"
  shows "refs (refs_run get put ops s) (uint i) + count_list ops (Put i) =
           refs s (uint i) + count_list ops (Get i) \<and> 0 < refs (refs_run get put ops s) (uint i)"
  using assms
proof (induction ops arbitrary: s)
  case (Cons a ops)
  show ?case
  proof (cases a)
    case (Get j)
    with Cons.prems Cons.IH [of "get j s"] show ?thesis
      by (cases "j = i") (auto simp: get_refs get_ok word_uint_eq_iff [symmetric])
  next
    case (Put j)
    with Cons.prems Cons.IH [of "put j s"] show ?thesis
      by (cases "j = i") (auto simp: put_refs put_ok word_uint_eq_iff [symmetric])
  qed
qed simp

end

interpretation idr: port_registry ports_ok port_refs scif_get_port scif_put_port
  by unfold_locales (simp_all add: ports_ok_get ports_ok_put port_refs_get port_refs_put)

section \<open>The ida implementation refines the idr implementation\<close>

definition ida_abs :: "ida_ports \<Rightarrow> scif_ports" where
  "ida_abs s = map_of (map (\<lambda>p. (ida_id p, \<lparr>ref_cnt = ida_ref_cnt p\<rparr>)) (ports_in_use s))"

definition ida_ok :: "ida_ports \<Rightarrow> bool" where
  "ida_ok s \<longleftrightarrow> distinct (map ida_id (ports_in_use s)) \<and>
     ida_used s = (\<lambda>i. i \<in> ida_id ` set (ports_in_use s)) \<and> ports_ok (ida_abs s)"

abbreviation ida_list_abs :: "ida_port list \<Rightarrow> scif_ports" where
  "ida_list_abs ps \<equiv> map_of (map (\<lambda>p. (ida_id p, \<lparr>ref_cnt = ida_ref_cnt p\<rparr>)) ps)"

lemma ida_list_abs_None: "ida_list_abs ps i = None \<longleftrightarrow> i \<notin> ida_id ` set ps"
  by (induction ps) auto

lemma ida_get_walk_ids: "map ida_id (ida_get_walk i ps) = map ida_id ps"
  by (induction ps) auto

lemma ida_get_walk_abs:
  "ida_list_abs (ida_get_walk i ps) =
     (case ida_list_abs ps i of
        None \<Rightarrow> ida_list_abs ps
      | Some p \<Rightarrow> (ida_list_abs ps)(i \<mapsto> p\<lparr>ref_cnt := ref_cnt p + 1\<rparr>))"
  by (induction ps) (auto split: option.splits)

lemma ida_put_walk_absent:
  "i \<notin> ida_id ` set ps \<Longrightarrow> ida_put_walk i ps = (ps, False)"
  by (induction ps) auto

lemma ida_put_walk_ids:
  "distinct (map ida_id ps) \<Longrightarrow> ida_put_walk i ps = (ps', removed) \<Longrightarrow>
     distinct (map ida_id ps') \<and>
     ida_id ` set ps' = (if removed then ida_id ` set ps - {i} else ida_id ` set ps)"
  by (induction ps arbitrary: ps' removed)
     (auto simp: Let_def ida_put_walk_absent split: prod.splits if_splits,
      (metis DiffD1 DiffD2 imageI singletonI)+)

lemma ida_put_walk_abs:
  "distinct (map ida_id ps) \<Longrightarrow>
   ida_list_abs (fst (ida_put_walk i ps)) =
     (case ida_list_abs ps i of
        None \<Rightarrow> ida_list_abs ps
      | Some p \<Rightarrow> if ref_cnt p - 1 = 0 then (ida_list_abs ps)(i := None)
                  else (ida_list_abs ps)(i \<mapsto> p\<lparr>ref_cnt := ref_cnt p - 1\<rparr>))"
proof (induction ps)
  case (Cons p ps)
  show ?case
  proof (cases "ida_id p = i")
    case True
    moreover from True Cons.prems have "i \<notin> ida_id ` set ps" by auto
    moreover from this have "ida_list_abs ps i = None" by (simp add: ida_list_abs_None)
    ultimately show ?thesis
      by (auto simp: Let_def ida_put_walk_absent fun_eq_iff)
  next
    case False
    with Cons show ?thesis
      by (auto simp: Let_def fun_upd_twist split: prod.splits option.splits)
  qed
qed simp

lemma ida_used_abs: "ida_ok s \<Longrightarrow> ida_used s = (\<lambda>i. ida_abs s i \<noteq> None)"
  by (simp add: ida_ok_def ida_abs_def ida_list_abs_None)

lemma ida_get_port_abs: "ida_abs (ida_get_port i s) = scif_get_port i (ida_abs s)"
  by (simp add: ida_get_port_def scif_get_port_def ida_abs_def ida_get_walk_abs)

lemma ida_get_port_ok: "ida_ok s \<Longrightarrow> ida_ok (ida_get_port i s)"
  using ports_ok_get [of "ida_abs s" i] arg_cong [OF ida_get_walk_ids, of set]
  by (auto simp: ida_ok_def ida_get_port_abs) (auto simp: ida_get_port_def ida_get_walk_ids)

lemma ida_put_port_abs: "ida_ok s \<Longrightarrow> ida_abs (ida_put_port i s) = scif_put_port i (ida_abs s)"
  using ida_put_walk_abs [of "ports_in_use s" "uint i"]
  by (auto simp: ida_put_port_def scif_put_port_def ida_abs_def ida_ok_def Let_def
      split: prod.splits option.splits)

lemma ida_put_port_ok:
  assumes "ida_ok s"
  shows "ida_ok (ida_put_port i s)"
proof -
  have "ports_ok (ida_abs (ida_put_port i s))"
    using assms by (simp add: ida_put_port_abs ida_ok_def ports_ok_put)
  moreover obtain ps removed where "ida_put_walk (uint i) (ports_in_use s) = (ps, removed)"
    by fastforce
  ultimately show ?thesis
    using assms ida_put_walk_ids [of "ports_in_use s" "uint i" ps removed]
    unfolding ida_ok_def by (auto simp: ida_put_port_def fun_upd_def)
qed

lemma ida_append_abs:
  "i \<notin> ida_id ` set ps \<Longrightarrow> [i \<mapsto> x] ++ ida_list_abs ps = (ida_list_abs ps)(i \<mapsto> x)"
  using ida_list_abs_None [of ps i] by (auto simp: map_add_def fun_eq_iff split: option.splits)

lemma ida_range_refines:
  assumes "alloc_contract pick" "ida_ok s"
    and "idr_get_port_range pick kz start stop (ida_abs s) = (r, m')"
    and "ida_get_port_range pick kz start stop s = (r', s')"
    and "0 \<le> start" "stop \<le> SCIF_PORT_COUNT"
  shows "ida_abs s' = m' \<and> ida_ok s' \<and> (r' = r \<or> r = - ENOMEM \<and> r' < 0)"
proof -
  define q where "q = pick (ida_used s) start stop"
  have q: "pick (\<lambda>i. ida_abs s i \<noteq> None) start stop = q"
    by (simp add: ida_used_abs assms(2) q_def)
  have ok': "ports_ok m'"
    using ports_ok_alloc [OF assms(1,3,5) _ assms(6)] assms(2) by (simp add: ida_ok_def)
  show ?thesis
  proof (cases "kz \<and> 0 \<le> q")
    case True
    have r: "r' = q" "r = q" "m' = (ida_abs s)(q \<mapsto> \<lparr>ref_cnt = 1\<rparr>)"
      "s' = s\<lparr>ida_used := (ida_used s)(q := True),
              ports_in_use := ports_in_use s @ [\<lparr>ida_id = q, ida_ref_cnt = 1\<rparr>]\<rparr>"
      using True assms(3,4) q
      by (auto simp: ida_get_port_range_def idr_get_port_range_def Let_def q_def [symmetric])
    have "\<not> ida_used s q"
      using assms(1,5) True unfolding alloc_contract_def q_def by blast
    then have new: "q \<notin> ida_id ` set (ports_in_use s)"
      using assms(2) by (simp add: ida_ok_def)
    then have abs: "ida_abs s' = m'"
      by (simp add: r(3,4) ida_abs_def ida_append_abs)
    have "ida_ok s'"
      unfolding ida_ok_def abs using assms(2) new ok' by (auto simp: r(4) ida_ok_def fun_eq_iff)
    with abs r(1,2) show ?thesis by simp
  next
    case False
    have "\<not> ida_used s q" if "0 \<le> q"
      using assms(1,5) that unfolding alloc_contract_def q_def by blast
    then have "(ida_used s)(q := False) = ida_used s" if "0 \<le> q"
      using that by (simp add: fun_upd_idem)
    with False have "s' = s" "m' = ida_abs s" "r' = r \<or> r = - ENOMEM \<and> r' < 0"
      using assms(3,4) q
      by (auto simp: ida_get_port_range_def idr_get_port_range_def Let_def q_def [symmetric]
          split: if_splits)
    with assms(2) show ?thesis by simp
  qed
qed

section \<open>Scripts of port operations\<close>

datatype port_op = Rsrv bool u16 | New bool | Ref u16 | Unref u16

fun idr_run :: "picker \<Rightarrow> port_op list \<Rightarrow> scif_ports \<Rightarrow> int list \<times> scif_ports" where
  "idr_run pick [] m = ([], m)"
| "idr_run pick (Rsrv kz port # ops) m =
     (let (r, m1) = scif_rsrv_port pick kz port m; (rs, m2) = idr_run pick ops m1 in (r # rs, m2))"
| "idr_run pick (New kz # ops) m =
     (let (r, m1) = scif_get_new_port pick kz m; (rs, m2) = idr_run pick ops m1 in (r # rs, m2))"
| "idr_run pick (Ref port # ops) m = idr_run pick ops (scif_get_port port m)"
| "idr_run pick (Unref port # ops) m = idr_run pick ops (scif_put_port port m)"

fun ida_run :: "picker \<Rightarrow> port_op list \<Rightarrow> ida_ports \<Rightarrow> int list \<times> ida_ports" where
  "ida_run pick [] s = ([], s)"
| "ida_run pick (Rsrv kz port # ops) s =
     (let (r, s1) = ida_rsrv_port pick kz port s; (rs, s2) = ida_run pick ops s1 in (r # rs, s2))"
| "ida_run pick (New kz # ops) s =
     (let (r, s1) = ida_get_new_port pick kz s; (rs, s2) = ida_run pick ops s1 in (r # rs, s2))"
| "ida_run pick (Ref port # ops) s = ida_run pick ops (ida_get_port port s)"
| "ida_run pick (Unref port # ops) s = ida_run pick ops (ida_put_port port s)"

definition same_port_result :: "int \<Rightarrow> int \<Rightarrow> bool" where
  "same_port_result a b \<longleftrightarrow> a = b \<or> b = - ENOMEM \<and> a < 0"

definition ida_init :: ida_ports where
  "ida_init = \<lparr>ida_used = (\<lambda>_. False), ports_in_use = []\<rparr>"

lemma ida_init_ok: "ida_ok ida_init" "ida_abs ida_init = Map.empty"
  by (simp_all add: ida_ok_def ida_init_def ida_abs_def ports_ok_empty)

lemma uint16_bound: "uint (port :: u16) + 1 \<le> SCIF_PORT_COUNT"
  using unsigned_less [of port, where 'a = int] by simp

lemma ida_run_refines:
  "alloc_contract pick \<Longrightarrow> ida_ok s \<Longrightarrow>
   ida_abs (snd (ida_run pick ops s)) = snd (idr_run pick ops (ida_abs s)) \<and>
   ida_ok (snd (ida_run pick ops s)) \<and>
   list_all2 same_port_result (fst (ida_run pick ops s)) (fst (idr_run pick ops (ida_abs s)))"
proof (induction ops arbitrary: s)
  case (Cons a ops)
  note IH = Cons.IH [OF Cons.prems(1)]
  have range: "ida_abs (snd (ida_get_port_range pick kz start stop s)) =
      snd (idr_get_port_range pick kz start stop (ida_abs s)) \<and>
      ida_ok (snd (ida_get_port_range pick kz start stop s)) \<and>
      same_port_result (fst (ida_get_port_range pick kz start stop s))
        (fst (idr_get_port_range pick kz start stop (ida_abs s)))"
    if "0 \<le> start" "stop \<le> SCIF_PORT_COUNT" for kz start stop
    using ida_range_refines [OF Cons.prems prod.collapse [symmetric] prod.collapse [symmetric] that,
        of kz]
    unfolding same_port_result_def by blast
  show ?case
  proof (cases a)
    case (Rsrv kz port)
    with range [OF _ uint16_bound [of port], of "uint port" kz]
      IH [of "snd (ida_get_port_range pick kz (uint port) (uint port + 1) s)"] show ?thesis
      by (simp add: scif_rsrv_port_def ida_rsrv_port_def case_prod_beta Let_def)
  next
    case (New kz)
    with range [OF _ order_refl, of "SCIF_PORT_RSVD + 1" kz]
      IH [of "snd (ida_get_port_range pick kz (SCIF_PORT_RSVD + 1) SCIF_PORT_COUNT s)"] show ?thesis
      by (simp add: scif_get_new_port_def ida_get_new_port_def case_prod_beta Let_def)
  next
    case (Ref port)
    with Cons show ?thesis by (simp add: ida_get_port_abs [symmetric] ida_get_port_ok)
  next
    case (Unref port)
    with Cons show ?thesis by (simp add: ida_put_port_abs [symmetric] ida_put_port_ok)
  qed
qed simp

section \<open>Properties\<close>

lemmas port_eval =
  scif_rsrv_port_def scif_get_new_port_def idr_get_port_range_def scif_get_port_def
  scif_put_port_def ida_rsrv_port_def ida_get_new_port_def ida_get_port_range_def
  ida_get_port_def ida_put_port_def ida_init_def lowest_free_eval port_refs_def



text \<open>
  C17: Every result of an allocation. A port returned by \<open>scif_get_new_port\<close> lies between
  \<open>SCIF_PORT_RSVD + 1\<close> and \<open>SCIF_PORT_COUNT - 1\<close>, was not in use and is held once
  afterwards; \<open>scif_rsrv_port\<close> returns the port asked for or an error; a failure is
  \<open>-ENOMEM\<close>, or \<open>-ENOSPC\<close> with every port of the range in use, and changes nothing; no other
  port is touched.
\<close>

theorem port_alloc_results:
  assumes "alloc_contract pick" "ports_ok m"
    and "op = scif_get_new_port pick kz \<and> lo = SCIF_PORT_RSVD + 1 \<and> hi = SCIF_PORT_COUNT \<or>
         op = scif_rsrv_port pick kz port \<and> lo = uint port \<and> hi = uint port + 1"
    and "op m = (r, m')"
  shows "if r \<ge> 0
         then lo \<le> r \<and> r < hi \<and> port_refs m r = 0 \<and> port_refs m' r = 1 \<and>
              (\<forall>j. j \<noteq> r \<longrightarrow> port_refs m' j = port_refs m j) \<and> ports_ok m'
         else m' = m \<and> (r = - ENOMEM \<or> r = - ENOSPC \<and> (\<forall>j. lo \<le> j \<and> j < hi \<longrightarrow> port_refs m j > 0))"
proof -
  have lo: "0 \<le> lo" "hi \<le> SCIF_PORT_COUNT" and r: "idr_get_port_range pick kz lo hi m = (r, m')"
    using assms(3,4) uint16_bound [of port]
    by (auto simp: scif_get_new_port_def scif_rsrv_port_def)
  have err: "r = - ENOMEM \<or> r = - ENOSPC \<and> (\<forall>j. lo \<le> j \<and> j < hi \<longrightarrow> m j \<noteq> None)" if "r < 0"
  proof (cases kz)
    case True
    then have "r = pick (\<lambda>i. m i \<noteq> None) lo hi"
      using r by (auto simp: idr_get_port_range_def Let_def split: if_splits)
    with that assms(1) lo(1) show ?thesis unfolding alloc_contract_def by blast
  qed (use r in \<open>simp add: idr_get_port_range_def\<close>)
  show ?thesis
  proof (cases rule: alloc_range_cases [OF assms(1) r lo(1)])
    case 1
    with err port_refs_zero_iff [OF assms(2)] show ?thesis by (simp add: neq0_conv [symmetric] del: neq0_conv)
  next
    case 2
    with ports_ok_alloc [OF assms(1) r lo(1) assms(2) lo(2)] show ?thesis
      by (simp add: port_refs_def)
  qed
qed

lemma new_port_example:
  "scif_get_new_port lowest_free True [1089 \<mapsto> \<lparr>ref_cnt = 1\<rparr>] =
     (1090, [1089 \<mapsto> \<lparr>ref_cnt = 1\<rparr>, 1090 \<mapsto> \<lparr>ref_cnt = 1\<rparr>])"
  by (simp add: port_eval)

theorem port_alloc_results_witness:
  "let (r, m') = scif_get_new_port lowest_free True [1089 \<mapsto> \<lparr>ref_cnt = 1\<rparr>]
   in r = 1090 \<and> port_refs m' 1090 = 1 \<and> port_refs m' 1089 = 1"
  using port_alloc_results [OF lowest_free_contract, of "[1089 \<mapsto> \<lparr>ref_cnt = 1\<rparr>]"
      "scif_get_new_port lowest_free True" True 1089 "0x10000" 0, OF _ _ new_port_example]
  by (simp add: ports_ok_def port_refs_def new_port_example)

text \<open>
  C18: The two implementations of the file agree. Over any script of reservations,
  allocations, references and releases from the initial state, with any outcome of each memory
  allocation, they return the same port numbers and end with the same counts; the only
  difference is the error code where memory runs out, for which the \<open>ida\<close> implementation may
  report that the range is full.
\<close>

theorem port_variants_agree:
  assumes "alloc_contract pick"
  shows "list_all2 same_port_result (fst (ida_run pick ops ida_init)) (fst (idr_run pick ops Map.empty)) \<and>
         ida_abs (snd (ida_run pick ops ida_init)) = snd (idr_run pick ops Map.empty)"
  using ida_run_refines [OF assms ida_init_ok(1), of ops] by (simp add: ida_init_ok(2))

theorem port_variants_agree_witness:
  "fst (ida_run lowest_free [New True, Rsrv True 1090, Ref 1090, Unref 1090, Rsrv False 1090] ida_init)
     = [1089, 1090, - ENOSPC] \<and>
   list_all2 same_port_result [1089, 1090, - ENOSPC]
     (fst (idr_run lowest_free [New True, Rsrv True 1090, Ref 1090, Unref 1090, Rsrv False 1090] Map.empty))"
  using port_variants_agree [OF lowest_free_contract,
      of "[New True, Rsrv True 1090, Ref 1090, Unref 1090, Rsrv False 1090]"]
  by (simp add: port_eval)

end
