(* ===== verification/Iova.thy ===== *)
theory Iova
  imports Prelude "HOL-Library.Tree"
begin

text \<open>
  The allocator of registered address space (\<open>scif/iova.c\<close>, and \<open>reserve_iova_exclusive\<close>,
  \<open>scif_get_window_offset\<close> and \<open>scif_free_window_offset\<close> of \<open>scif/scif_rma.c\<close>): ranges of
  page frame numbers kept in a red-black tree ordered by their first page.

  The tree is a binary tree of ranges; a range carries the address of its node, by which the
  code refers to it. The descents are the code's; \<open>rb_insert_color\<close> and \<open>rb_erase\<close> of the
  kernel are the parameter \<open>rb\<close>, of which \<open>rb_contract\<close> asks that they keep the in-order
  sequence. \<open>rb_first\<close>, \<open>rb_last\<close>, \<open>rb_next\<close> and \<open>rb_prev\<close> walk that sequence. \<open>BUG()\<close> is
  \<open>None\<close>. Page frame numbers are \<open>unsigned long\<close>.
\<close>

section \<open>Definitions\<close>

record iova =
  node :: nat
  pfn_hi :: u64
  pfn_lo :: u64

record iova_domain =
  rbroot :: "iova tree"
  cached32_node :: "nat option"
  dma_32bit_pfn :: u64

record rb_ops =
  rb_insert_color :: "nat \<Rightarrow> iova tree \<Rightarrow> iova tree"
  rb_erase :: "nat \<Rightarrow> iova tree \<Rightarrow> iova tree"

definition rb_contract :: "rb_ops \<Rightarrow> bool" where
  "rb_contract rb \<longleftrightarrow>
     (\<forall>n t. inorder (rb_insert_color rb n t) = inorder t) \<and>
     (\<forall>n t. inorder (rb_erase rb n t) = filter (\<lambda>x. node x \<noteq> n) (inorder t))"

definition init_iova_domain :: "u64 \<Rightarrow> iova_domain" where
  "init_iova_domain pfn_32bit = \<lparr>rbroot = Leaf, cached32_node = None, dma_32bit_pfn = pfn_32bit\<rparr>"

text \<open>
  A position for \<open>rb_prev\<close> walks is the list of the nodes from it down to the first:
  \<open>rb_last\<close> is the whole sequence reversed.
\<close>

definition down_from_last :: "iova tree \<Rightarrow> iova list" where
  "down_from_last t = rev (inorder t)"

definition get_cached_rbnode :: "iova_domain \<Rightarrow> u64 \<Rightarrow> iova list \<times> u64" where
  "get_cached_rbnode iovad limit_pfn =
     (case (limit_pfn \<noteq> dma_32bit_pfn iovad, cached32_node iovad) of
        (False, Some c) \<Rightarrow>
          (case dropWhile (\<lambda>x. node x \<noteq> c) (down_from_last (rbroot iovad)) of
             cur # below \<Rightarrow> (below, pfn_lo cur - 1)
           | [] \<Rightarrow> ([], limit_pfn))
      | _ \<Rightarrow> (down_from_last (rbroot iovad), limit_pfn))"

definition cached_rbnode_insert_update :: "u64 \<Rightarrow> iova \<Rightarrow> iova_domain \<Rightarrow> iova_domain" where
  "cached_rbnode_insert_update limit_pfn new iovad =
     (if limit_pfn \<noteq> dma_32bit_pfn iovad then iovad
      else iovad\<lparr>cached32_node := Some (node new)\<rparr>)"

definition rb_next :: "iova tree \<Rightarrow> nat \<Rightarrow> iova option" where
  "rb_next t n =
     (case dropWhile (\<lambda>x. node x \<noteq> n) (inorder t) of _ # y # _ \<Rightarrow> Some y | _ \<Rightarrow> None)"

definition find_node :: "iova tree \<Rightarrow> nat \<Rightarrow> iova option" where
  "find_node t n = find (\<lambda>x. node x = n) (inorder t)"

definition cached_rbnode_delete_update :: "iova \<Rightarrow> iova_domain \<Rightarrow> iova_domain" where
  "cached_rbnode_delete_update free iovad =
     (case cached32_node iovad of
        None \<Rightarrow> iovad
      | Some cur \<Rightarrow>
          (case find_node (rbroot iovad) cur of
             None \<Rightarrow> iovad
           | Some cached_iova \<Rightarrow>
               if pfn_lo free \<ge> pfn_lo cached_iova then
                 (case rb_next (rbroot iovad) (node free) of
                    Some nxt \<Rightarrow>
                      if pfn_lo nxt < dma_32bit_pfn iovad
                      then iovad\<lparr>cached32_node := Some (node nxt)\<rparr>
                      else iovad\<lparr>cached32_node := None\<rparr>
                  | None \<Rightarrow> iovad\<lparr>cached32_node := None\<rparr>)
               else iovad))"

text \<open>\<open>ilog2\<close> and \<open>__roundup_pow_of_two\<close> of the kernel, for positive arguments.\<close>

fun ilog2 :: "nat \<Rightarrow> nat" where
  "ilog2 n = (if n \<le> 1 then 0 else Suc (ilog2 (n div 2)))"

declare ilog2.simps [simp del]

definition roundup_pow_of_two :: "u64 \<Rightarrow> u64" where
  "roundup_pow_of_two n = (if n \<le> 1 then 1 else push_bit (Suc (ilog2 (unat (n - 1)))) 1)"

text \<open>
  The parameters of \<open>iova_get_pad_size\<close> are an \<open>int\<close> and an \<open>unsigned int\<close>: both arguments are
  truncated.
\<close>

definition iova_get_pad_size :: "u32 \<Rightarrow> u32 \<Rightarrow> u32" where
  "iova_get_pad_size sz limit_pfn =
     (let order = ilog2 (unat sz)
      in if order \<noteq> 0 then (limit_pfn + 1) mod push_bit order 1 else 0)"

definition pad_for :: "bool \<Rightarrow> u64 \<Rightarrow> u64 \<Rightarrow> u64 \<Rightarrow> u64" where
  "pad_for size_aligned sz limit_pfn pad =
     (if size_aligned then ucast (iova_get_pad_size (ucast sz) (ucast limit_pfn)) else pad)"

text \<open>
  The backward walk: the node below the slot found (none at the bottom of the tree), the node
  visited before it, the limit and the padding.
\<close>

fun alloc_walk :: "u64 \<Rightarrow> bool \<Rightarrow> iova list \<Rightarrow> iova option \<Rightarrow> u64 \<Rightarrow> u64
    \<Rightarrow> iova option \<times> iova option \<times> u64 \<times> u64" where
  "alloc_walk sz size_aligned [] prev limit_pfn pad = (None, prev, limit_pfn, pad)"
| "alloc_walk sz size_aligned (cur # below) prev limit_pfn pad =
     (if limit_pfn < pfn_lo cur then alloc_walk sz size_aligned below (Some cur) limit_pfn pad
      else if limit_pfn < pfn_hi cur then
        alloc_walk sz size_aligned below (Some cur) (pfn_lo cur - 1) pad
      else
        let pad' = pad_for size_aligned sz limit_pfn pad
        in if pfn_hi cur + sz + pad' \<le> limit_pfn then (Some cur, prev, limit_pfn, pad')
           else alloc_walk sz size_aligned below (Some cur) (pfn_lo cur - 1) pad')"

text \<open>The descent to the place of a new node, below a given node; \<open>None\<close> on an equal key.\<close>

fun link_below :: "iova \<Rightarrow> iova tree \<Rightarrow> iova tree option" where
  "link_below new Leaf = Some (Node Leaf new Leaf)"
| "link_below new (Node l this r) =
     (if pfn_lo new < pfn_lo this then map_option (\<lambda>l'. Node l' this r) (link_below new l)
      else if pfn_lo new > pfn_lo this then map_option (\<lambda>r'. Node l this r') (link_below new r)
      else None)"

fun link_from :: "nat \<Rightarrow> iova \<Rightarrow> iova tree \<Rightarrow> iova tree option" where
  "link_from p new Leaf = None"
| "link_from p new (Node l this r) =
     (if node this = p then link_below new (Node l this r)
      else if p \<in> node ` set_tree l then map_option (\<lambda>l'. Node l' this r) (link_from p new l)
      else map_option (\<lambda>r'. Node l this r') (link_from p new r))"

definition alloc_and_insert_iova_range ::
    "rb_ops \<Rightarrow> iova_domain \<Rightarrow> u64 \<Rightarrow> u64 \<Rightarrow> nat \<Rightarrow> bool \<Rightarrow> (int + iova \<times> iova_domain) option" where
  "alloc_and_insert_iova_range rb iovad sz limit_pfn new size_aligned =
     (let saved_pfn = limit_pfn;
          (start, limit0) = get_cached_rbnode iovad limit_pfn;
          first = (case start of [] \<Rightarrow> None | x # _ \<Rightarrow> Some x);
          (cur, prev, limit1, pad1) = alloc_walk sz size_aligned start first limit0 0;
          pad = (if cur = None then pad_for size_aligned sz limit1 pad1 else pad1)
      in if cur = None \<and> 1 + sz + pad > limit1 then Some (Inl (- ENOMEM))
         else
           let lo = limit1 - (sz + pad) + 1;
               iova = \<lparr>node = new, pfn_hi = lo + sz - 1, pfn_lo = lo\<rparr>
           in map_option
                (\<lambda>t. Inr (iova, cached_rbnode_insert_update saved_pfn iova
                       (iovad\<lparr>rbroot := rb_insert_color rb new t\<rparr>)))
                (case prev of
                   Some p \<Rightarrow> link_from (node p) iova (rbroot iovad)
                 | None \<Rightarrow> link_below iova (rbroot iovad)))"

text \<open>\<open>alloc_iova_mem\<close> gives the address of the new node, or fails.\<close>

definition alloc_iova ::
    "rb_ops \<Rightarrow> nat option \<Rightarrow> iova_domain \<Rightarrow> u64 \<Rightarrow> u64 \<Rightarrow> bool \<Rightarrow> (iova option \<times> iova_domain) option" where
  "alloc_iova rb mem iovad sz limit_pfn size_aligned =
     (case mem of
        None \<Rightarrow> Some (None, iovad)
      | Some new \<Rightarrow>
          map_option
            (\<lambda>r. case r of Inl e \<Rightarrow> (None, iovad) | Inr (iova, d) \<Rightarrow> (Some iova, d))
            (alloc_and_insert_iova_range rb iovad
               (if size_aligned then roundup_pow_of_two sz else sz) limit_pfn new size_aligned))"

fun find_iova_from :: "iova tree \<Rightarrow> u64 \<Rightarrow> iova option" where
  "find_iova_from Leaf pfn = None"
| "find_iova_from (Node l iova r) pfn =
     (if pfn \<ge> pfn_lo iova \<and> pfn \<le> pfn_hi iova then Some iova
      else if pfn < pfn_lo iova then find_iova_from l pfn
      else find_iova_from r pfn)"

definition find_iova :: "iova_domain \<Rightarrow> u64 \<Rightarrow> iova option" where
  "find_iova iovad pfn = find_iova_from (rbroot iovad) pfn"

definition free_iova_node :: "rb_ops \<Rightarrow> iova \<Rightarrow> iova_domain \<Rightarrow> iova_domain" where
  "free_iova_node rb iova iovad =
     (let d = cached_rbnode_delete_update iova iovad
      in d\<lparr>rbroot := rb_erase rb (node iova) (rbroot d)\<rparr>)"

definition free_iova :: "rb_ops \<Rightarrow> u64 \<Rightarrow> iova_domain \<Rightarrow> iova_domain" where
  "free_iova rb pfn iovad =
     (case find_iova iovad pfn of Some iova \<Rightarrow> free_iova_node rb iova iovad | None \<Rightarrow> iovad)"

function put_iova_tree :: "rb_ops \<Rightarrow> iova tree \<Rightarrow> iova tree option" where
  "put_iova_tree rb t =
     (case inorder t of
        [] \<Rightarrow> Some t
      | first # rest \<Rightarrow>
          (let t' = rb_erase rb (node first) t
           in if size t' < size t then put_iova_tree rb t' else None))"
  by pat_completeness auto
termination
  by (relation "measure (\<lambda>(rb, t). size t)") auto

declare put_iova_tree.simps [simp del]

definition is_range_overlap :: "iova \<Rightarrow> u64 \<Rightarrow> u64 \<Rightarrow> bool" where
  "is_range_overlap iova lo hi \<longleftrightarrow> lo \<le> pfn_hi iova \<and> hi \<ge> pfn_lo iova"

definition insert_new_range ::
    "rb_ops \<Rightarrow> nat option \<Rightarrow> u64 \<Rightarrow> u64 \<Rightarrow> iova_domain \<Rightarrow> (iova option \<times> iova_domain) option" where
  "insert_new_range rb mem lo hi iovad =
     (case mem of
        None \<Rightarrow> Some (None, iovad)
      | Some new \<Rightarrow>
          (let iova = \<lparr>node = new, pfn_hi = hi, pfn_lo = lo\<rparr>
           in map_option (\<lambda>t. (Some iova, iovad\<lparr>rbroot := rb_insert_color rb new t\<rparr>))
                (link_below iova (rbroot iovad))))"

definition reserve_iova_exclusive ::
    "rb_ops \<Rightarrow> nat option \<Rightarrow> u64 \<Rightarrow> u64 \<Rightarrow> iova_domain \<Rightarrow> (iova option \<times> iova_domain) option" where
  "reserve_iova_exclusive rb mem lo hi iovad =
     (if \<exists>x\<in>set (inorder (rbroot iovad)). is_range_overlap x lo hi then Some (None, iovad)
      else insert_new_range rb mem lo hi iovad)"

text \<open>
  The offsets of registered windows: a claimed page range of the endpoint's domain. \<open>fixed\<close> is
  \<open>flags & SCIF_MAP_FIXED\<close>; the offset is not negative and \<open>num_pages\<close> is a positive \<open>int\<close>.
\<close>

abbreviation SCIF_DMA_64BIT_PFN :: u64 where "SCIF_DMA_64BIT_PFN \<equiv> 2 ^ 52 - 1"
abbreviation SCIF_DMA_63BIT_PFN :: u64 where "SCIF_DMA_63BIT_PFN \<equiv> 2 ^ 51 - 1"

definition scif_get_window_offset ::
    "rb_ops \<Rightarrow> nat option \<Rightarrow> bool \<Rightarrow> u64 \<Rightarrow> u64 \<Rightarrow> iova_domain \<Rightarrow> (int \<times> u64 \<times> iova_domain) option" where
  "scif_get_window_offset rb mem fixed offset num_pages iovad =
     (let page_index = drop_bit 12 offset;
          r = (if fixed
               then reserve_iova_exclusive rb mem page_index (page_index + num_pages - 1) iovad
               else alloc_iova rb mem iovad num_pages (SCIF_DMA_63BIT_PFN - 1) False)
      in map_option
           (\<lambda>(iova_ptr, d).
              case iova_ptr of
                None \<Rightarrow> (if fixed then - EADDRINUSE else - ENOMEM, 0, d)
              | Some a \<Rightarrow> (0, push_bit 12 (pfn_lo a), d))
           r)"

text \<open>\<open>window\<close> is the \<open>offset_freed\<close> flag of the window, if there is a window.\<close>

definition scif_free_window_offset ::
    "rb_ops \<Rightarrow> bool option \<Rightarrow> u64 \<Rightarrow> iova_domain \<Rightarrow> bool option \<times> iova_domain" where
  "scif_free_window_offset rb window offset iovad =
     (if window \<noteq> Some True
      then (map_option (\<lambda>_. True) window, free_iova rb (drop_bit 12 offset) iovad)
      else (window, iovad))"

section \<open>The invariant\<close>

text \<open>
  A domain is well formed if its ranges are disjoint, ascending in the order of the tree and
  within the 52-bit space of page frame numbers above page 0, its nodes are distinct, and the
  cached node is one of them, starting no higher than the limit it is cached for.
\<close>

definition below :: "iova \<Rightarrow> iova \<Rightarrow> bool" where
  "below a b \<longleftrightarrow> pfn_hi a < pfn_lo b"

definition range_ok :: "iova \<Rightarrow> bool" where
  "range_ok a \<longleftrightarrow> 1 \<le> pfn_lo a \<and> pfn_lo a \<le> pfn_hi a \<and> pfn_hi a < 2 ^ 52"

definition iovas_ok :: "iova list \<Rightarrow> bool" where
  "iovas_ok xs \<longleftrightarrow> sorted_wrt below xs \<and> (\<forall>a\<in>set xs. range_ok a) \<and> distinct (map node xs)"

definition domain_ok :: "iova_domain \<Rightarrow> bool" where
  "domain_ok d \<longleftrightarrow> iovas_ok (inorder (rbroot d)) \<and>
     (\<forall>c. cached32_node d = Some c \<longrightarrow>
        (\<exists>a\<in>set (inorder (rbroot d)). node a = c \<and> pfn_lo a \<le> dma_32bit_pfn d))"

text \<open>The pages of a range and of a domain.\<close>

definition pages :: "iova \<Rightarrow> u64 set" where
  "pages a = {pfn_lo a .. pfn_hi a}"

definition used_pages :: "iova_domain \<Rightarrow> u64 set" where
  "used_pages d = (\<Union>a\<in>set (inorder (rbroot d)). pages a)"

lemma below_trans: "below a b \<Longrightarrow> below b c \<Longrightarrow> range_ok b \<Longrightarrow> below a c"
  by (auto simp: below_def range_ok_def)

lemma below_lo: "below a b \<Longrightarrow> range_ok a \<Longrightarrow> pfn_lo a < pfn_lo b"
  by (auto simp: below_def range_ok_def)

section \<open>Insertion\<close>

text \<open>Where a new range belongs in an ascending sequence.\<close>

fun place :: "iova \<Rightarrow> iova list \<Rightarrow> iova list" where
  "place x [] = [x]"
| "place x (y # ys) = (if pfn_lo x < pfn_lo y then x # y # ys else y # place x ys)"

lemma set_place: "set (place x xs) = insert x (set xs)"
  by (induction xs) auto

lemma place_before: "\<forall>b\<in>set ys. pfn_lo x < pfn_lo b \<Longrightarrow> place x (xs @ ys) = place x xs @ ys"
  by (induction xs) (auto, cases ys, auto)

lemma place_after: "\<forall>a\<in>set xs. pfn_lo a < pfn_lo x \<Longrightarrow> place x (xs @ ys) = xs @ place x ys"
  by (induction xs) auto

lemma link_below_place:
  assumes "sorted_wrt (\<lambda>a b. pfn_lo a < pfn_lo b) (inorder t)" "\<forall>a\<in>set_tree t. pfn_lo a \<noteq> pfn_lo x"
  shows "\<exists>t'. link_below x t = Some t' \<and> inorder t' = place x (inorder t)"
  using assms
proof (induction t)
  case (Node l a r)
  then have sorted: "sorted_wrt (\<lambda>a b. pfn_lo a < pfn_lo b) (inorder l)"
      "sorted_wrt (\<lambda>a b. pfn_lo a < pfn_lo b) (inorder r)"
      "\<forall>b\<in>set (inorder l). pfn_lo b < pfn_lo a" "\<forall>b\<in>set (inorder r). pfn_lo a < pfn_lo b"
    by (auto simp: sorted_wrt_append)
  show ?case
  proof (cases "pfn_lo x < pfn_lo a")
    case True
    with Node.IH(1) sorted(1) Node.prems(2) obtain t' where
      "link_below x l = Some t'" "inorder t' = place x (inorder l)" by auto
    moreover have "\<forall>b\<in>set (a # inorder r). pfn_lo x < pfn_lo b"
      using True sorted(4) by auto
    ultimately show ?thesis
      using True by (simp add: place_before)
  next
    case False
    with Node.prems(2) have gt: "pfn_lo a < pfn_lo x" by (auto simp: not_less le_less)
    with Node.IH(2) sorted(2) Node.prems(2) obtain t' where
      "link_below x r = Some t'" "inorder t' = place x (inorder r)" by auto
    moreover have "\<forall>b\<in>set (inorder l @ [a]). pfn_lo b < pfn_lo x"
      using gt sorted(3) by auto
    then have "place x ((inorder l @ [a]) @ inorder r) = (inorder l @ [a]) @ place x (inorder r)"
      by (rule place_after)
    ultimately show ?thesis
      using gt False by auto
  qed
qed simp

text \<open>
  The descent may start at a node \<open>p\<close> other than the root, provided no other key lies between
  \<open>p\<close> and the new one: the subtree of \<open>p\<close> then contains the place.
\<close>

definition adjacent :: "iova \<Rightarrow> iova \<Rightarrow> iova set \<Rightarrow> bool" where
  "adjacent p x S \<longleftrightarrow> (\<forall>y\<in>S. \<not> (pfn_lo p < pfn_lo y \<and> pfn_lo y < pfn_lo x) \<and>
                           \<not> (pfn_lo x < pfn_lo y \<and> pfn_lo y < pfn_lo p))"

lemma link_from_place:
  assumes "sorted_wrt (\<lambda>a b. pfn_lo a < pfn_lo b) (inorder t)" "distinct (map node (inorder t))"
    and "\<forall>a\<in>set_tree t. pfn_lo a \<noteq> pfn_lo x" "p \<in> set_tree t" "adjacent p x (set_tree t)"
  shows "\<exists>t'. link_from (node p) x t = Some t' \<and> inorder t' = place x (inorder t)"
  using assms
proof (induction t)
  case (Node l a r)
  have sorted: "sorted_wrt (\<lambda>a b. pfn_lo a < pfn_lo b) (inorder l)"
      "sorted_wrt (\<lambda>a b. pfn_lo a < pfn_lo b) (inorder r)"
      "\<forall>b\<in>set_tree l. pfn_lo b < pfn_lo a" "\<forall>b\<in>set_tree r. pfn_lo a < pfn_lo b"
    using Node.prems(1) by (auto simp: sorted_wrt_append)
  have uniq: "distinct (map node (inorder l))" "distinct (map node (inorder r))"
      "node a \<notin> node ` set_tree l" "node a \<notin> node ` set_tree r"
      "node ` set_tree l \<inter> node ` set_tree r = {}"
    using Node.prems(2) by auto
  have adj: "adjacent p x (set_tree l)" "adjacent p x (set_tree r)" "adjacent p x {a}"
    using Node.prems(5) by (auto simp: adjacent_def)
  consider "p = a" | "p \<in> set_tree l" | "p \<in> set_tree r"
    using Node.prems(4) by auto
  then show ?case
  proof cases
    case 1
    then show ?thesis
      using link_below_place [OF Node.prems(1,3)] by simp
  next
    case 2
    have "\<not> pfn_lo a < pfn_lo x" using adj(3) 2 sorted(3) by (auto simp: adjacent_def)
    then have lt: "pfn_lo x < pfn_lo a" using Node.prems(3) by (auto simp: not_less le_less)
    have "node a \<noteq> node p" "node p \<in> node ` set_tree l" using 2 uniq(3) by auto
    moreover obtain t' where "link_from (node p) x l = Some t'" "inorder t' = place x (inorder l)"
      using Node.IH(1) [OF sorted(1) uniq(1) _ 2 adj(1)] Node.prems(3) by auto
    moreover have "\<forall>b\<in>set (a # inorder r). pfn_lo x < pfn_lo b" using lt sorted(4) by auto
    ultimately show ?thesis by (simp add: place_before)
  next
    case 3
    have "\<not> pfn_lo x < pfn_lo a" using adj(3) 3 sorted(4) by (auto simp: adjacent_def)
    then have gt: "pfn_lo a < pfn_lo x" using Node.prems(3) by (auto simp: not_less le_less)
    have "node a \<noteq> node p" "node p \<notin> node ` set_tree l" using 3 uniq(4,5) by auto
    moreover obtain t' where "link_from (node p) x r = Some t'" "inorder t' = place x (inorder r)"
      using Node.IH(2) [OF sorted(2) uniq(2) _ 3 adj(2)] Node.prems(3) by auto
    moreover have "\<forall>b\<in>set (inorder l @ [a]). pfn_lo b < pfn_lo x" using gt sorted(3) by auto
    then have "place x ((inorder l @ [a]) @ inorder r) = (inorder l @ [a]) @ place x (inorder r)"
      by (rule place_after)
    ultimately show ?thesis by simp
  qed
qed simp

section \<open>The walk\<close>

lemma word_sub_one: "(1 :: u64) \<le> x \<Longrightarrow> unat (x - 1) = unat x - 1"
  by (simp add: unat_sub word_le_nat_alt)

lemma dec_less: "(1 :: u64) \<le> x \<Longrightarrow> x - 1 < x"
  by (simp add: word_less_nat_alt word_le_nat_alt word_sub_one)

lemma dec_le: "(1 :: u64) \<le> x \<Longrightarrow> x \<le> y \<Longrightarrow> x - 1 \<le> y"
  using dec_less [of x] by simp

definition opt_list :: "'a option \<Rightarrow> 'a list" where
  "opt_list o' = (case o' of None \<Rightarrow> [] | Some c \<Rightarrow> [c])"

definition walk_post :: "u64 \<Rightarrow> bool \<Rightarrow> iova list \<Rightarrow> iova option \<Rightarrow> u64 \<Rightarrow> u64
    \<Rightarrow> iova option \<times> iova option \<times> u64 \<times> u64 \<Rightarrow> bool" where
  "walk_post sz al rs prev limit pad res \<longleftrightarrow>
     (case res of (cur, prev', limit', pad') \<Rightarrow>
        limit' \<le> limit \<and>
        (\<exists>above rest. rs = above @ opt_list cur @ rest \<and> (cur = None \<longrightarrow> rest = []) \<and>
            prev' = (if above = [] then prev else Some (last above)) \<and>
            (\<forall>a\<in>set above. limit' < pfn_lo a)) \<and>
        (\<forall>c. cur = Some c \<longrightarrow> pfn_hi c \<le> limit' \<and> pfn_hi c + sz + pad' \<le> limit' \<and>
              (al \<longrightarrow> pad' = pad_for al sz limit' 0)) \<and>
        (\<not> al \<longrightarrow> pad' = pad))"

lemma walk_post_step:
  assumes "walk_post sz al cs (Some c) limit1 pad1 res" "limit1 \<le> limit" "limit1 < pfn_lo c"
    and "\<not> al \<Longrightarrow> pad1 = pad"
  shows "walk_post sz al (c # cs) prev limit pad res"
proof -
  obtain cur prev' limit' pad' where res: "res = (cur, prev', limit', pad')" by (cases res)
  from assms(1) obtain above rest where a: "cs = above @ opt_list cur @ rest" "cur = None \<longrightarrow> rest = []"
      "prev' = (if above = [] then Some c else Some (last above))" "\<forall>a\<in>set above. limit' < pfn_lo a"
    unfolding walk_post_def res by auto
  have l: "limit' \<le> limit1" using assms(1) by (simp add: walk_post_def res)
  then have "limit' < pfn_lo c" using assms(3) by (rule order.strict_trans1)
  then have "\<exists>above rest. c # cs = above @ opt_list cur @ rest \<and> (cur = None \<longrightarrow> rest = []) \<and>
          prev' = (if above = [] then prev else Some (last above)) \<and>
          (\<forall>a\<in>set above. limit' < pfn_lo a)"
    using a by (intro exI [of _ "c # above"] exI [of _ rest]) simp
  moreover have "limit' \<le> limit" using l assms(2) by (rule order.trans)
  ultimately show ?thesis
    using assms(1,4) unfolding walk_post_def res prod.case by blast
qed

lemma walk_result:
  assumes "\<forall>a\<in>set rs. range_ok a"
  shows "walk_post sz al rs prev limit pad (alloc_walk sz al rs prev limit pad)"
  using assms
proof (induction sz al rs prev limit pad rule: alloc_walk.induct)
  case (1 sz al prev limit pad)
  then show ?case by (simp add: walk_post_def opt_list_def)
next
  case (2 sz al c cs prev limit pad)
  have ok: "range_ok c" "\<forall>a\<in>set cs. range_ok a" using "2.prems"(1) by auto
  have dec: "pfn_lo c - 1 < pfn_lo c" using ok(1) by (simp add: range_ok_def dec_less)
  have pad: "\<not> al \<Longrightarrow> pad_for al sz limit pad = pad" by (simp add: pad_for_def)
  show ?case
  proof (cases "limit < pfn_lo c")
    case True
    with walk_post_step [OF "2.IH"(1) [OF True ok(2)] order_refl True] show ?thesis
      by simp
  next
    case lo: False
    then have le: "pfn_lo c - 1 \<le> limit" using dec by simp
    show ?thesis
    proof (cases "limit < pfn_hi c")
      case True
      with lo walk_post_step [OF "2.IH"(2) [OF lo True ok(2)] le dec] show ?thesis
        by simp
    next
      case hi: False
      show ?thesis
      proof (cases "pfn_hi c + sz + pad_for al sz limit pad \<le> limit")
        case True
        with lo hi show ?thesis
          by (auto simp: walk_post_def opt_list_def Let_def pad_for_def not_less intro!: exI [of _ "[]"])
      next
        case False
        with lo hi walk_post_step [OF "2.IH"(3) [OF lo hi refl False ok(2)] le dec pad] show ?thesis
          by (simp add: Let_def)
      qed
    qed
  qed
qed

section \<open>Allocation\<close>

lemma ilog2_le: "1 \<le> n \<Longrightarrow> 2 ^ ilog2 n \<le> n"
proof (induction n rule: ilog2.induct)
  case (1 n)
  show ?case
  proof (cases "n \<le> 1")
    case False
    then have "2 ^ ilog2 (n div 2) \<le> n div 2" using 1 by simp
    with False show ?thesis by (subst ilog2.simps) simp
  qed (use 1 in \<open>simp add: ilog2.simps\<close>)
qed

lemma pad_less:
  assumes "1 \<le> unat sz" "unat sz < 2 ^ 31"
  shows "unat (pad_for al sz limit 0) < unat sz"
proof (cases al)
  case True
  define s32 where "s32 = (ucast sz :: u32)"
  have s: "unat s32 = unat sz"
    using assms by (simp add: s32_def unsigned_ucast_eq take_bit_nat_eq_self)
  let ?k = "ilog2 (unat s32)"
  have k: "2 ^ ?k \<le> unat sz" using ilog2_le [of "unat s32"] assms s by simp
  then have "(2 :: nat) ^ ?k < 2 ^ 31" using assms by linarith
  then have k31: "?k < 31" by (rule power_less_imp_less_exp [rotated]) simp
  then have two: "unat (push_bit ?k 1 :: u32) = 2 ^ ?k"
    by (simp add: push_bit_eq_mult unat_two_pow)
  have "unat (iova_get_pad_size s32 l) < unat sz" for l
  proof (cases "?k = 0")
    case False
    have "unat ((l + 1) mod push_bit ?k 1) < 2 ^ ?k"
      by (simp only: unat_mod two) simp
    with False k show ?thesis by (simp add: iova_get_pad_size_def Let_def)
  qed (use assms in \<open>simp add: iova_get_pad_size_def\<close>)
  from this [of "ucast limit"] True show ?thesis
    by (simp add: pad_for_def s32_def [symmetric] unsigned_ucast_eq
        le_less_trans [OF take_bit_nat_less_eq_self])
next
  case False
  then show ?thesis using assms by (simp add: pad_for_def)
qed

lemma slot_bounds:
  fixes sz pad base limit :: u64
  assumes "1 \<le> unat sz" "unat sz + unat pad \<le> 2 ^ 32" "unat base < 2 ^ 52" "unat limit < 2 ^ 52"
    and "base + sz + pad \<le> limit"
  defines "lo \<equiv> limit - (sz + pad) + 1"
  shows "base < lo" "lo \<le> lo + sz - 1" "lo + sz - 1 = limit - pad" "lo + sz - 1 \<le> limit"
    and "unat (lo + sz - 1) - unat lo + 1 = unat sz"
proof -
  have sp: "unat (sz + pad) = unat sz + unat pad"
    using assms(2) by (simp add: unat_word_ariths)
  have bsp: "unat (base + sz + pad) = unat base + unat sz + unat pad"
    using assms(2,3) by (simp add: unat_word_ariths)
  have fit: "unat base + unat sz + unat pad \<le> unat limit"
    using assms(5) bsp by (simp add: word_le_nat_alt)
  have sub: "unat (limit - (sz + pad)) = unat limit - (unat sz + unat pad)"
    using fit sp by (subst unat_sub) (simp_all add: word_le_nat_alt)
  have lo: "unat lo = unat limit - (unat sz + unat pad) + 1"
    using sub assms(4) by (simp add: lo_def unat_word_ariths)
  have hi: "lo + sz - 1 = limit - pad" by (simp add: lo_def)
  have uhi: "unat (limit - pad) = unat limit - unat pad"
    using fit by (subst unat_sub) (simp_all add: word_le_nat_alt)
  show "base < lo" using lo fit by (simp add: word_less_nat_alt)
  show "lo + sz - 1 = limit - pad" by (rule hi)
  show "lo \<le> lo + sz - 1" using lo uhi fit assms(1) unfolding hi by (simp add: word_le_nat_alt)
  show "lo + sz - 1 \<le> limit" using uhi unfolding hi by (simp add: word_le_nat_alt)
  show "unat (lo + sz - 1) - unat lo + 1 = unat sz"
    using lo uhi fit assms(1) unfolding hi by simp
qed

lemma iovas_ok_appendD:
  assumes "iovas_ok (xs @ ys)"
  shows "\<forall>x\<in>set xs. \<forall>y\<in>set ys. below x y"
  using assms by (auto simp: iovas_ok_def sorted_wrt_append)

lemma place_between:
  assumes "iovas_ok (xs @ ys)" "range_ok new" "\<forall>x\<in>set xs. below x new" "\<forall>y\<in>set ys. below new y"
    and "node new \<notin> node ` set (xs @ ys)"
  shows "iovas_ok (xs @ new # ys)" "place new (xs @ ys) = xs @ new # ys"
    and "\<forall>a\<in>set (xs @ ys). pfn_lo a \<noteq> pfn_lo new"
proof -
  show "iovas_ok (xs @ new # ys)"
    using assms by (auto simp: iovas_ok_def sorted_wrt_append)
  have lt: "\<forall>x\<in>set xs. pfn_lo x < pfn_lo new"
    using assms(1,3) by (auto simp: iovas_ok_def intro: below_lo)
  have gt: "\<forall>y\<in>set ys. pfn_lo new < pfn_lo y"
    using assms(2,4) by (auto intro: below_lo)
  show "place new (xs @ ys) = xs @ new # ys"
    using place_after [OF lt, of ys] gt by (cases ys) auto
  show "\<forall>a\<in>set (xs @ ys). pfn_lo a \<noteq> pfn_lo new"
    using lt gt by auto
qed

lemma iovas_ok_sorted_lo: "iovas_ok xs \<Longrightarrow> sorted_wrt (\<lambda>a b. pfn_lo a < pfn_lo b) xs"
  by (rule sorted_wrt_mono_rel [of _ below]) (auto simp: iovas_ok_def intro: below_lo)

lemma adjacent_between:
  assumes "iovas_ok (xs @ ys)" "range_ok new" "\<forall>x\<in>set xs. below x new" "\<forall>y\<in>set ys. below new y"
    and "xs \<noteq> [] \<and> p = last xs \<or> ys \<noteq> [] \<and> p = hd ys"
  shows "adjacent p new (set (xs @ ys))"
proof -
  note sorted = iovas_ok_sorted_lo [OF assms(1)]
  have lt: "\<forall>x\<in>set xs. pfn_lo x < pfn_lo new"
    using assms(1,3) by (auto simp: iovas_ok_def intro: below_lo)
  have gt: "\<forall>y\<in>set ys. pfn_lo new < pfn_lo y"
    using assms(2,4) by (auto intro: below_lo)
  from assms(5) show ?thesis
  proof
    assume "xs \<noteq> [] \<and> p = last xs"
    then obtain xs' where "xs = xs' @ [p]" by (metis append_butlast_last_id)
    with sorted lt gt show ?thesis by (fastforce simp: adjacent_def sorted_wrt_append)
  next
    assume "ys \<noteq> [] \<and> p = hd ys"
    then obtain ys' where "ys = p # ys'" by (cases ys) auto
    with sorted lt gt show ?thesis by (fastforce simp: adjacent_def sorted_wrt_append)
  qed
qed

lemma start_shape:
  assumes "domain_ok d" "get_cached_rbnode d limit = (start, limit0)"
  obtains over where "rev (inorder (rbroot d)) = over @ start" "\<forall>a\<in>set over. limit0 < pfn_lo a"
    "limit0 \<le> limit"
proof (cases "limit = dma_32bit_pfn d \<and> cached32_node d \<noteq> None")
  case False
  then have "start = rev (inorder (rbroot d))" "limit0 = limit"
    using assms(2) by (auto simp: get_cached_rbnode_def down_from_last_def split: bool.splits option.splits)
  then show thesis by (intro that [of "[]"]) auto
next
  case True
  then obtain c where c: "cached32_node d = Some c" by blast
  let ?xs = "rev (inorder (rbroot d))"
  obtain a where a: "a \<in> set ?xs" "node a = c" "pfn_lo a \<le> limit"
    using assms(1) c True by (auto simp: domain_ok_def)
  obtain us vs where split: "?xs = us @ a # vs" "\<forall>x\<in>set us. node x \<noteq> c"
  proof -
    obtain us y vs where "?xs = us @ y # vs" "node y = c" "\<forall>x\<in>set us. node x \<noteq> c"
      using split_list_first_propE [of ?xs "\<lambda>x. node x = c"] a by blast
    moreover have "y = a"
    proof -
      have "inj_on node (set ?xs)" using assms(1) by (simp add: domain_ok_def iovas_ok_def distinct_map)
      moreover have "y \<in> set ?xs" using \<open>?xs = us @ y # vs\<close> by (metis in_set_conv_decomp)
      ultimately show ?thesis using a \<open>node y = c\<close> by (meson inj_onD)
    qed
    ultimately show ?thesis using that by blast
  qed
  have "dropWhile (\<lambda>x. node x \<noteq> c) ?xs = a # vs"
    using split a(2) by (simp add: dropWhile_append3 dropWhile_append2)
  then have s: "start = vs" "limit0 = pfn_lo a - 1"
    using assms(2) c True by (auto simp: get_cached_rbnode_def down_from_last_def)
  have ok: "iovas_ok (rev vs @ a # rev us)"
    using assms(1) arg_cong [OF split(1), of rev] by (simp add: domain_ok_def)
  have ra: "range_ok a" using ok by (simp add: iovas_ok_def)
  then have dec: "pfn_lo a - 1 < pfn_lo a" by (simp add: range_ok_def dec_less)
  have "pfn_lo a < pfn_lo x" if "x \<in> set us" for x
    using ok that ra by (auto simp: iovas_ok_def sorted_wrt_append intro: below_lo)
  with dec have "\<forall>x\<in>set (us @ [a]). limit0 < pfn_lo x"
    unfolding s(2) by (auto intro: order.strict_trans)
  moreover have "limit0 \<le> limit" using s(2) dec a(3) by (simp add: order.strict_implies_order
      order.trans)
  ultimately show thesis using split(1) s(1) by (intro that [of "us @ [a]"]) simp_all
qed

lemma walk_pad:
  assumes "walk_post sz al rs prev limit 0 (cur, prev', limit', pad')"
  shows "(if cur = None then pad_for al sz limit' pad' else pad') = pad_for al sz limit' 0"
  using assms by (cases cur) (auto simp: walk_post_def pad_for_def)

definition slot :: "nat \<Rightarrow> u64 \<Rightarrow> u64 \<Rightarrow> u64 \<Rightarrow> iova" where
  "slot new limit sz pad =
     (let lo = limit - (sz + pad) + 1 in \<lparr>node = new, pfn_hi = lo + sz - 1, pfn_lo = lo\<rparr>)"

lemma slot_fits:
  assumes "ys = rev upper @ rev over"
    and "xs = rev rest @ opt_list cur" "iovas_ok (xs @ ys)"
    and "\<forall>a\<in>set (over @ upper). limit < pfn_lo a" "cur = None \<longrightarrow> rest = []"
    and "1 \<le> unat sz" "unat sz < 2 ^ 31" "unat limit < 2 ^ 52"
    and "(case cur of Some c \<Rightarrow> pfn_hi c | None \<Rightarrow> 1) + sz + pad_for al sz limit 0 \<le> limit"
    and "new = slot n limit sz (pad_for al sz limit 0)"
  shows "range_ok new" "\<forall>x\<in>set xs. below x new" "\<forall>y\<in>set ys. below new y" "pfn_hi new \<le> limit"
    and "unat (pfn_hi new) - unat (pfn_lo new) + 1 = unat sz"
proof -
  let ?pad = "pad_for al sz limit 0"
  let ?base = "case cur of Some c \<Rightarrow> pfn_hi c | None \<Rightarrow> 1"
  have cur_ok: "range_ok c" if "cur = Some c" for c
    using assms(2,3) that by (simp add: iovas_ok_def opt_list_def)
  have "unat ?base < 2 ^ 52 \<and> 1 \<le> ?base"
    using cur_ok by (cases cur) (auto simp: range_ok_def word_less_nat_alt intro: order.trans)
  then have base: "unat ?base < 2 ^ 52" "1 \<le> ?base" by auto
  have "unat sz + unat ?pad \<le> 2 ^ 32"
    using pad_less [OF assms(6,7), of al limit] assms(7) by simp
  note b = slot_bounds [OF assms(6) this base(1) assms(8,9)]
  have new: "pfn_lo new = limit - (sz + ?pad) + 1" "pfn_hi new = limit - (sz + ?pad) + 1 + sz - 1"
    by (simp_all add: assms(10) slot_def Let_def)
  show hi: "pfn_hi new \<le> limit" unfolding new by (rule b(4))
  show "unat (pfn_hi new) - unat (pfn_lo new) + 1 = unat sz" unfolding new by (rule b(5))
  have lo: "?base < pfn_lo new" unfolding new by (rule b(1))
  have "limit < 2 ^ 52" using assms(8) by (simp add: word_less_nat_alt)
  then show "range_ok new"
    unfolding range_ok_def using lo base(2) hi b(2) new by (auto intro: order.strict_trans1)
  show "\<forall>y\<in>set ys. below new y"
  proof
    fix y assume "y \<in> set ys"
    then have "y \<in> set (over @ upper)"
      using assms(1) by auto
    with assms(4) hi show "below new y" by (auto simp: below_def intro: order.strict_trans1)
  qed
  show "\<forall>x\<in>set xs. below x new"
  proof
    fix x assume x: "x \<in> set xs"
    then obtain c where c: "cur = Some c" using assms(2,5) by (cases cur) (auto simp: opt_list_def)
    have "pfn_hi x \<le> pfn_hi c"
      using x c assms(2,3) cur_ok [OF c]
      by (auto simp: opt_list_def iovas_ok_def sorted_wrt_append below_def range_ok_def)
    with lo c show "below x new" by (simp add: below_def order.strict_trans1)
  qed
qed

lemma insert_link:
  assumes "inorder t = xs @ ys" "iovas_ok (xs @ ys)" "range_ok a" "\<forall>x\<in>set xs. below x a"
    and "\<forall>y\<in>set ys. below a y" "node a \<notin> node ` set (xs @ ys)"
    and "\<forall>p. prev = Some p \<longrightarrow> xs \<noteq> [] \<and> p = last xs \<or> ys \<noteq> [] \<and> p = hd ys"
  shows "\<exists>t'. (case prev of Some p \<Rightarrow> link_from (node p) a t | None \<Rightarrow> link_below a t) = Some t' \<and>
              inorder t' = xs @ a # ys"
proof -
  note b = place_between [OF assms(2-6)]
  have tree: "set_tree t = set (xs @ ys)" using assms(1) by (metis set_inorder)
  have sorted: "sorted_wrt (\<lambda>a b. pfn_lo a < pfn_lo b) (inorder t)"
    unfolding assms(1) by (rule iovas_ok_sorted_lo [OF assms(2)])
  have ne: "\<forall>x\<in>set_tree t. pfn_lo x \<noteq> pfn_lo a" unfolding tree by (rule b(3))
  show ?thesis
  proof (cases prev)
    case None
    with link_below_place [OF sorted ne] show ?thesis by (simp add: assms(1) b(2))
  next
    case (Some p)
    with assms(7) have p: "xs \<noteq> [] \<and> p = last xs \<or> ys \<noteq> [] \<and> p = hd ys" by blast
    have "distinct (map node (inorder t))" using assms(1,2) by (simp add: iovas_ok_def)
    moreover have "p \<in> set_tree t" using p unfolding tree by (auto intro: last_in_set hd_in_set)
    moreover have "adjacent p a (set_tree t)"
      unfolding tree by (rule adjacent_between [OF assms(2-5) p])
    ultimately show ?thesis
      using link_from_place [OF sorted _ ne] Some by (simp add: assms(1) b(2))
  qed
qed

text \<open>
  One allocation, seen as the split of the sequence of ranges at which the walk stops: \<open>prev\<close>
  is the last range below the split or the first above it.
\<close>

lemma alloc_split:
  assumes "domain_ok d"
  obtains cur prev limit1 upper over rest where
    "inorder (rbroot d) = (rev rest @ opt_list cur) @ (rev upper @ rev over)" "cur = None \<longrightarrow> rest = []"
    "\<forall>a\<in>set (over @ upper). limit1 < pfn_lo a" "limit1 \<le> limit"
    "\<forall>p. prev = Some p \<longrightarrow> rev rest @ opt_list cur \<noteq> [] \<and> p = last (rev rest @ opt_list cur) \<or>
       rev upper @ rev over \<noteq> [] \<and> p = hd (rev upper @ rev over)"
    "\<forall>c. cur = Some c \<longrightarrow> pfn_hi c + sz + pad_for al sz limit1 0 \<le> limit1"
    "\<forall>rb new. alloc_and_insert_iova_range rb d sz limit new al =
      (if cur = None \<and> 1 + sz + pad_for al sz limit1 0 > limit1 then Some (Inl (- ENOMEM))
       else let a = slot new limit1 sz (pad_for al sz limit1 0)
            in map_option (\<lambda>t. Inr (a, cached_rbnode_insert_update limit a
                 (d\<lparr>rbroot := rb_insert_color rb new t\<rparr>)))
               (case prev of Some p \<Rightarrow> link_from (node p) a (rbroot d) | None \<Rightarrow> link_below a (rbroot d)))"
proof -
  obtain start limit0 where start: "get_cached_rbnode d limit = (start, limit0)" by fastforce
  obtain over where over: "rev (inorder (rbroot d)) = over @ start" "\<forall>a\<in>set over. limit0 < pfn_lo a"
      "limit0 \<le> limit"
    using start_shape [OF assms start] by blast
  define prev0 where "prev0 = (case start of [] \<Rightarrow> None | x # _ \<Rightarrow> Some x)"
  obtain cur prev limit1 pad1 where walk: "alloc_walk sz al start prev0 limit0 0 = (cur, prev, limit1, pad1)"
    using prod_cases4 by blast
  have "set start \<subseteq> set (rev (inorder (rbroot d)))" unfolding over(1) by auto
  then have "\<forall>a\<in>set start. range_ok a" using assms by (auto simp: domain_ok_def iovas_ok_def)
  from walk_result [OF this, of sz al prev0 limit0 0]
  have post: "walk_post sz al start prev0 limit0 0 (cur, prev, limit1, pad1)" by (simp add: walk)
  obtain upper rest where w: "start = upper @ opt_list cur @ rest" "cur = None \<longrightarrow> rest = []"
      "prev = (if upper = [] then prev0 else Some (last upper))" "\<forall>a\<in>set upper. limit1 < pfn_lo a"
    using post unfolding walk_post_def prod.case by blast
  have lim: "limit1 \<le> limit0" using post by (simp add: walk_post_def)
  show thesis
  proof (rule that [of rest cur upper over limit1 prev])
    show "inorder (rbroot d) = (rev rest @ opt_list cur) @ (rev upper @ rev over)"
      using arg_cong [OF over(1), of rev] w(1) by (cases cur) (simp_all add: opt_list_def)
    show "\<forall>a\<in>set (over @ upper). limit1 < pfn_lo a"
      using w(4) over(2) lim by (auto intro: order.strict_trans1)
    show "\<forall>p. prev = Some p \<longrightarrow> rev rest @ opt_list cur \<noteq> [] \<and> p = last (rev rest @ opt_list cur) \<or>
        rev upper @ rev over \<noteq> [] \<and> p = hd (rev upper @ rev over)"
      using w by (cases cur; cases "upper = []") (auto simp: prev0_def opt_list_def hd_append hd_rev)
    show "\<forall>c. cur = Some c \<longrightarrow> pfn_hi c + sz + pad_for al sz limit1 0 \<le> limit1"
      using post walk_pad [OF post] by (auto simp: walk_post_def)
    show "\<forall>rb new. alloc_and_insert_iova_range rb d sz limit new al =
        (if cur = None \<and> 1 + sz + pad_for al sz limit1 0 > limit1 then Some (Inl (- ENOMEM))
         else let a = slot new limit1 sz (pad_for al sz limit1 0)
              in map_option (\<lambda>t. Inr (a, cached_rbnode_insert_update limit a
                   (d\<lparr>rbroot := rb_insert_color rb new t\<rparr>)))
                 (case prev of Some p \<Rightarrow> link_from (node p) a (rbroot d) | None \<Rightarrow> link_below a (rbroot d)))"
      unfolding alloc_and_insert_iova_range_def Let_def start prod.case prev0_def [symmetric] walk
        walk_pad [OF post] slot_def by blast
  qed (use w(2) lim over(3) in auto)
qed

lemma alloc_inserts:
  assumes "rb_contract rb" "domain_ok d" "1 \<le> unat sz" "unat sz < 2 ^ 31" "unat limit < 2 ^ 52"
    and "new \<notin> node ` set (inorder (rbroot d))"
  shows "alloc_and_insert_iova_range rb d sz limit new al = Some (Inl (- ENOMEM)) \<or>
    (\<exists>a d' xs ys limit'. alloc_and_insert_iova_range rb d sz limit new al = Some (Inr (a, d')) \<and>
       inorder (rbroot d) = xs @ ys \<and> inorder (rbroot d') = xs @ a # ys \<and> domain_ok d' \<and>
       a = slot new limit' sz (pad_for al sz limit' 0) \<and> limit' \<le> limit \<and> pfn_hi a \<le> limit \<and>
       range_ok a \<and> unat (pfn_hi a) - unat (pfn_lo a) + 1 = unat sz)"
proof (rule alloc_split [OF assms(2), of limit sz al])
  fix cur prev :: "iova option" and limit1 and upper over rest :: "iova list"
  let ?xs = "rev rest @ opt_list cur" and ?ys = "rev upper @ rev over"
  let ?pad = "pad_for al sz limit1 0"
  let ?a = "slot new limit1 sz ?pad"
  assume split: "inorder (rbroot d) = ?xs @ ?ys" and w: "cur = None \<longrightarrow> rest = []"
      "\<forall>a\<in>set (over @ upper). limit1 < pfn_lo a" "limit1 \<le> limit"
    and prev: "\<forall>p. prev = Some p \<longrightarrow> ?xs \<noteq> [] \<and> p = last ?xs \<or> ?ys \<noteq> [] \<and> p = hd ?ys"
    and cur: "\<forall>c. cur = Some c \<longrightarrow> pfn_hi c + sz + ?pad \<le> limit1"
    and unfold: "\<forall>rb new. alloc_and_insert_iova_range rb d sz limit new al =
      (if cur = None \<and> 1 + sz + ?pad > limit1 then Some (Inl (- ENOMEM))
       else let a = slot new limit1 sz ?pad
            in map_option (\<lambda>t. Inr (a, cached_rbnode_insert_update limit a
                 (d\<lparr>rbroot := rb_insert_color rb new t\<rparr>)))
               (case prev of Some p \<Rightarrow> link_from (node p) a (rbroot d) | None \<Rightarrow> link_below a (rbroot d)))"
  have ok: "iovas_ok (?xs @ ?ys)" using assms(2) split by (simp add: domain_ok_def)
  show ?thesis
  proof (cases "cur = None \<and> 1 + sz + ?pad > limit1")
    case False
    have fits: "(case cur of Some c \<Rightarrow> pfn_hi c | None \<Rightarrow> 1) + sz + ?pad \<le> limit1"
      using False cur by (cases cur) auto
    have l52: "unat limit1 < 2 ^ 52" using assms(5) w(3) by (simp add: word_le_nat_alt)
    note s = slot_fits [OF refl refl ok w(2,1) assms(3,4) l52 fits refl, of new]
    have fresh: "node ?a \<notin> node ` set (?xs @ ?ys)" using assms(6) split by (simp add: slot_def Let_def)
    obtain t' where t': "(case prev of Some p \<Rightarrow> link_from (node p) ?a (rbroot d) | None \<Rightarrow> link_below ?a (rbroot d))
          = Some t'" "inorder t' = ?xs @ ?a # ?ys"
      using insert_link [OF split ok s(1-3) fresh prev] by blast
    define d' where "d' = cached_rbnode_insert_update limit ?a (d\<lparr>rbroot := rb_insert_color rb new t'\<rparr>)"
    have ino: "inorder (rbroot d') = ?xs @ ?a # ?ys"
      using assms(1) t'(2) by (simp add: d'_def cached_rbnode_insert_update_def rb_contract_def)
    have "pfn_lo ?a \<le> limit" using s(1,4) w(3) by (auto simp: range_ok_def)
    then have "domain_ok d'"
      using place_between(1) [OF ok s(1-3) fresh] assms(2) ino split
      by (auto simp: domain_ok_def d'_def cached_rbnode_insert_update_def)
    moreover have "alloc_and_insert_iova_range rb d sz limit new al = Some (Inr (?a, d'))"
      using False t'(1) by (simp add: unfold d'_def Let_def)
    moreover have "pfn_hi ?a \<le> limit" using s(4) w(3) by (rule order.trans)
    ultimately show ?thesis using ino split s(1,5) w(3) by blast
  qed (simp add: unfold)
qed

section \<open>An allocation fails only when nothing fits\<close>

definition free_run :: "iova list \<Rightarrow> u64 \<Rightarrow> u64 \<Rightarrow> u64 \<Rightarrow> bool" where
  "free_run xs l sz limit \<longleftrightarrow> unat l + unat sz \<le> unat limit + 1 \<and>
     (\<forall>a\<in>set xs. unat l + unat sz \<le> unat (pfn_lo a) \<or> unat (pfn_hi a) < unat l)"

lemma walk_none:
  assumes "alloc_walk sz False rs prev limit 0 = (None, prev', limit', pad')"
    and "\<forall>a\<in>set rs. range_ok a" "1 \<le> unat sz" "unat sz < 2 ^ 31" "free_run rs l sz limit"
  shows "unat l + unat sz \<le> unat limit' + 1"
  using assms
proof (induction rs arbitrary: prev limit)
  case Nil
  then show ?case by (simp add: free_run_def)
next
  case (Cons c cs)
  have ok: "1 \<le> unat (pfn_lo c)" "unat (pfn_lo c) \<le> unat (pfn_hi c)" "unat (pfn_hi c) < 2 ^ 52"
    using Cons.prems(2) by (auto simp: range_ok_def word_le_nat_alt word_less_nat_alt)
  have run: "unat l + unat sz \<le> unat limit + 1"
      "unat l + unat sz \<le> unat (pfn_lo c) \<or> unat (pfn_hi c) < unat l"
    using Cons.prems(5) by (auto simp: free_run_def)
  have dec: "unat (pfn_lo c - 1) = unat (pfn_lo c) - 1"
    using ok(1) by (simp add: word_sub_one word_le_nat_alt)
  have again: "free_run cs l sz (pfn_lo c - 1)" if "unat l + unat sz \<le> unat (pfn_lo c)"
    using Cons.prems(5) that ok(1) by (simp add: free_run_def dec)
  have sum: "unat (pfn_hi c + sz) = unat (pfn_hi c) + unat sz"
    using ok(3) assms(4) by (simp add: unat_word_ariths)
  show ?case
  proof (cases "limit < pfn_lo c")
    case True
    with Cons show ?thesis by (simp add: free_run_def)
  next
    case lo: False
    show ?thesis
    proof (cases "limit < pfn_hi c")
      case True
      then have "unat l + unat sz \<le> unat (pfn_lo c)"
        using run assms(3) by (auto simp: word_less_nat_alt)
      with lo True Cons again show ?thesis by simp
    next
      case False
      with lo Cons.prems(1) have "\<not> pfn_hi c + sz \<le> limit"
        by (auto simp: pad_for_def Let_def split: if_splits)
      then have "unat limit < unat (pfn_hi c) + unat sz" by (simp add: word_le_nat_alt sum)
      then have "unat l + unat sz \<le> unat (pfn_lo c)" using run by auto
      with lo False Cons again \<open>\<not> pfn_hi c + sz \<le> limit\<close> show ?thesis
        by (simp add: pad_for_def Let_def)
    qed
  qed
qed

lemma alloc_fails_full:
  assumes "domain_ok d" "1 \<le> unat sz" "unat sz < 2 ^ 31" "limit \<noteq> dma_32bit_pfn d"
    and "alloc_and_insert_iova_range rb d sz limit new False = Some (Inl e)"
    and "free_run (inorder (rbroot d)) l sz limit"
  shows "unat l < 2"
proof -
  let ?rs = "rev (inorder (rbroot d))"
  define prev0 where "prev0 = (case ?rs of [] \<Rightarrow> None | x # _ \<Rightarrow> Some x)"
  have start: "get_cached_rbnode d limit = (?rs, limit)"
    using assms(4) by (simp add: get_cached_rbnode_def down_from_last_def)
  obtain cur prev limit1 pad1 where walk: "alloc_walk sz False ?rs prev0 limit 0 = (cur, prev, limit1, pad1)"
    using prod_cases4 by blast
  have ok: "\<forall>a\<in>set ?rs. range_ok a" using assms(1) by (simp add: domain_ok_def iovas_ok_def)
  have post: "walk_post sz False ?rs prev0 limit 0 (cur, prev, limit1, pad1)"
    using walk_result [OF ok, of sz False prev0 limit 0] by (simp add: walk)
  have fail: "cur = None \<and> 1 + sz + pad_for False sz limit1 0 > limit1"
    using assms(5) unfolding alloc_and_insert_iova_range_def Let_def start prod.case
      prev0_def [symmetric] walk walk_pad [OF post] by (auto split: if_splits)
  have "unat l + unat sz \<le> unat limit1 + 1"
    using walk_none [OF _ ok assms(2,3)] walk fail assms(6) by (auto simp: free_run_def)
  moreover have "unat limit1 < 1 + unat sz"
    using fail assms(3) by (simp add: pad_for_def word_less_nat_alt unat_word_ariths)
  ultimately show ?thesis by simp
qed

section \<open>Lookup and release\<close>

lemma find_iova_from_iff:
  assumes "iovas_ok (inorder t)"
  shows "find_iova_from t pfn = Some a \<longleftrightarrow> a \<in> set_tree t \<and> pfn \<in> pages a"
  using assms
proof (induction t)
  case (Node l x r)
  have ok: "iovas_ok (inorder l)" "iovas_ok (inorder r)" "range_ok x"
      "\<forall>b\<in>set_tree l. below b x" "\<forall>b\<in>set_tree r. below x b"
    using Node.prems by (auto simp: iovas_ok_def sorted_wrt_append)
  have r: "pfn_lo b \<le> pfn_hi b" if "b \<in> set_tree l \<or> b \<in> set_tree r \<or> b = x" for b
    using Node.prems that by (auto simp: iovas_ok_def range_ok_def)
  show ?case
  proof (cases "pfn \<in> pages x")
    case True
    have "pfn \<notin> pages b" if "b \<in> set_tree l \<or> b \<in> set_tree r" for b
      using True that ok(4,5) by (fastforce simp: pages_def below_def)
    with True show ?thesis by (auto simp: pages_def)
  next
    case False
    show ?thesis
    proof (cases "pfn < pfn_lo x")
      case True
      have "pfn \<notin> pages b" if "b \<in> set_tree r" for b
        using True that ok(5) r by (fastforce simp: pages_def below_def)
      with True False Node.IH(1) [OF ok(1)] show ?thesis by (auto simp: pages_def)
    next
      case gt: False
      have "pfn \<notin> pages b" if "b \<in> set_tree l" for b
        using gt that ok(4) r by (fastforce simp: pages_def below_def)
      with gt False Node.IH(2) [OF ok(2)] show ?thesis by (auto simp: pages_def)
    qed
  qed
qed simp

lemma set_inorder_domain: "set_tree (rbroot d) = set (inorder (rbroot d))"
  by simp

lemma find_iova_iff:
  assumes "domain_ok d"
  shows "find_iova d pfn = Some a \<longleftrightarrow> a \<in> set (inorder (rbroot d)) \<and> pfn \<in> pages a"
  using find_iova_from_iff assms by (simp add: find_iova_def domain_ok_def)

lemma erase_inorder:
  assumes "rb_contract rb" "distinct (map node (xs @ a # ys))" "inorder t = xs @ a # ys"
  shows "inorder (rb_erase rb (node a) t) = xs @ ys"
proof -
  have "filter (\<lambda>x. node x \<noteq> node a) xs = xs" "filter (\<lambda>x. node x \<noteq> node a) ys = ys"
    using assms(2) by (auto simp: filter_id_conv) (metis image_eqI)+
  then show ?thesis using assms(1,3) by (simp add: rb_contract_def)
qed

lemma delete_update_frame:
  "rbroot (cached_rbnode_delete_update a d) = rbroot d"
  "dma_32bit_pfn (cached_rbnode_delete_update a d) = dma_32bit_pfn d"
  by (simp_all add: cached_rbnode_delete_update_def split: option.splits)

lemma delete_update_cached:
  assumes "domain_ok d" "inorder (rbroot d) = xs @ a # ys"
    and "cached32_node (cached_rbnode_delete_update a d) = Some c"
  shows "\<exists>b\<in>set (xs @ ys). node b = c \<and> pfn_lo b \<le> dma_32bit_pfn d"
proof -
  have ok: "iovas_ok (xs @ a # ys)" using assms(1,2) by (simp add: domain_ok_def)
  then have uniq: "distinct (map node (xs @ a # ys))" by (simp add: iovas_ok_def)
  obtain e where e: "cached32_node d = Some e"
    using assms(3) by (auto simp: cached_rbnode_delete_update_def split: option.splits)
  then obtain b where b: "b \<in> set (xs @ a # ys)" "node b = e" "pfn_lo b \<le> dma_32bit_pfn d"
    using assms(1,2) by (auto simp: domain_ok_def)
  have "find_node (rbroot d) e = Some b"
  proof -
    have "find (\<lambda>x. node x = e) zs = Some b" if "b \<in> set zs" "distinct (map node zs)" for zs
      using that b(2) by (induction zs) auto
    with b(1) uniq assms(2) show ?thesis by (simp add: find_node_def)
  qed
  note upd = cached_rbnode_delete_update_def e this
  have drop: "dropWhile (\<lambda>x. node x \<noteq> node a) (xs @ a # ys) = a # ys"
    using uniq by (subst dropWhile_append2) (auto simp: image_iff)
  show ?thesis
  proof (cases "pfn_lo a \<ge> pfn_lo b")
    case True
    obtain y ys' where "ys = y # ys'" "pfn_lo y < dma_32bit_pfn d" "c = node y"
      using assms(2,3) True drop by (auto simp: upd rb_next_def split: list.splits if_splits)
    then show ?thesis by (intro bexI [of _ y]) auto
  next
    case False
    then have "b \<noteq> a" by auto
    with b False assms(3) show ?thesis by (intro bexI [of _ b]) (auto simp: upd)
  qed
qed

lemma free_node_result:
  assumes "rb_contract rb" "domain_ok d" "inorder (rbroot d) = xs @ a # ys"
  shows "inorder (rbroot (free_iova_node rb a d)) = xs @ ys" "domain_ok (free_iova_node rb a d)"
proof -
  have ok: "iovas_ok (xs @ a # ys)" using assms(2,3) by (simp add: domain_ok_def)
  show ino: "inorder (rbroot (free_iova_node rb a d)) = xs @ ys"
    using erase_inorder [OF assms(1) _ assms(3)] ok
    by (simp add: free_iova_node_def Let_def delete_update_frame iovas_ok_def)
  have "iovas_ok (xs @ ys)" using ok by (auto simp: iovas_ok_def sorted_wrt_append)
  moreover have "cached32_node (free_iova_node rb a d) = cached32_node (cached_rbnode_delete_update a d)"
    "dma_32bit_pfn (free_iova_node rb a d) = dma_32bit_pfn d"
    by (simp_all add: free_iova_node_def Let_def delete_update_frame)
  ultimately show "domain_ok (free_iova_node rb a d)"
    using delete_update_cached [OF assms(2,3)] by (auto simp: domain_ok_def ino)
qed

lemma free_iova_result:
  assumes "rb_contract rb" "domain_ok d" "inorder (rbroot d) = xs @ a # ys" "pfn \<in> pages a"
  shows "inorder (rbroot (free_iova rb pfn d)) = xs @ ys" "domain_ok (free_iova rb pfn d)"
proof -
  have "find_iova d pfn = Some a" using find_iova_iff [OF assms(2)] assms(3,4) by simp
  then show "inorder (rbroot (free_iova rb pfn d)) = xs @ ys" "domain_ok (free_iova rb pfn d)"
    using free_node_result [OF assms(1-3)] by (simp_all add: free_iova_def)
qed

lemma reserve_result:
  assumes "rb_contract rb" "domain_ok d" "1 \<le> lo" "lo \<le> hi" "hi < 2 ^ 52"
    and "new \<notin> node ` set (inorder (rbroot d))"
    and "\<forall>x\<in>set (inorder (rbroot d)). \<not> is_range_overlap x lo hi"
  shows "\<exists>d' xs ys. reserve_iova_exclusive rb (Some new) lo hi d =
      Some (Some \<lparr>node = new, pfn_hi = hi, pfn_lo = lo\<rparr>, d') \<and> domain_ok d' \<and>
      inorder (rbroot d) = xs @ ys \<and> inorder (rbroot d') = xs @ \<lparr>node = new, pfn_hi = hi, pfn_lo = lo\<rparr> # ys"
proof -
  let ?a = "\<lparr>node = new, pfn_hi = hi, pfn_lo = lo\<rparr>"
  define xs where "xs = takeWhile (\<lambda>x. pfn_hi x < lo) (inorder (rbroot d))"
  define ys where "ys = dropWhile (\<lambda>x. pfn_hi x < lo) (inorder (rbroot d))"
  have split: "inorder (rbroot d) = xs @ ys" by (simp add: xs_def ys_def)
  have ok: "iovas_ok (xs @ ys)" using assms(2) split by (simp add: domain_ok_def)
  have r: "range_ok ?a" using assms(3-5) by (simp add: range_ok_def)
  have lt: "\<forall>x\<in>set xs. below x ?a" by (auto simp: xs_def below_def dest: set_takeWhileD)
  have gt: "\<forall>y\<in>set ys. below ?a y"
  proof (cases ys)
    case (Cons y ys')
    then have "\<not> pfn_hi y < lo"
      using hd_dropWhile [of "\<lambda>x. pfn_hi x < lo" "inorder (rbroot d)"] by (simp add: ys_def)
    moreover have "y \<in> set (inorder (rbroot d))" using split Cons by simp
    ultimately have "below ?a y" using assms(7) by (auto simp: is_range_overlap_def below_def)
    moreover have "\<forall>z\<in>set ys'. below y z" "range_ok y"
      using ok Cons by (auto simp: iovas_ok_def sorted_wrt_append)
    ultimately show ?thesis using Cons below_trans by auto
  qed simp
  have fresh: "node ?a \<notin> node ` set (xs @ ys)" using assms(6) split by simp
  obtain t' where t': "link_below ?a (rbroot d) = Some t'" "inorder t' = xs @ ?a # ys"
    using insert_link [OF split ok r lt gt fresh, of None] by auto
  define d' where "d' = d\<lparr>rbroot := rb_insert_color rb new t'\<rparr>"
  have "inorder (rbroot d') = xs @ ?a # ys" using assms(1) t'(2) by (simp add: d'_def rb_contract_def)
  moreover from this have "domain_ok d'"
    using place_between(1) [OF ok r lt gt fresh] assms(2) split by (auto simp: domain_ok_def d'_def)
  moreover have "reserve_iova_exclusive rb (Some new) lo hi d = Some (Some ?a, d')"
    using assms(7) t'(1) by (auto simp: reserve_iova_exclusive_def insert_new_range_def Let_def d'_def)
  ultimately show ?thesis using split by blast
qed

lemma put_iova_tree_empties:
  assumes "rb_contract rb" "distinct (map node (inorder t))"
  shows "\<exists>t'. put_iova_tree rb t = Some t' \<and> inorder t' = []"
  using assms(2)
proof (induction "size t" arbitrary: t rule: less_induct)
  case less
  show ?case
  proof (cases "inorder t")
    case Nil
    then show ?thesis by (subst put_iova_tree.simps) simp
  next
    case (Cons a xs)
    let ?t = "rb_erase rb (node a) t"
    have ino: "inorder ?t = xs"
      using erase_inorder [OF assms(1), of "[]" a xs t] Cons less.prems by simp
    have "size ?t < size t"
      using arg_cong [OF ino, of length] arg_cong [OF Cons, of length] by simp
    moreover have "distinct (map node (inorder ?t))" using less.prems ino Cons by simp
    ultimately show ?thesis
      using less.hyps [of ?t] Cons by (subst put_iova_tree.simps) (simp add: Let_def)
  qed
qed

section \<open>The contract of the offset space\<close>

text \<open>
  What the registration code relies on: the offset space holds disjoint blocks of pages; a claim
  either fails and changes nothing or adds one block of the size asked for, at the offset asked
  for if it is fixed; a release removes exactly the block that was claimed.
\<close>

datatype offset_op = Claim bool u64 u64 | Release nat

type_synonym block = "u64 \<times> u64"

definition block_pages :: "block \<Rightarrow> nat set" where
  "block_pages b = {unat (fst b) ..< unat (fst b) + unat (snd b)}"

definition claim_ok :: "bool \<Rightarrow> u64 \<Rightarrow> u64 \<Rightarrow> bool" where
  "claim_ok fixed offset n \<longleftrightarrow> 1 \<le> unat n \<and> unat n < 2 ^ 31 \<and>
     (fixed \<longrightarrow> 2 ^ 12 \<le> unat offset \<and> unat offset < 2 ^ 63)"

fun offset_run :: "(bool \<Rightarrow> u64 \<Rightarrow> u64 \<Rightarrow> 's \<Rightarrow> (int \<times> u64 \<times> 's) option) \<Rightarrow> (u64 \<Rightarrow> 's \<Rightarrow> 's)
    \<Rightarrow> offset_op list \<Rightarrow> block list \<Rightarrow> 's \<Rightarrow> (block list \<times> 's) option" where
  "offset_run get put [] live s = Some (live, s)"
| "offset_run get put (Claim fixed offset n # ops) live s =
     (if claim_ok fixed offset n
      then (case get fixed offset n s of
              None \<Rightarrow> None
            | Some (rc, out, s') \<Rightarrow>
                offset_run get put ops (if rc = 0 then (drop_bit 12 out, n) # live else live) s')
      else offset_run get put ops live s)"
| "offset_run get put (Release k # ops) live s =
     (if k < length live
      then offset_run get put ops (take k live @ drop (Suc k) live) (put (push_bit 12 (fst (live ! k))) s)
      else offset_run get put ops live s)"

locale offset_space =
  fixes ok :: "'s \<Rightarrow> bool"
    and blocks :: "'s \<Rightarrow> block set"
    and get :: "bool \<Rightarrow> u64 \<Rightarrow> u64 \<Rightarrow> 's \<Rightarrow> (int \<times> u64 \<times> 's) option"
    and put :: "u64 \<Rightarrow> 's \<Rightarrow> 's"
  assumes blocks_disjoint: "ok s \<Longrightarrow> b \<in> blocks s \<Longrightarrow> c \<in> blocks s \<Longrightarrow> b \<noteq> c \<Longrightarrow>
      block_pages b \<inter> block_pages c = {}"
    and get_result: "ok s \<Longrightarrow> claim_ok fixed offset n \<Longrightarrow>
      \<exists>rc out s'. get fixed offset n s = Some (rc, out, s') \<and> ok s' \<and>
        (rc < 0 \<and> blocks s' = blocks s \<or>
         rc = 0 \<and> (drop_bit 12 out, n) \<notin> blocks s \<and> blocks s' = insert (drop_bit 12 out, n) (blocks s) \<and>
         (fixed \<longrightarrow> drop_bit 12 out = drop_bit 12 offset))"
    and put_result: "ok s \<Longrightarrow> b \<in> blocks s \<Longrightarrow>
      ok (put (push_bit 12 (fst b)) s) \<and> blocks (put (push_bit 12 (fst b)) s) = blocks s - {b}"
begin

lemma run_blocks:
  assumes "ok s" "distinct live" "set live = blocks s"
  shows "\<exists>live' s'. offset_run get put ops live s = Some (live', s') \<and> ok s' \<and> distinct live' \<and>
           set live' = blocks s'"
  using assms
proof (induction ops arbitrary: live s)
  case (Cons op ops)
  show ?case
  proof (cases op)
    case (Claim fixed offset n)
    show ?thesis
    proof (cases "claim_ok fixed offset n")
      case True
      from get_result [OF Cons.prems(1) True] obtain rc out s' where
        "get fixed offset n s = Some (rc, out, s')" "ok s'"
        "rc < 0 \<and> blocks s' = blocks s \<or>
         rc = 0 \<and> (drop_bit 12 out, n) \<notin> blocks s \<and> blocks s' = insert (drop_bit 12 out, n) (blocks s)"
        by blast
      with True Claim Cons.prems Cons.IH [of s' "if rc = 0 then (drop_bit 12 out, n) # live else live"]
      show ?thesis by auto
    qed (use Claim Cons in simp)
  next
    case (Release k)
    show ?thesis
    proof (cases "k < length live")
      case True
      let ?b = "live ! k"
      have "?b \<in> blocks s" using True Cons.prems(3) by (metis nth_mem)
      note put = put_result [OF Cons.prems(1) this]
      with put remove_nth [OF True Cons.prems(2)] Cons.prems(3) Cons.IH [of "put (push_bit 12 (fst ?b)) s" "take k live @ drop (Suc k) live"]
      show ?thesis using True Release by simp
    qed (use Release Cons in simp)
  qed
qed simp

lemma run_disjoint:
  assumes "ok s" "blocks s = {}"
  shows "\<exists>live s'. offset_run get put ops [] s = Some (live, s') \<and> distinct live \<and>
           (\<forall>b\<in>set live. \<forall>c\<in>set live. b \<noteq> c \<longrightarrow> block_pages b \<inter> block_pages c = {})"
  using run_blocks [OF assms(1), of "[]" ops] assms(2) blocks_disjoint by fastforce

end

section \<open>The domain provides the offset space\<close>

definition blk :: "iova \<Rightarrow> block" where
  "blk a = (pfn_lo a, pfn_hi a - pfn_lo a + 1)"

definition domain_blocks :: "iova_domain \<Rightarrow> block set" where
  "domain_blocks d = blk ` set (inorder (rbroot d))"

text \<open>The memory allocator never returns the address of a live node.\<close>

definition mem_contract :: "(iova_domain \<Rightarrow> nat option) \<Rightarrow> bool" where
  "mem_contract mem \<longleftrightarrow> (\<forall>d new. mem d = Some new \<longrightarrow> new \<notin> node ` set (inorder (rbroot d)))"

definition claim_offset ::
    "rb_ops \<Rightarrow> (iova_domain \<Rightarrow> nat option) \<Rightarrow> bool \<Rightarrow> u64 \<Rightarrow> u64 \<Rightarrow> iova_domain \<Rightarrow> (int \<times> u64 \<times> iova_domain) option" where
  "claim_offset rb mem fixed offset n d = scif_get_window_offset rb (mem d) fixed offset n d"

definition release_offset :: "rb_ops \<Rightarrow> u64 \<Rightarrow> iova_domain \<Rightarrow> iova_domain" where
  "release_offset rb offset d = snd (scif_free_window_offset rb None offset d)"

lemma shift_roundtrip: "unat (x :: u64) < 2 ^ 52 \<Longrightarrow> drop_bit 12 (push_bit 12 x) = x"
proof -
  assume a: "unat x < 2 ^ 52"
  have "unat (push_bit 12 x) = unat x * 2 ^ 12"
    using a by (simp add: push_bit_eq_mult unat_word_ariths)
  then have "unat (drop_bit 12 (push_bit 12 x)) = unat x"
    by (simp add: drop_bit_eq_div unat_div)
  then show ?thesis by (simp add: word_unat_eq_iff)
qed

lemma block_pages_blk: "range_ok a \<Longrightarrow> block_pages (blk a) = {unat (pfn_lo a) .. unat (pfn_hi a)}"
proof -
  assume a: "range_ok a"
  then have le: "unat (pfn_lo a) \<le> unat (pfn_hi a)" "unat (pfn_hi a) < 2 ^ 52"
    by (auto simp: range_ok_def word_le_nat_alt word_less_nat_alt)
  then have "unat (pfn_hi a - pfn_lo a) = unat (pfn_hi a) - unat (pfn_lo a)"
    by (simp add: unat_sub word_le_nat_alt)
  then have "unat (pfn_hi a - pfn_lo a + 1) = unat (pfn_hi a) - unat (pfn_lo a) + 1"
    using le by (simp add: unat_word_ariths)
  then show ?thesis using le by (auto simp: block_pages_def blk_def)
qed

lemma domain_blocks_disjoint:
  assumes "domain_ok d" "b \<in> domain_blocks d" "c \<in> domain_blocks d" "b \<noteq> c"
  shows "block_pages b \<inter> block_pages c = {}"
proof -
  obtain x y where xy: "x \<in> set (inorder (rbroot d))" "y \<in> set (inorder (rbroot d))" "b = blk x" "c = blk y"
    using assms(2,3) by (auto simp: domain_blocks_def)
  have ok: "iovas_ok (inorder (rbroot d))" using assms(1) by (simp add: domain_ok_def)
  then have r: "range_ok x" "range_ok y" using xy by (auto simp: iovas_ok_def)
  have "below x y \<or> below y x"
    using ok xy(1,2) assms(4) xy(3,4) unfolding iovas_ok_def
    by (metis (no_types, lifting) in_set_conv_nth linorder_neqE_nat sorted_wrt_nth_less)
  then show ?thesis
    using r by (auto simp: xy block_pages_blk below_def word_less_nat_alt)
qed

lemma fresh_block:
  assumes "iovas_ok (xs @ a # ys)"
  shows "blk a \<notin> blk ` set (xs @ ys)"
  using iovas_ok_sorted_lo [OF assms] by (auto simp: blk_def sorted_wrt_append)

lemma blk_size:
  assumes "range_ok a" "unat (pfn_hi a) - unat (pfn_lo a) + 1 = unat n"
  shows "blk a = (pfn_lo a, n)"
proof -
  have le: "unat (pfn_lo a) \<le> unat (pfn_hi a)" "unat (pfn_hi a) < 2 ^ 52"
    using assms(1) by (auto simp: range_ok_def word_le_nat_alt word_less_nat_alt)
  then have "unat (pfn_hi a - pfn_lo a) = unat (pfn_hi a) - unat (pfn_lo a)"
    by (simp add: unat_sub word_le_nat_alt)
  then have "unat (pfn_hi a - pfn_lo a + 1) = unat n"
    using le assms(2) by (simp add: unat_word_ariths)
  then show ?thesis by (simp add: blk_def word_unat_eq_iff)
qed

lemma claim_success:
  assumes "domain_ok d'" "inorder (rbroot d) = xs @ ys" "inorder (rbroot d') = xs @ a # ys"
    and "blk a = (pfn_lo a, n)"
  shows "drop_bit 12 (push_bit 12 (pfn_lo a)) = pfn_lo a" "(pfn_lo a, n) \<notin> domain_blocks d"
    and "domain_blocks d' = insert (pfn_lo a, n) (domain_blocks d)"
proof -
  have ok: "iovas_ok (xs @ a # ys)" using assms(1,3) by (simp add: domain_ok_def)
  then have "range_ok a" by (simp add: iovas_ok_def)
  then have "unat (pfn_lo a) < 2 ^ 52" by (auto simp: range_ok_def word_le_nat_alt word_less_nat_alt)
  then show "drop_bit 12 (push_bit 12 (pfn_lo a)) = pfn_lo a" by (rule shift_roundtrip)
  show "(pfn_lo a, n) \<notin> domain_blocks d"
    using fresh_block [OF ok] assms(2,4) by (simp add: domain_blocks_def)
  show "domain_blocks d' = insert (pfn_lo a, n) (domain_blocks d)"
    using assms(2-4) by (auto simp: domain_blocks_def)
qed

lemma release_block:
  assumes "rb_contract rb" "domain_ok d" "b \<in> domain_blocks d"
  shows "domain_ok (release_offset rb (push_bit 12 (fst b)) d) \<and>
         domain_blocks (release_offset rb (push_bit 12 (fst b)) d) = domain_blocks d - {b}"
proof -
  obtain a where a: "a \<in> set (inorder (rbroot d))" "b = blk a"
    using assms(3) by (auto simp: domain_blocks_def)
  obtain xs ys where split: "inorder (rbroot d) = xs @ a # ys" using split_list [OF a(1)] by blast
  have ok: "iovas_ok (xs @ a # ys)" using assms(2) split by (simp add: domain_ok_def)
  then have r: "range_ok a" by (simp add: iovas_ok_def)
  then have "unat (pfn_lo a) < 2 ^ 52" by (auto simp: range_ok_def word_le_nat_alt word_less_nat_alt)
  then have rel: "release_offset rb (push_bit 12 (fst b)) d = free_iova rb (pfn_lo a) d"
    by (simp add: release_offset_def scif_free_window_offset_def a(2) blk_def shift_roundtrip)
  have "pfn_lo a \<in> pages a" using r by (simp add: pages_def range_ok_def)
  from free_iova_result [OF assms(1,2) split this] fresh_block [OF ok] show ?thesis
    unfolding rel by (auto simp: domain_blocks_def split a(2) simp del: set_inorder)
qed

lemma claim_alloc:
  assumes "rb_contract rb" "mem_contract mem" "domain_ok d" "claim_ok False offset n"
  shows "\<exists>rc out d'. claim_offset rb mem False offset n d = Some (rc, out, d') \<and> domain_ok d' \<and>
    (rc < 0 \<and> domain_blocks d' = domain_blocks d \<or>
     rc = 0 \<and> (drop_bit 12 out, n) \<notin> domain_blocks d \<and>
     domain_blocks d' = insert (drop_bit 12 out, n) (domain_blocks d))"
proof (cases "mem d")
  case None
  then show ?thesis
    using assms(3) by (simp add: claim_offset_def scif_get_window_offset_def alloc_iova_def)
next
  case (Some new)
  then have fresh: "new \<notin> node ` set (inorder (rbroot d))"
    using assms(2) unfolding mem_contract_def by blast
  have n: "1 \<le> unat n" "unat n < 2 ^ 31" using assms(4) by (simp_all add: claim_ok_def)
  let ?limit = "SCIF_DMA_63BIT_PFN - 1"
  have "unat ?limit < 2 ^ 52" by simp
  from alloc_inserts [OF assms(1,3) n this fresh, of False]
  consider "alloc_and_insert_iova_range rb d n ?limit new False = Some (Inl (- ENOMEM))"
    | a d' xs ys where "alloc_and_insert_iova_range rb d n ?limit new False = Some (Inr (a, d'))"
      "inorder (rbroot d) = xs @ ys" "inorder (rbroot d') = xs @ a # ys" "domain_ok d'" "range_ok a"
      "unat (pfn_hi a) - unat (pfn_lo a) + 1 = unat n"
    by blast
  then show ?thesis
  proof cases
    case 1
    then show ?thesis
      using assms(3) Some by (simp add: claim_offset_def scif_get_window_offset_def alloc_iova_def)
  next
    case (2 a d' xs ys)
    note c = claim_success [OF 2(4,2,3) blk_size [OF 2(5,6)]]
    have "claim_offset rb mem False offset n d = Some (0, push_bit 12 (pfn_lo a), d')"
      using 2(1) Some by (simp add: claim_offset_def scif_get_window_offset_def alloc_iova_def)
    with 2(4) c show ?thesis by simp
  qed
qed

lemma claim_fixed:
  assumes "rb_contract rb" "mem_contract mem" "domain_ok d" "claim_ok True offset n"
  shows "\<exists>rc out d'. claim_offset rb mem True offset n d = Some (rc, out, d') \<and> domain_ok d' \<and>
    (rc < 0 \<and> domain_blocks d' = domain_blocks d \<or>
     rc = 0 \<and> (drop_bit 12 out, n) \<notin> domain_blocks d \<and>
     domain_blocks d' = insert (drop_bit 12 out, n) (domain_blocks d) \<and>
     drop_bit 12 out = drop_bit 12 offset)"
proof -
  let ?lo = "drop_bit 12 offset"
  let ?hi = "?lo + n - 1"
  have n: "1 \<le> unat n" "unat n < 2 ^ 31" "2 ^ 12 \<le> unat offset" "unat offset < 2 ^ 63"
    using assms(4) by (simp_all add: claim_ok_def)
  have ulo: "unat ?lo = unat offset div 2 ^ 12"
    by (simp add: drop_bit_eq_div unat_div)
  then have lo: "1 \<le> unat ?lo" "unat ?lo < 2 ^ 51" using n(3,4) by simp_all
  have "unat (?lo + n) = unat ?lo + unat n" using lo(2) n(2) by (simp add: unat_word_ariths)
  then have uhi: "unat ?hi = unat ?lo + unat n - 1"
    using lo(1) n(1) by (subst unat_sub) (simp_all add: word_le_nat_alt)
  have b: "1 \<le> ?lo" "?lo \<le> ?hi" "?hi < 2 ^ 52"
    using lo n(1,2) uhi by (simp_all add: word_le_nat_alt word_less_nat_alt)
  show ?thesis
  proof (cases "mem d = None \<or> (\<exists>x\<in>set (inorder (rbroot d)). is_range_overlap x ?lo ?hi)")
    case True
    then have "reserve_iova_exclusive rb (mem d) ?lo ?hi d = Some (None, d)"
      by (auto simp: reserve_iova_exclusive_def insert_new_range_def)
    then show ?thesis
      using assms(3) by (simp add: claim_offset_def scif_get_window_offset_def)
  next
    case False
    then obtain new where new: "mem d = Some new" by (cases "mem d") auto
    then have fresh: "new \<notin> node ` set (inorder (rbroot d))"
      using assms(2) unfolding mem_contract_def by blast
    let ?a = "\<lparr>node = new, pfn_hi = ?hi, pfn_lo = ?lo\<rparr>"
    obtain d' xs ys where r: "reserve_iova_exclusive rb (Some new) ?lo ?hi d = Some (Some ?a, d')"
        "domain_ok d'" "inorder (rbroot d) = xs @ ys" "inorder (rbroot d') = xs @ ?a # ys"
      using reserve_result [OF assms(1,3) b fresh] False by blast
    have "blk ?a = (pfn_lo ?a, n)" by (simp add: blk_def)
    note c = claim_success [OF r(2-4) this]
    have "claim_offset rb mem True offset n d = Some (0, push_bit 12 ?lo, d')"
      using r(1) new by (simp add: claim_offset_def scif_get_window_offset_def)
    with r(2) c show ?thesis by simp
  qed
qed

lemma domain_offset_space:
  assumes "rb_contract rb" "mem_contract mem"
  shows "offset_space domain_ok domain_blocks (claim_offset rb mem) (release_offset rb)"
proof
  fix d fixed offset n assume "domain_ok d" "claim_ok fixed offset n"
  then show "\<exists>rc out s'. claim_offset rb mem fixed offset n d = Some (rc, out, s') \<and> domain_ok s' \<and>
        (rc < 0 \<and> domain_blocks s' = domain_blocks d \<or>
         rc = 0 \<and> (drop_bit 12 out, n) \<notin> domain_blocks d \<and>
         domain_blocks s' = insert (drop_bit 12 out, n) (domain_blocks d) \<and>
         (fixed \<longrightarrow> drop_bit 12 out = drop_bit 12 offset))"
    using claim_alloc [OF assms] claim_fixed [OF assms] by (cases fixed) fastforce+
qed (use domain_blocks_disjoint release_block [OF assms(1)] in blast)+

lemma ilog2_pow: "ilog2 (2 ^ k) = k"
proof (induction k)
  case (Suc k)
  moreover have "\<not> (2 :: nat) ^ Suc k \<le> 1" unfolding not_le by (rule one_less_power) simp_all
  ultimately show ?case by (subst ilog2.simps) simp
qed (simp add: ilog2.simps)

lemma roundup_pow:
  assumes "1 \<le> unat sz" "unat sz \<le> 2 ^ 30"
  obtains k where "roundup_pow_of_two sz = 2 ^ k" "k \<le> 30" "unat sz \<le> 2 ^ k"
proof (cases "sz \<le> 1")
  case True
  then show ?thesis
    using that [of 0] assms(1) by (simp add: roundup_pow_of_two_def word_le_nat_alt)
next
  case False
  let ?n = "unat (sz - 1)"
  have n: "?n = unat sz - 1" using assms(1) by (simp add: word_sub_one word_le_nat_alt)
  have "2 ^ ilog2 ?n \<le> ?n" using False n by (intro ilog2_le) (simp add: word_le_nat_alt)
  then have "(2 :: nat) ^ ilog2 ?n < 2 ^ 30" using n assms by linarith
  then have k: "ilog2 ?n < 30" by (rule power_less_imp_less_exp [rotated]) simp
  have up: "m < 2 ^ Suc (ilog2 m)" for m
  proof (induction m rule: ilog2.induct)
    case (1 m)
    then show ?case by (cases "m \<le> 1") (auto simp: ilog2.simps [of m])
  qed
  have "unat sz \<le> 2 ^ Suc (ilog2 ?n)" using up [of ?n] n by linarith
  with k False show ?thesis
    by (intro that [of "Suc (ilog2 ?n)"]) (simp_all add: roundup_pow_of_two_def push_bit_eq_mult)
qed

lemma unat_pow64: "k \<le> 30 \<Longrightarrow> unat ((2 :: u64) ^ k) = 2 ^ k"
proof -
  assume "k \<le> 30"
  then have "(2 :: nat) ^ k \<le> 2 ^ 30" by (rule power_increasing) simp
  then have "unat (of_nat (2 ^ k) :: u64) = 2 ^ k"
    unfolding unsigned_of_nat by (subst take_bit_nat_eq_self) simp_all
  then show ?thesis by simp
qed

lemma mod_wrap: "(m :: nat) dvd n \<Longrightarrow> ((a mod n + 1) mod n) mod m = (a + 1) mod m"
  by (simp only: mod_add_left_eq mod_mod_cancel)

lemma pad_take_bit:
  assumes "k \<le> 30"
  shows "pad_for True (2 ^ k) limit 0 = take_bit k (limit + 1)"
proof -
  let ?s = "ucast (2 ^ k :: u64) :: u32" and ?l = "ucast limit :: u32"
  have "(2 :: nat) ^ k \<le> 2 ^ 30" using assms by (rule power_increasing) simp
  then have lt: "(2 :: nat) ^ k < 2 ^ 32" by simp
  have s: "unat ?s = 2 ^ k"
    using unat_pow64 [OF assms] lt assms by (simp add: unsigned_ucast_eq take_bit_nat_eq_self)
  have "iova_get_pad_size ?s ?l = take_bit k (?l + 1)"
    by (simp add: iova_get_pad_size_def s ilog2_pow take_bit_eq_mod push_bit_eq_mult Let_def)
  moreover have "unat (ucast (take_bit k (?l + 1)) :: u64) = unat (take_bit k (limit + 1))"
  proof -
    have d: "(2 :: nat) ^ k dvd 2 ^ 32" "(2 :: nat) ^ k dvd 2 ^ 64"
      using assms le_imp_power_dvd [of k 32 "2 :: nat"] le_imp_power_dvd [of k 64 "2 :: nat"] by simp_all
    have l: "unat (take_bit k (?l + 1)) = ((unat limit mod 2 ^ 32 + 1) mod 2 ^ 32) mod 2 ^ k"
      unfolding unsigned_take_bit_eq by (simp add: unsigned_ucast_eq take_bit_eq_mod unat_word_ariths)
    also have "\<dots> = (unat limit + 1) mod 2 ^ k"
      by (rule mod_wrap [OF d(1)])
    also have "\<dots> = unat (take_bit k (limit + 1))"
      unfolding unsigned_take_bit_eq using d(2)
      by (simp add: take_bit_eq_mod unat_word_ariths mod_mod_cancel)
    finally have eq: "unat (take_bit k (?l + 1)) = unat (take_bit k (limit + 1))" .
    have "unat (take_bit k (?l + 1)) < 2 ^ 64"
      using unsigned_less [of "take_bit k (?l + 1)", where 'a = nat] by simp
    with eq show ?thesis by (simp add: unsigned_ucast_eq take_bit_nat_eq_self)
  qed
  ultimately have "unat (pad_for True (2 ^ k) limit 0) = unat (take_bit k (limit + 1))"
    by (simp add: pad_for_def)
  then show ?thesis by (simp add: word_unat_eq_iff)
qed

lemma slot_aligned:
  assumes "k \<le> 30"
  shows "2 ^ k dvd unat (pfn_lo (slot n limit (2 ^ k) (pad_for True (2 ^ k) limit 0)))"
proof -
  let ?x = "limit + 1"
  have "pfn_lo (slot n limit (2 ^ k) (pad_for True (2 ^ k) limit 0)) = ?x - take_bit k ?x - 2 ^ k"
    by (simp add: slot_def Let_def pad_take_bit [OF assms])
  also have "?x - take_bit k ?x = push_bit k (drop_bit k ?x)"
    using bits_ident [of k ?x] by (metis add_diff_cancel_right')
  also have "push_bit k (drop_bit k ?x) - 2 ^ k = push_bit k (drop_bit k ?x - 1)"
    by (simp add: push_bit_eq_mult left_diff_distrib)
  finally have eq: "pfn_lo (slot n limit (2 ^ k) (pad_for True (2 ^ k) limit 0)) = push_bit k (drop_bit k ?x - 1)" .
  have "(2 :: nat) ^ k dvd 18446744073709551616"
    using assms le_imp_power_dvd [of k 64 "2 :: nat"] by simp
  then show ?thesis
    unfolding eq unsigned_push_bit_eq by (simp add: push_bit_eq_mult take_bit_eq_mod dvd_mod)
qed

definition rounded :: "bool \<Rightarrow> u64 \<Rightarrow> u64" where
  "rounded al sz = (if al then roundup_pow_of_two sz else sz)"

lemma rounded_bounds:
  assumes "1 \<le> unat sz" "unat sz \<le> 2 ^ 30"
  shows "1 \<le> unat (rounded al sz) \<and> unat (rounded al sz) < 2 ^ 31 \<and>
         (al \<longrightarrow> (\<exists>k\<le>30. rounded al sz = 2 ^ k))"
proof (cases al)
  case True
  obtain k where k: "roundup_pow_of_two sz = 2 ^ k" "k \<le> 30" using roundup_pow [OF assms] by blast
  have "(2 :: nat) ^ k \<le> 2 ^ 30" using k(2) by (rule power_increasing) simp
  with True k unat_pow64 [OF k(2)] show ?thesis by (auto simp: rounded_def)
qed (use assms in \<open>simp add: rounded_def\<close>)

lemma inserted_disjoint:
  assumes "iovas_ok (xs @ a # ys)"
  shows "(\<Union>b\<in>set (xs @ ys). pages b) \<inter> pages a = {}"
  using assms by (fastforce simp: iovas_ok_def sorted_wrt_append pages_def below_def)

section \<open>A tree that is never rebalanced\<close>

text \<open>An instance of the kernel's rebalancing that keeps the shape, for the instances below.\<close>

fun chain :: "iova list \<Rightarrow> iova tree" where
  "chain [] = Leaf"
| "chain (x # xs) = Node Leaf x (chain xs)"

definition plain_rb :: rb_ops where
  "plain_rb = \<lparr>rb_insert_color = (\<lambda>n t. t),
               rb_erase = (\<lambda>n t. chain (filter (\<lambda>x. node x \<noteq> n) (inorder t)))\<rparr>"

definition next_node :: "iova_domain \<Rightarrow> nat option" where
  "next_node d = Some (Suc (sum_list (map node (inorder (rbroot d)))))"

lemma inorder_chain: "inorder (chain xs) = xs"
  by (induction xs) auto

lemma plain_rb_contract: "rb_contract plain_rb"
  by (simp add: rb_contract_def plain_rb_def inorder_chain)

lemma next_node_contract: "mem_contract next_node"
proof -
  have le: "node a \<le> sum_list (map node xs)" if "a \<in> set xs" for a and xs :: "iova list"
    using that by (simp add: member_le_sum_list)
  show ?thesis
    unfolding mem_contract_def next_node_def by (auto simp del: set_inorder dest!: le)
qed

interpretation iova_space: offset_space domain_ok domain_blocks "claim_offset plain_rb next_node"
  "release_offset plain_rb"
  by (rule domain_offset_space [OF plain_rb_contract next_node_contract])

lemma init_domain_ok: "domain_ok (init_iova_domain pfn)" "domain_blocks (init_iova_domain pfn) = {}"
  by (simp_all add: domain_ok_def iovas_ok_def init_iova_domain_def domain_blocks_def)

lemmas iova_eval = claim_offset_def release_offset_def scif_get_window_offset_def
  scif_free_window_offset_def alloc_iova_def alloc_and_insert_iova_range_def get_cached_rbnode_def
  down_from_last_def cached_rbnode_insert_update_def cached_rbnode_delete_update_def
  reserve_iova_exclusive_def insert_new_range_def is_range_overlap_def free_iova_def find_iova_def
  free_iova_node_def rb_next_def find_node_def pad_for_def plain_rb_def next_node_def
  init_iova_domain_def claim_ok_def Let_def

section \<open>Properties\<close>



text \<open>
  C23: What \<open>alloc_iova\<close> returns. For a size of 1 to \<open>2 ^ 30\<close> pages and a limit within the page
  space it never hits \<open>BUG()\<close>; a returned range has exactly the rounded size, ends at or below
  the limit, is disjoint from every range of the domain, starts at a multiple of its size if
  alignment was asked for, and is the only change to the set of ranges; the well-formedness of
  the domain, the cached node included, is kept.
\<close>

theorem alloc_iova_correct:
  assumes "rb_contract rb" "domain_ok d" "1 \<le> unat sz" "unat sz \<le> 2 ^ 30" "unat limit < 2 ^ 52"
    and "new \<notin> node ` set (inorder (rbroot d))"
  shows "\<exists>r d'. alloc_iova rb (Some new) d sz limit al = Some (r, d') \<and> domain_ok d' \<and>
    (case r of
       None \<Rightarrow> d' = d
     | Some a \<Rightarrow>
         set (inorder (rbroot d')) = insert a (set (inorder (rbroot d))) \<and>
         used_pages d \<inter> pages a = {} \<and> pfn_lo a \<le> pfn_hi a \<and> pfn_hi a \<le> limit \<and>
         unat (pfn_hi a) - unat (pfn_lo a) + 1 = unat (rounded al sz) \<and>
         (al \<longrightarrow> unat (rounded al sz) dvd unat (pfn_lo a)))"
proof -
  define S where "S = rounded al sz"
  have S: "1 \<le> unat S" "unat S < 2 ^ 31" "al \<longrightarrow> (\<exists>k\<le>30. S = 2 ^ k)"
    using rounded_bounds [OF assms(3,4), of al] by (simp_all add: S_def)
  have unfold: "alloc_iova rb (Some new) d sz limit al =
      map_option (\<lambda>r. case r of Inl e \<Rightarrow> (None, d) | Inr (iova, d) \<Rightarrow> (Some iova, d))
        (alloc_and_insert_iova_range rb d S limit new al)"
    by (simp add: alloc_iova_def S_def rounded_def)
  from alloc_inserts [OF assms(1,2) S(1,2) assms(5,6), of al]
  show ?thesis
  proof (elim disjE exE conjE)
    fix a d' xs ys limit'
    assume a: "alloc_and_insert_iova_range rb d S limit new al = Some (Inr (a, d'))"
      "inorder (rbroot d) = xs @ ys" "inorder (rbroot d') = xs @ a # ys" "domain_ok d'"
      "a = slot new limit' S (pad_for al S limit' 0)" "pfn_hi a \<le> limit" "range_ok a"
      "unat (pfn_hi a) - unat (pfn_lo a) + 1 = unat S"
    have "al \<longrightarrow> unat S dvd unat (pfn_lo a)"
      using S(3) a(5) slot_aligned unat_pow64 by auto
    moreover have "iovas_ok (xs @ a # ys)" using a(3,4) by (simp add: domain_ok_def)
    then have "used_pages d \<inter> pages a = {}"
      unfolding used_pages_def a(2) by (rule inserted_disjoint)
    ultimately show ?thesis
      using a unfolding unfold S_def [symmetric]
      by (intro exI [of _ "Some a"] exI [of _ d']) (auto simp: range_ok_def simp del: set_inorder)
  qed (simp add: unfold assms(2))
qed

definition example_domain :: iova_domain where
  "example_domain = (init_iova_domain SCIF_DMA_64BIT_PFN)\<lparr>rbroot :=
     Node Leaf \<lparr>node = 1, pfn_hi = 0x7F, pfn_lo = 0x70\<rparr> (Node Leaf \<lparr>node = 2, pfn_hi = 0xFF, pfn_lo = 0xF0\<rparr> Leaf)\<rparr>"

lemma example_domain_ok: "domain_ok example_domain"
  by (simp add: example_domain_def init_iova_domain_def domain_ok_def iovas_ok_def range_ok_def below_def)

theorem alloc_iova_correct_witness:
  "\<exists>a d'. alloc_iova plain_rb (Some 3) example_domain 5 0xFF True = Some (Some a, d') \<and>
     pfn_lo a = 0xE8 \<and> pfn_hi a = 0xEF \<and> used_pages example_domain \<inter> pages a = {}"
proof -
  have "roundup_pow_of_two 5 = 8"
    by (simp add: roundup_pow_of_two_def word_le_nat_alt ilog2.simps)
  then have "alloc_iova plain_rb (Some 3) example_domain 5 0xFF True =
      Some (Some \<lparr>node = 3, pfn_hi = 0xEF, pfn_lo = 0xE8\<rparr>,
        example_domain\<lparr>rbroot := Node Leaf \<lparr>node = 1, pfn_hi = 0x7F, pfn_lo = 0x70\<rparr>
          (Node (Node Leaf \<lparr>node = 3, pfn_hi = 0xEF, pfn_lo = 0xE8\<rparr> Leaf)
             \<lparr>node = 2, pfn_hi = 0xFF, pfn_lo = 0xF0\<rparr> Leaf)\<rparr>)"
    by (simp add: iova_eval example_domain_def iova_get_pad_size_def ilog2.simps)
  with alloc_iova_correct [OF plain_rb_contract example_domain_ok, of 5 "0xFF" 3 True] show ?thesis
    by (auto simp: example_domain_def)
qed

text \<open>
  C24: An allocation fails only when nothing fits. If \<open>alloc_iova\<close> without alignment, given
  memory and a limit other than the cached one, returns no range, then there is no run of \<open>sz\<close>
  free pages at or below the limit that starts at page 2 or later.
\<close>

theorem alloc_iova_complete:
  assumes "domain_ok d" "1 \<le> unat sz" "unat sz < 2 ^ 31" "limit \<noteq> dma_32bit_pfn d"
    and "alloc_iova rb (Some new) d sz limit False = Some (None, d')"
  shows "\<not> (\<exists>l. 2 \<le> unat l \<and> free_run (inorder (rbroot d)) l sz limit)"
proof -
  obtain z where z: "alloc_and_insert_iova_range rb d sz limit new False = Some z"
      "(case z of Inl e \<Rightarrow> (None, d) | Inr (iova, d) \<Rightarrow> (Some iova, d)) = (None, d')"
    using assms(5) by (auto simp: alloc_iova_def)
  then obtain e where "alloc_and_insert_iova_range rb d sz limit new False = Some (Inl e)"
    by (cases z) auto
  from alloc_fails_full [OF assms(1-4) this] show ?thesis by force
qed

theorem alloc_iova_complete_witness:
  "\<not> (\<exists>l. 2 \<le> unat l \<and> free_run (inorder (rbroot example_domain)) l 0x80 0xFE)"
proof -
  have "alloc_iova plain_rb (Some 3) example_domain 0x80 0xFE False = Some (None, example_domain)"
    by (simp add: iova_eval example_domain_def)
  from alloc_iova_complete [OF example_domain_ok _ _ _ this] show ?thesis
    by (simp add: example_domain_def init_iova_domain_def)
qed

text \<open>
  C25: Lookup and release are exact. In a well-formed domain \<open>find_iova\<close> returns a range exactly
  when the page lies in it, so at most one; \<open>free_iova\<close> removes that range's pages and no other
  page, changes nothing when the page is free, and keeps the domain well formed.
\<close>

theorem find_free_exact:
  assumes "rb_contract rb" "domain_ok d"
  shows "(find_iova d pfn = Some a \<longleftrightarrow> a \<in> set (inorder (rbroot d)) \<and> pfn \<in> pages a) \<and>
         domain_ok (free_iova rb pfn d) \<and>
         used_pages (free_iova rb pfn d) =
           used_pages d - (case find_iova d pfn of Some a \<Rightarrow> pages a | None \<Rightarrow> {})"
proof (cases "find_iova d pfn")
  case None
  then show ?thesis
    using find_iova_iff [OF assms(2), of pfn a] assms(2) by (auto simp: free_iova_def)
next
  case (Some b)
  then have b: "b \<in> set (inorder (rbroot d))" "pfn \<in> pages b" using find_iova_iff [OF assms(2)] by auto
  obtain xs ys where split: "inorder (rbroot d) = xs @ b # ys" using split_list [OF b(1)] by blast
  note f = free_iova_result [OF assms split b(2)]
  have "iovas_ok (xs @ b # ys)" using assms(2) split by (simp add: domain_ok_def)
  from inserted_disjoint [OF this] have "used_pages (free_iova rb pfn d) = used_pages d - pages b"
    unfolding used_pages_def f(1) split by auto
  with f(2) Some find_iova_iff [OF assms(2), of pfn a] show ?thesis by simp
qed

theorem find_free_exact_witness:
  "find_iova example_domain 0xF3 = Some \<lparr>node = 2, pfn_hi = 0xFF, pfn_lo = 0xF0\<rparr> \<and>
   domain_ok (free_iova plain_rb 0xF3 example_domain)"
  using find_free_exact [OF plain_rb_contract example_domain_ok, of "0xF3"
      "\<lparr>node = 2, pfn_hi = 0xFF, pfn_lo = 0xF0\<rparr>"]
  by (simp add: example_domain_def pages_def)

end
