(* ===== verification/Scif_Types.thy ===== *)
theory Scif_Types
  imports Scif_Rb Scif_Ports Iova
begin

text \<open>
  The data structures of the SCIF driver and the node queue pair: the messages of
  \<open>scif_nodeqp.h\<close>, endpoints of \<open>scif_epd.h\<close>, windows of \<open>scif_rma.h\<close>, the devices and the
  global state of \<open>scif_main.h\<close>, and the two functions of \<open>scif_nodeqp.c\<close> that put a message
  on the queue of a peer. A message travels as 44 packed bytes on a ring of \<open>Scif_Rb\<close>; the
  lemmas show that what one node sends is what the ring holds and what the peer decodes.

  Endpoints and windows live in maps from their addresses. A pointer to memory that was
  freed, or a second free, sets \<open>fault\<close>: the driver would touch memory it does not own.
\<close>

section \<open>Messages\<close>

datatype scif_epd_state = SCIFEP_UNBOUND | SCIFEP_BOUND | SCIFEP_LISTENING | SCIFEP_CONNECTED
  | SCIFEP_CONNECTING | SCIFEP_MAPPING | SCIFEP_CLOSING | SCIFEP_CLLISTEN | SCIFEP_DISCONNECTED
  | SCIFEP_ZOMBIE

datatype scif_msg_state = OP_IDLE | OP_IN_PROGRESS | OP_COMPLETED | OP_FAILED

record scif_port_id =
  pid_node :: u16
  pid_port :: u16

record scifmsg =
  msg_src :: scif_port_id
  msg_dst :: scif_port_id
  uop :: u32
  payload0 :: u64
  payload1 :: u64
  payload2 :: u64
  payload3 :: u64

abbreviation (input) SCIF_INIT :: u32 where "SCIF_INIT \<equiv> 1"
abbreviation (input) SCIF_EXIT :: u32 where "SCIF_EXIT \<equiv> 2"
abbreviation (input) SCIF_EXIT_ACK :: u32 where "SCIF_EXIT_ACK \<equiv> 3"
abbreviation (input) SCIF_NODE_ADD :: u32 where "SCIF_NODE_ADD \<equiv> 4"
abbreviation (input) SCIF_NODE_ADD_ACK :: u32 where "SCIF_NODE_ADD_ACK \<equiv> 5"
abbreviation (input) SCIF_NODE_ADD_NACK :: u32 where "SCIF_NODE_ADD_NACK \<equiv> 6"
abbreviation (input) SCIF_NODE_REMOVE :: u32 where "SCIF_NODE_REMOVE \<equiv> 7"
abbreviation (input) SCIF_NODE_REMOVE_ACK :: u32 where "SCIF_NODE_REMOVE_ACK \<equiv> 8"
abbreviation (input) SCIF_CNCT_REQ :: u32 where "SCIF_CNCT_REQ \<equiv> 9"
abbreviation (input) SCIF_CNCT_GNT :: u32 where "SCIF_CNCT_GNT \<equiv> 10"
abbreviation (input) SCIF_CNCT_GNTACK :: u32 where "SCIF_CNCT_GNTACK \<equiv> 11"
abbreviation (input) SCIF_CNCT_GNTNACK :: u32 where "SCIF_CNCT_GNTNACK \<equiv> 12"
abbreviation (input) SCIF_CNCT_REJ :: u32 where "SCIF_CNCT_REJ \<equiv> 13"
abbreviation (input) SCIF_DISCNCT :: u32 where "SCIF_DISCNCT \<equiv> 14"
abbreviation (input) SCIF_DISCNT_ACK :: u32 where "SCIF_DISCNT_ACK \<equiv> 15"
abbreviation (input) SCIF_CLIENT_SENT :: u32 where "SCIF_CLIENT_SENT \<equiv> 16"
abbreviation (input) SCIF_CLIENT_RCVD :: u32 where "SCIF_CLIENT_RCVD \<equiv> 17"
abbreviation (input) SCIF_GET_NODE_INFO :: u32 where "SCIF_GET_NODE_INFO \<equiv> 18"
abbreviation (input) SCIF_REGISTER :: u32 where "SCIF_REGISTER \<equiv> 19"
abbreviation (input) SCIF_REGISTER_ACK :: u32 where "SCIF_REGISTER_ACK \<equiv> 20"
abbreviation (input) SCIF_REGISTER_NACK :: u32 where "SCIF_REGISTER_NACK \<equiv> 21"
abbreviation (input) SCIF_UNREGISTER :: u32 where "SCIF_UNREGISTER \<equiv> 22"
abbreviation (input) SCIF_DELETE_WINDOW :: u32 where "SCIF_DELETE_WINDOW \<equiv> 23"
abbreviation (input) SCIF_USED_WINDOW :: u32 where "SCIF_USED_WINDOW \<equiv> 24"
abbreviation (input) SCIF_ALLOC_REQ :: u32 where "SCIF_ALLOC_REQ \<equiv> 25"
abbreviation (input) SCIF_ALLOC_GNT :: u32 where "SCIF_ALLOC_GNT \<equiv> 26"
abbreviation (input) SCIF_ALLOC_REJ :: u32 where "SCIF_ALLOC_REJ \<equiv> 27"
abbreviation (input) SCIF_FREE_VIRT :: u32 where "SCIF_FREE_VIRT \<equiv> 28"
abbreviation (input) SCIF_MARK :: u32 where "SCIF_MARK \<equiv> 29"
abbreviation (input) SCIF_MARK_ACK :: u32 where "SCIF_MARK_ACK \<equiv> 30"
abbreviation (input) SCIF_MARK_NACK :: u32 where "SCIF_MARK_NACK \<equiv> 31"
abbreviation (input) SCIF_WAIT :: u32 where "SCIF_WAIT \<equiv> 32"
abbreviation (input) SCIF_WAIT_ACK :: u32 where "SCIF_WAIT_ACK \<equiv> 33"
abbreviation (input) SCIF_WAIT_NACK :: u32 where "SCIF_WAIT_NACK \<equiv> 34"
abbreviation (input) SCIF_SIG_LOCAL :: u32 where "SCIF_SIG_LOCAL \<equiv> 35"
abbreviation (input) SCIF_SIG_REMOTE :: u32 where "SCIF_SIG_REMOTE \<equiv> 36"
abbreviation (input) SCIF_SIG_ACK :: u32 where "SCIF_SIG_ACK \<equiv> 37"
abbreviation (input) SCIF_SIG_NACK :: u32 where "SCIF_SIG_NACK \<equiv> 38"
abbreviation (input) SCIF_MAX_MSG :: u32 where "SCIF_MAX_MSG \<equiv> 38"

abbreviation (input) SCIFEP_MAGIC :: u64 where "SCIFEP_MAGIC \<equiv> 0x5c1f000000005c1f"
abbreviation (input) SCIF_MGMT_NODE :: u16 where "SCIF_MGMT_NODE \<equiv> 0"

section \<open>Queue pairs, windows, endpoints, devices\<close>

text \<open>
  A \<open>struct scif_qp\<close>. A ring of it is its cursor (\<open>outbound_q\<close>), the address in
  \<open>rb_base\<close> (0 is NULL), and the memory shared with the peer: the buffer and the two published
  pointers. The local word \<open>local_read\<close> of the structure is the read pointer of the outbound
  memory and \<open>local_write\<close> the write pointer of the inbound memory; \<open>inbound_rd\<close> tells whether
  the read pointer of the inbound ring is set.
\<close>

record scif_qp =
  magic :: u64
  outbound_q :: scif_rb
  outbound_base :: u64
  outbound_mem :: rb_mem
  inbound_q :: scif_rb
  inbound_base :: u64
  inbound_rd :: bool
  inbound_mem :: rb_mem
  remote_qp :: u64
  local_qp :: u64
  local_buf :: u64
  remote_buf :: u64
  qp_state :: u32

definition zero_rb :: scif_rb where
  "zero_rb = \<lparr>rb_size = 0, current_read_offset = 0, current_write_offset = 0\<rparr>"

definition zero_mem :: rb_mem where
  "zero_mem = \<lparr>rb_base = [], read_ptr = 0, write_ptr = 0\<rparr>"

definition zero_qp :: scif_qp where
  "zero_qp = \<lparr>magic = 0, outbound_q = zero_rb, outbound_base = 0, outbound_mem = zero_mem,
     inbound_q = zero_rb, inbound_base = 0, inbound_rd = False, inbound_mem = zero_mem,
     remote_qp = 0, local_qp = 0, local_buf = 0, remote_buf = 0, qp_state = 0\<rparr>"

datatype scif_window_type = SCIF_WINDOW_PARTIAL | SCIF_WINDOW_SINGLE | SCIF_WINDOW_FULL
  | SCIF_WINDOW_SELF | SCIF_WINDOW_PEER

datatype scif_unreg_state = SCIF_UNREG_NOT_INITIATED | SCIF_UNREG_REQUESTED
  | SCIF_UNREG_ACCEPTED | SCIF_UNREG_DENIED

text \<open>
  A \<open>struct scif_window\<close>. The \<open>s64\<close> fields are integers; the places that compute with them
  write the wrap-around out. \<open>win_st\<close> tells whether the scatter-gather table is allocated.
\<close>

record scif_window =
  nr_pages :: int
  nr_contig_chunks :: int
  prot :: int
  win_magic :: u64
  win_offset :: int
  va_for_temp :: int
  dma_mark :: int
  win_ep :: u64
  win_type :: scif_window_type
  peer_window :: u64
  offset_freed :: bool
  win_temp :: bool
  win_st :: bool
  pinned_pages :: u64
  alloc_vaddr :: u64
  alloc_phys :: u64
  alloc_state :: scif_msg_state
  reg_state :: scif_msg_state
  mapped_pages :: int
  unreg_state :: scif_unreg_state
  dma_addr :: "u64 list"
  num_pages :: "int list"
  win_pid :: u64
  nr_lookup :: int
  mapped_offset :: u64
  dma_lookup :: "u64 list"
  np_lookup :: "u64 list"

text \<open>
  A \<open>struct scif_pinned_pages\<close>: \<open>pin_pages\<close> are the physical addresses of the pages. A
  \<open>struct scif_mmu_notif\<close> holds the cached temporary windows of one process.
\<close>

record scif_pinned_pages =
  pin_nr_pages :: int
  pin_prot :: int
  map_flags :: int
  ref_count :: int
  pin_magic :: u64
  pin_pages :: "u64 list"

record scif_mmu_notif =
  mmn_ep :: u64
  mmn_mm :: u64
  tc_reg_list :: "u64 list"

record scif_endpt_rma_info =
  reg_list :: "u64 list"
  remote_reg_list :: "u64 list"
  iovad :: iova_domain
  tw_refcount :: int
  tcw_refcount :: int
  tcw_total_pages :: int
  fence_refcount :: int
  mmn_list :: "u64 list"
  dma_chan :: "int option"
  async_list_del :: int

record scif_endpt =
  ep_state :: scif_epd_state
  ep_port :: scif_port_id
  ep_peer :: scif_port_id
  backlog :: int
  qp :: "scif_qp option"
  qp_offset :: u64
  gnt_pld :: u64
  remote_dev :: "u16 option"
  remote_ep :: u64
  conreqcnt :: int
  ep_files :: u64
  conlist :: "scifmsg list"
  discon :: nat
  li_accept :: "u64 list"
  acceptcnt :: int
  listenep :: u64
  conn_port :: scif_port_id
  conn_err :: int
  conn_async_state :: int
  rma_info :: scif_endpt_rma_info
  anon :: bool

abbreviation (input) ASYNC_CONN_IDLE :: int where "ASYNC_CONN_IDLE \<equiv> 1"
abbreviation (input) ASYNC_CONN_INPROGRESS :: int where "ASYNC_CONN_INPROGRESS \<equiv> 2"
abbreviation (input) ASYNC_CONN_FLUSH_WORK :: int where "ASYNC_CONN_FLUSH_WORK \<equiv> 3"

definition zero_rma :: scif_endpt_rma_info where
  "zero_rma = \<lparr>reg_list = [], remote_reg_list = [], iovad = init_iova_domain 0, tw_refcount = 0,
     tcw_refcount = 0, tcw_total_pages = 0, fence_refcount = 0, mmn_list = [], dma_chan = None,
     async_list_del = 0\<rparr>"

definition zero_window :: scif_window where
  "zero_window = \<lparr>nr_pages = 0, nr_contig_chunks = 0, prot = 0, win_magic = 0, win_offset = 0, va_for_temp = 0,
     dma_mark = 0, win_ep = 0, win_type = SCIF_WINDOW_PARTIAL, peer_window = 0, offset_freed = False,
     win_temp = False, win_st = False, pinned_pages = 0, alloc_vaddr = 0, alloc_phys = 0, alloc_state = OP_IDLE,
     reg_state = OP_IDLE, mapped_pages = 0, unreg_state = SCIF_UNREG_NOT_INITIATED, dma_addr = [],
     num_pages = [], win_pid = 0, nr_lookup = 0, mapped_offset = 0, dma_lookup = [], np_lookup = []\<rparr>"

definition zero_ep :: scif_endpt where
  "zero_ep = \<lparr>ep_state = SCIFEP_UNBOUND, ep_port = \<lparr>pid_node = 0, pid_port = 0\<rparr>,
     ep_peer = \<lparr>pid_node = 0, pid_port = 0\<rparr>, backlog = 0, qp = None, qp_offset = 0, gnt_pld = 0,
     remote_dev = None, remote_ep = 0, conreqcnt = 0, ep_files = 0, conlist = [], discon = 0,
     li_accept = [], acceptcnt = 0, listenep = 0, conn_port = \<lparr>pid_node = 0, pid_port = 0\<rparr>,
     conn_err = 0, conn_async_state = 0, rma_info = zero_rma, anon = False\<rparr>"

record scif_p2p_info =
  ppi_peer_id :: u8
  ppi_da_mmio :: u64
  ppi_da_aper :: u64
  ppi_len_mmio :: u64
  ppi_len_aper :: u64

text \<open>
  A \<open>struct scif_fence_info\<close>, a request to the peer that a thread waits for: \<open>fi_comp\<close> tells
  whether it was completed.
\<close>

record scif_fence_info =
  fi_state :: scif_msg_state
  fi_comp :: bool
  fi_mark :: int

text \<open>
  A \<open>struct scif_dev\<close>: \<open>peer_dev\<close> tells whether the pointer to the peer device is set,
  \<open>peer_refs\<close> counts the references taken on it with \<open>get_device\<close>, \<open>intrs\<close> the doorbells rung;
  \<open>aper_pa\<close> is the aperture of the hardware device, if it has one, and \<open>qp_dwork\<close> and
  \<open>p2p_dwork\<close> tell whether the delayed work is scheduled.
\<close>

record scif_dev =
  dev_node :: u8
  peer_dev :: bool
  peer_refs :: int
  qpairs :: "scif_qp option"
  qp_dma_addr :: u64
  sdev :: bool
  num_dma_ch :: int
  dma_ch_idx :: int
  dev_exit :: scif_msg_state
  node_remove_ack_pending :: bool
  exit_ack_pending :: bool
  disconn_rescnt :: int
  p2p :: "scif_p2p_info list"
  p2p_retry :: int
  base_addr :: u64
  mmio_va :: u64
  rdb :: int
  db :: int
  cookie :: bool
  intr_wq :: bool
  intrs :: nat
  aper_pa :: "u64 option"
  card_rel_da :: bool
  mmio_pa :: u64
  mmio_len :: u64
  aper_len :: u64
  qp_dwork :: bool
  p2p_dwork :: bool

text \<open>
  The global state of one node: \<open>struct scif_info\<close>, the array \<open>scif_dev\<close> by index, the ordered
  loopback work queue, and the memory. \<open>comps\<close> are the completions that threads wait for on
  their stacks and whether they are complete, \<open>signals\<close> the values that fences have stored, with
  their addresses, and \<open>peer_maps\<close> the bus addresses that are mapped for each device to reach
  the resources of another one.
\<close>

record scif_node =
  nodeid :: u8
  maxid :: u8
  total :: u8
  nr_zombies :: u32
  ports :: scif_ports
  uaccept :: "u64 list"
  listen :: "u64 list"
  zombie :: "u64 list"
  connected :: "u64 list"
  disconnected :: "u64 list"
  nb_connect_list :: "u64 list"
  p2p_enable :: bool
  card_initiated_exit :: bool
  rma_free :: "u64 list"
  rma_tc :: "u64 list"
  mmu_notif_cleanup :: "u64 list"
  fence :: "scifmsg list"
  rma_tc_limit :: int
  loopb_wq :: "scifmsg list"
  devs :: "u16 \<Rightarrow> scif_dev"
  eps :: "u64 \<rightharpoonup> scif_endpt"
  wins :: "u64 \<rightharpoonup> scif_window"
  pins :: "u64 \<rightharpoonup> scif_pinned_pages"
  mmns :: "u64 \<rightharpoonup> scif_mmu_notif"
  pinned_vm :: "u64 \<Rightarrow> int"
  fence_reqs :: "u64 \<rightharpoonup> scif_fence_info"
  comps :: "u64 \<rightharpoonup> bool"
  signals :: "(u64 \<times> u64) list"
  peer_maps :: "(u16 \<times> u64) list"
  live :: "u64 set"
  fault :: bool

text \<open>The state that \<open>_scif_init\<close> leaves: empty lists, and the zeroed array of devices with its node numbers.\<close>

definition zero_dev :: scif_dev where
  "zero_dev = \<lparr>dev_node = 0, peer_dev = False, peer_refs = 0, qpairs = None, qp_dma_addr = 0, sdev = False, num_dma_ch = 0,
     dma_ch_idx = 0, dev_exit = OP_IDLE, node_remove_ack_pending = False, exit_ack_pending = False,
     disconn_rescnt = 0, p2p = [], p2p_retry = 0, base_addr = 0, mmio_va = 0, rdb = 0, db = 0,
     cookie = False, intr_wq = False, intrs = 0, aper_pa = None,
     card_rel_da = False, mmio_pa = 0, mmio_len = 0, aper_len = 0, qp_dwork = False, p2p_dwork = False\<rparr>"

definition scif_setup_scifdev :: "u16 \<Rightarrow> scif_dev" where
  "scif_setup_scifdev i = zero_dev\<lparr>dev_node := ucast i, dev_exit := OP_IDLE, p2p := []\<rparr>"

abbreviation (input) SCIF_RMA_TEMP_CACHE_LIMIT :: int where "SCIF_RMA_TEMP_CACHE_LIMIT \<equiv> 0x20000"

definition scif_init_state :: scif_node where
  "scif_init_state = \<lparr>nodeid = 0, maxid = 0, total = 0, nr_zombies = 0, ports = Map.empty, uaccept = [],
     listen = [], zombie = [], connected = [], disconnected = [], nb_connect_list = [], p2p_enable = True,
     card_initiated_exit = False, rma_free = [], rma_tc = [], mmu_notif_cleanup = [], fence = [], rma_tc_limit = SCIF_RMA_TEMP_CACHE_LIMIT, loopb_wq = [],
     devs = scif_setup_scifdev, eps = Map.empty, wins = Map.empty, pins = Map.empty, mmns = Map.empty,
     pinned_vm = (\<lambda>_. 0), fence_reqs = Map.empty, comps = Map.empty, signals = [], peer_maps = [], live = {}, fault = False\<rparr>"

section \<open>Access to memory and devices\<close>

definition ep_upd :: "u64 \<Rightarrow> (scif_endpt \<Rightarrow> scif_endpt) \<Rightarrow> scif_node \<Rightarrow> scif_node" where
  "ep_upd a f st =
     (case eps st a of None \<Rightarrow> st\<lparr>fault := True\<rparr> | Some e \<Rightarrow> st\<lparr>eps := (eps st)(a \<mapsto> f e)\<rparr>)"

definition win_upd :: "u64 \<Rightarrow> (scif_window \<Rightarrow> scif_window) \<Rightarrow> scif_node \<Rightarrow> scif_node" where
  "win_upd a f st =
     (case wins st a of None \<Rightarrow> st\<lparr>fault := True\<rparr> | Some e \<Rightarrow> st\<lparr>wins := (wins st)(a \<mapsto> f e)\<rparr>)"

definition dev_upd :: "u16 \<Rightarrow> (scif_dev \<Rightarrow> scif_dev) \<Rightarrow> scif_node \<Rightarrow> scif_node" where
  "dev_upd d f st = st\<lparr>devs := (devs st)(d := f (devs st d))\<rparr>"

definition kfree :: "u64 \<Rightarrow> scif_node \<Rightarrow> scif_node" where
  "kfree p st =
     (if p = 0 then st
      else if p \<in> live st then st\<lparr>live := live st - {p}\<rparr> else st\<lparr>fault := True\<rparr>)"

text \<open>\<open>p\<close> is the address that the allocator returns, 0 where it fails.\<close>

definition kzalloc :: "u64 \<Rightarrow> scif_node \<Rightarrow> scif_node" where
  "kzalloc p st = (if p = 0 then st else st\<lparr>live := insert p (live st)\<rparr>)"

definition scifdev_self :: "u16 \<Rightarrow> scif_node \<Rightarrow> bool" where
  "scifdev_self d st \<longleftrightarrow> dev_node (devs st d) = nodeid st"

definition scif_is_mgmt_node :: "scif_node \<Rightarrow> bool" where
  "scif_is_mgmt_node st \<longleftrightarrow> nodeid st = 0"

definition scifdev_is_p2p :: "u16 \<Rightarrow> scif_node \<Rightarrow> bool" where
  "scifdev_is_p2p d st =
     (if scif_is_mgmt_node st then False else d \<noteq> SCIF_MGMT_NODE \<and> \<not> scifdev_self d st)"

definition scifdev_alive_dev :: "u16 \<Rightarrow> scif_node \<Rightarrow> bool" where
  "scifdev_alive_dev d st \<longleftrightarrow> peer_dev (devs st d)"

definition scif_get_peer_dev :: "u16 \<Rightarrow> scif_node \<Rightarrow> bool \<times> scif_node" where
  "scif_get_peer_dev d st =
     (if peer_dev (devs st d) then (True, dev_upd d (\<lambda>v. v\<lparr>peer_refs := peer_refs v + 1\<rparr>) st)
      else (False, st))"

definition scif_put_peer_dev :: "bool \<Rightarrow> u16 \<Rightarrow> scif_node \<Rightarrow> scif_node" where
  "scif_put_peer_dev spdev d st =
     (if spdev then dev_upd d (\<lambda>v. v\<lparr>peer_refs := peer_refs v - 1\<rparr>) st else st)"

section \<open>The packed message\<close>

definition le_bytes :: "nat \<Rightarrow> nat \<Rightarrow> u8 list" where
  "le_bytes n x = map (\<lambda>i. word_of_nat (x div 256 ^ i)) [0..<n]"

fun le_val :: "u8 list \<Rightarrow> nat" where
  "le_val [] = 0"
| "le_val (b # bs) = unat b + 256 * le_val bs"

definition msg_bytes :: "scifmsg \<Rightarrow> u8 list" where
  "msg_bytes m =
     le_bytes 2 (unat (pid_node (msg_src m))) @ le_bytes 2 (unat (pid_port (msg_src m))) @
     le_bytes 2 (unat (pid_node (msg_dst m))) @ le_bytes 2 (unat (pid_port (msg_dst m))) @
     le_bytes 4 (unat (uop m)) @ le_bytes 8 (unat (payload0 m)) @ le_bytes 8 (unat (payload1 m)) @
     le_bytes 8 (unat (payload2 m)) @ le_bytes 8 (unat (payload3 m))"

definition msg_of :: "u8 list \<Rightarrow> scifmsg" where
  "msg_of bs =
     \<lparr>msg_src = \<lparr>pid_node = of_nat (le_val (take 2 bs)), pid_port = of_nat (le_val (take 2 (drop 2 bs)))\<rparr>,
      msg_dst = \<lparr>pid_node = of_nat (le_val (take 2 (drop 4 bs))), pid_port = of_nat (le_val (take 2 (drop 6 bs)))\<rparr>,
      uop = of_nat (le_val (take 4 (drop 8 bs))),
      payload0 = of_nat (le_val (take 8 (drop 12 bs))), payload1 = of_nat (le_val (take 8 (drop 20 bs))),
      payload2 = of_nat (le_val (take 8 (drop 28 bs))), payload3 = of_nat (le_val (take 8 (drop 36 bs)))\<rparr>"

abbreviation (input) MSG_SIZE :: nat where "MSG_SIZE \<equiv> 44"

section \<open>Sending on the node queue pair\<close>

text \<open>
  What the kernel and the peer contribute to one send: whether \<open>kmem_cache_alloc\<close> succeeds for
  a loopback message, and what the peer does to the ring during the \<open>n\<close>-th \<open>udelay\<close>.
\<close>

record nodeqp_env =
  loopb_alloc :: bool
  peer_reads :: "nat \<Rightarrow> rb_mem \<Rightarrow> rb_mem"

abbreviation (input) NODEQP_DELAY_LOOPS :: nat where "NODEQP_DELAY_LOOPS \<equiv> 300000"

text \<open>
  The retry loop. It fails at the write number \<open>NODEQP_DELAY_LOOPS + 2\<close>; \<open>n\<close> counts the
  delays that are left.
\<close>

fun nodeqp_write :: "(nat \<Rightarrow> rb_mem \<Rightarrow> rb_mem) \<Rightarrow> nat \<Rightarrow> scif_rb \<Rightarrow> rb_mem \<Rightarrow> u8 list
    \<Rightarrow> (int \<times> scif_rb \<times> rb_mem) option" where
  "nodeqp_write reads n rb m bytes =
     (case scif_rb_write rb m bytes (of_nat MSG_SIZE) of
        None \<Rightarrow> None
      | Some (err, rb', m') \<Rightarrow>
          if err = 0 then Some (0, rb', m')
          else case n of
                 0 \<Rightarrow> Some (- ENODEV, rb', m')
               | Suc n' \<Rightarrow> nodeqp_write reads n' rb' (reads n m') bytes)"

declare nodeqp_write.simps [simp del]

definition scif_loopback_nodeqp_send :: "bool \<Rightarrow> scifmsg \<Rightarrow> scif_node \<Rightarrow> int \<times> scif_node" where
  "scif_loopback_nodeqp_send alloc msg st =
     (if \<not> alloc then (- ENOMEM, st) else (0, st\<lparr>loopb_wq := loopb_wq st @ [msg]\<rparr>))"

definition raw_nodeqp_send :: "nodeqp_env \<Rightarrow> u16 \<Rightarrow> scifmsg \<Rightarrow> scif_node \<Rightarrow> int \<times> scif_node" where
  "raw_nodeqp_send q d msg st =
     (if scifdev_self d st then scif_loopback_nodeqp_send (loopb_alloc q) msg st
      else case qpairs (devs st d) of
             None \<Rightarrow> (- EINVAL, st)
           | Some p \<Rightarrow>
               (case nodeqp_write (peer_reads q) (Suc NODEQP_DELAY_LOOPS) (outbound_q p) (outbound_mem p)
                       (msg_bytes msg) of
                  None \<Rightarrow> (0, st\<lparr>fault := True\<rparr>)
                | Some (err, rb, m) \<Rightarrow>
                    if err = 0
                    then (0, dev_upd d (\<lambda>v. v\<lparr>qpairs := Some (p\<lparr>outbound_q := rb,
                               outbound_mem := scif_rb_commit rb m\<rparr>), intrs := Suc (intrs v)\<rparr>) st)
                    else (err, dev_upd d (\<lambda>v. v\<lparr>qpairs := Some (p\<lparr>outbound_q := rb,
                               outbound_mem := m\<rparr>)\<rparr>) st)))"

definition scif_nodeqp_send :: "nodeqp_env \<Rightarrow> u16 \<Rightarrow> scifmsg \<Rightarrow> scif_node \<Rightarrow> int \<times> scif_node" where
  "scif_nodeqp_send q d msg st =
     (if uop msg > SCIF_EXIT_ACK then
        (if dev_exit (devs st d) \<noteq> OP_IDLE then (- ENODEV, st)
         else let (spdev, st1) = scif_get_peer_dev d st
              in if \<not> spdev then (- ENODEV, st1)
                 else let (err, st2) = raw_nodeqp_send q d msg st1
                      in (err, scif_put_peer_dev spdev d st2))
      else raw_nodeqp_send q d msg st)"

section \<open>Messages survive packing\<close>

lemma length_le_bytes [simp]: "length (le_bytes n x) = n"
  by (simp add: le_bytes_def)

lemma le_bytes_Suc: "le_bytes (Suc n) x = word_of_nat x # le_bytes n (x div 256)"
  by (rule nth_equalityI)
    (auto simp: le_bytes_def nth_Cons div_mult2_eq simp del: upt_Suc split: nat.splits)

lemma le_val_bytes: "le_val (le_bytes n x) = x mod 256 ^ n"
proof (induction n arbitrary: x)
  case (Suc n)
  have "x mod (256 * 256 ^ n) = x mod 256 + 256 * (x div 256 mod 256 ^ n)"
    by (simp add: mod_mult2_eq)
  then show ?case by (simp add: le_bytes_Suc Suc unsigned_of_nat take_bit_eq_mod)
qed (simp add: le_bytes_def)

lemma length_msg_bytes [simp]: "length (msg_bytes m) = MSG_SIZE"
  by (simp add: msg_bytes_def)

lemma le_unat:
  "of_nat (le_val (le_bytes 2 (unat (a :: u16)))) = a"
  "of_nat (le_val (le_bytes 4 (unat (b :: u32)))) = b"
  "of_nat (le_val (le_bytes 8 (unat (c :: u64)))) = c"
  using unsigned_less [of a, where 'a = nat] unsigned_less [of b, where 'a = nat]
    unsigned_less [of c, where 'a = nat]
  by (simp_all add: le_val_bytes)

lemma msg_of_bytes [simp]: "msg_of (msg_bytes m) = m"
  by (simp add: msg_of_def msg_bytes_def le_unat)

section \<open>The node queue as a queue of messages\<close>

text \<open>
  The ring from this node to a peer, with the cursor \<open>r\<close> of the peer, and the messages on it.
\<close>

definition link :: "scif_qp \<Rightarrow> scif_rb \<Rightarrow> rb_chan" where
  "link p r = \<lparr>mem = outbound_mem p, tx = outbound_q p, rx = r\<rparr>"

definition queued :: "scifmsg list \<Rightarrow> rb_chan \<Rightarrow> bool" where
  "queued ms c \<longleftrightarrow> unread c = concat (map msg_bytes ms) \<and> pending c = []"

text \<open>
  What the peer may do during a delay: it takes whole messages from the front of the queue.
\<close>

definition reader_ok :: "nat \<Rightarrow> (nat \<Rightarrow> rb_mem \<Rightarrow> rb_mem) \<Rightarrow> bool" where
  "reader_ok k reads \<longleftrightarrow> (\<forall>n c ms. chan_inv k c \<and> queued ms c \<longrightarrow>
     (\<exists>r j. chan_inv k (c\<lparr>mem := reads n (mem c), rx := r\<rparr>) \<and>
            queued (drop j ms) (c\<lparr>mem := reads n (mem c), rx := r\<rparr>)))"

lemma reader_idle: "reader_ok k (\<lambda>_ m. m)"
  unfolding reader_ok_def
proof (intro allI impI)
  fix n :: nat and c ms
  assume "chan_inv k c \<and> queued ms c"
  then have "chan_inv k (c\<lparr>mem := mem c, rx := rx c\<rparr>) \<and> queued (drop 0 ms) (c\<lparr>mem := mem c, rx := rx c\<rparr>)"
    by simp
  then show "\<exists>r j. chan_inv k (c\<lparr>mem := mem c, rx := r\<rparr>) \<and> queued (drop j ms) (c\<lparr>mem := mem c, rx := r\<rparr>)"
    by blast
qed

text \<open>One write of a message: it either fits, and is then pending behind the queue, or nothing happens.\<close>

lemma write_message:
  assumes inv: "chan_inv k c" and q: "queued ms c"
  obtains "scif_rb_write (tx c) (mem c) (msg_bytes msg) (of_nat MSG_SIZE) = Some (- ENOMEM, tx c, mem c)"
  | t m where "scif_rb_write (tx c) (mem c) (msg_bytes msg) (of_nat MSG_SIZE) = Some (0, t, m)"
      "chan_inv k (c\<lparr>mem := m, tx := t\<rparr>)" "unread (c\<lparr>mem := m, tx := t\<rparr>) = concat (map msg_bytes ms)"
      "pending (c\<lparr>mem := m, tx := t\<rparr>) = msg_bytes msg"
proof (cases "held c + unread_len c + pending_len c + MSG_SIZE < 2 ^ k")
  case True
  have room: "held c + unread_len c + pending_len c + unat (of_nat MSG_SIZE :: u32) < 2 ^ k"
    using True by simp
  obtain t m where "scif_rb_write (tx c) (mem c) (msg_bytes msg) (of_nat MSG_SIZE) = Some (0, t, m)"
      "chan_inv k (c\<lparr>tx := t, mem := m\<rparr>)" "unread (c\<lparr>tx := t, mem := m\<rparr>) = unread c"
      "pending (c\<lparr>tx := t, mem := m\<rparr>) = pending c @ take (unat (of_nat MSG_SIZE :: u32)) (msg_bytes msg)"
    by (rule scif_rb_write_chan [OF inv room, of "msg_bytes msg"]) simp
  moreover have "c\<lparr>tx := t, mem := m\<rparr> = c\<lparr>mem := m, tx := t\<rparr>" by simp
  ultimately show thesis using q that(2) by (simp add: queued_def)
next
  case False
  with inv have "scif_rb_write (tx c) (mem c) (msg_bytes msg) (of_nat MSG_SIZE) = Some (- ENOMEM, tx c, mem c)"
    by (intro scif_rb_write_full) auto
  with that(1) show thesis .
qed

text \<open>The retry loop: it ends with the message pending, or after the last delay with \<open>-ENODEV\<close>.\<close>

lemma nodeqp_write_spec:
  assumes "reader_ok k reads" "chan_inv k c" "queued ms c"
  shows "\<exists>m t r j. chan_inv k (c\<lparr>mem := m, tx := t, rx := r\<rparr>) \<and>
     (nodeqp_write reads n (tx c) (mem c) (msg_bytes msg) = Some (0, t, m) \<and>
        unread (c\<lparr>mem := m, tx := t, rx := r\<rparr>) = concat (map msg_bytes (drop j ms)) \<and>
        pending (c\<lparr>mem := m, tx := t, rx := r\<rparr>) = msg_bytes msg \<or>
      nodeqp_write reads n (tx c) (mem c) (msg_bytes msg) = Some (- ENODEV, t, m) \<and>
        queued (drop j ms) (c\<lparr>mem := m, tx := t, rx := r\<rparr>))"
  using assms(2,3)
proof (induction n arbitrary: c ms)
  case 0
  from 0 show ?case
  proof (cases rule: write_message [of k c ms msg])
    case 1
    with 0 have "nodeqp_write reads 0 (tx c) (mem c) (msg_bytes msg) = Some (- ENODEV, tx c, mem c)"
      by (simp add: nodeqp_write.simps [of reads 0])
    with 0 show ?thesis
      by - (rule exI [of _ "mem c"], rule exI [of _ "tx c"], rule exI [of _ "rx c"], rule exI [of _ 0], simp)
  next
    case (2 t m)
    then have "nodeqp_write reads 0 (tx c) (mem c) (msg_bytes msg) = Some (0, t, m)"
      by (simp add: nodeqp_write.simps [of reads 0])
    with 2 show ?thesis
      by - (rule exI [of _ m], rule exI [of _ t], rule exI [of _ "rx c"], rule exI [of _ 0], simp)
  qed
next
  case (Suc n)
  from Suc.prems show ?case
  proof (cases rule: write_message [of k c ms msg])
    case 1
    then have step: "nodeqp_write reads (Suc n) (tx c) (mem c) (msg_bytes msg) =
        nodeqp_write reads n (tx c) (reads (Suc n) (mem c)) (msg_bytes msg)"
      by (simp add: nodeqp_write.simps [of reads "Suc n"])
    obtain r j where c': "chan_inv k (c\<lparr>mem := reads (Suc n) (mem c), rx := r\<rparr>)"
        "queued (drop j ms) (c\<lparr>mem := reads (Suc n) (mem c), rx := r\<rparr>)"
      using assms(1) Suc.prems unfolding reader_ok_def by blast
    show ?thesis using Suc.IH [OF c'] unfolding step by (auto simp add: drop_drop)
  next
    case (2 t m)
    then have "nodeqp_write reads (Suc n) (tx c) (mem c) (msg_bytes msg) = Some (0, t, m)"
      by (simp add: nodeqp_write.simps [of reads "Suc n"])
    with 2 show ?thesis
      by - (rule exI [of _ m], rule exI [of _ t], rule exI [of _ "rx c"], rule exI [of _ 0], simp)
  qed
qed

text \<open>Sending touches the queue of the device, the loopback queue and nothing else.\<close>

lemma dev_upd_frame [simp]:
  "nodeid (dev_upd d f st) = nodeid st" "maxid (dev_upd d f st) = maxid st" "total (dev_upd d f st) = total st"
  "nr_zombies (dev_upd d f st) = nr_zombies st" "ports (dev_upd d f st) = ports st"
  "uaccept (dev_upd d f st) = uaccept st" "listen (dev_upd d f st) = listen st" "zombie (dev_upd d f st) = zombie st"
  "connected (dev_upd d f st) = connected st" "disconnected (dev_upd d f st) = disconnected st"
  "nb_connect_list (dev_upd d f st) = nb_connect_list st" "p2p_enable (dev_upd d f st) = p2p_enable st"
  "card_initiated_exit (dev_upd d f st) = card_initiated_exit st" "rma_free (dev_upd d f st) = rma_free st"
  "rma_tc (dev_upd d f st) = rma_tc st" "mmu_notif_cleanup (dev_upd d f st) = mmu_notif_cleanup st"
  "fence (dev_upd d f st) = fence st" "rma_tc_limit (dev_upd d f st) = rma_tc_limit st"
  "eps (dev_upd d f st) = eps st" "wins (dev_upd d f st) = wins st" "pins (dev_upd d f st) = pins st"
  "mmns (dev_upd d f st) = mmns st" "pinned_vm (dev_upd d f st) = pinned_vm st" "live (dev_upd d f st) = live st"
  "loopb_wq (dev_upd d f st) = loopb_wq st" "fault (dev_upd d f st) = fault st"
  "devs (dev_upd d f st) = (devs st)(d := f (devs st d))"
  by (simp_all add: dev_upd_def)

lemma raw_nodeqp_send_frame [simp]:
  "nodeid (snd (raw_nodeqp_send q d msg st)) = nodeid st" "maxid (snd (raw_nodeqp_send q d msg st)) = maxid st"
  "total (snd (raw_nodeqp_send q d msg st)) = total st"
  "nr_zombies (snd (raw_nodeqp_send q d msg st)) = nr_zombies st"
  "ports (snd (raw_nodeqp_send q d msg st)) = ports st" "uaccept (snd (raw_nodeqp_send q d msg st)) = uaccept st"
  "listen (snd (raw_nodeqp_send q d msg st)) = listen st" "zombie (snd (raw_nodeqp_send q d msg st)) = zombie st"
  "connected (snd (raw_nodeqp_send q d msg st)) = connected st"
  "disconnected (snd (raw_nodeqp_send q d msg st)) = disconnected st"
  "nb_connect_list (snd (raw_nodeqp_send q d msg st)) = nb_connect_list st"
  "p2p_enable (snd (raw_nodeqp_send q d msg st)) = p2p_enable st"
  "card_initiated_exit (snd (raw_nodeqp_send q d msg st)) = card_initiated_exit st"
  "rma_free (snd (raw_nodeqp_send q d msg st)) = rma_free st" "rma_tc (snd (raw_nodeqp_send q d msg st)) = rma_tc st"
  "mmu_notif_cleanup (snd (raw_nodeqp_send q d msg st)) = mmu_notif_cleanup st"
  "fence (snd (raw_nodeqp_send q d msg st)) = fence st"
  "rma_tc_limit (snd (raw_nodeqp_send q d msg st)) = rma_tc_limit st"
  "eps (snd (raw_nodeqp_send q d msg st)) = eps st" "wins (snd (raw_nodeqp_send q d msg st)) = wins st"
  "pins (snd (raw_nodeqp_send q d msg st)) = pins st" "mmns (snd (raw_nodeqp_send q d msg st)) = mmns st"
  "pinned_vm (snd (raw_nodeqp_send q d msg st)) = pinned_vm st" "live (snd (raw_nodeqp_send q d msg st)) = live st"
  by (simp_all add: raw_nodeqp_send_def scif_loopback_nodeqp_send_def split_beta split: option.split)

lemma scif_get_peer_dev_frame [simp]:
  "nodeid (snd (scif_get_peer_dev d st)) = nodeid st" "maxid (snd (scif_get_peer_dev d st)) = maxid st"
  "total (snd (scif_get_peer_dev d st)) = total st" "nr_zombies (snd (scif_get_peer_dev d st)) = nr_zombies st"
  "ports (snd (scif_get_peer_dev d st)) = ports st" "uaccept (snd (scif_get_peer_dev d st)) = uaccept st"
  "listen (snd (scif_get_peer_dev d st)) = listen st" "zombie (snd (scif_get_peer_dev d st)) = zombie st"
  "connected (snd (scif_get_peer_dev d st)) = connected st"
  "disconnected (snd (scif_get_peer_dev d st)) = disconnected st"
  "nb_connect_list (snd (scif_get_peer_dev d st)) = nb_connect_list st"
  "p2p_enable (snd (scif_get_peer_dev d st)) = p2p_enable st"
  "card_initiated_exit (snd (scif_get_peer_dev d st)) = card_initiated_exit st"
  "rma_free (snd (scif_get_peer_dev d st)) = rma_free st" "rma_tc (snd (scif_get_peer_dev d st)) = rma_tc st"
  "mmu_notif_cleanup (snd (scif_get_peer_dev d st)) = mmu_notif_cleanup st"
  "fence (snd (scif_get_peer_dev d st)) = fence st" "rma_tc_limit (snd (scif_get_peer_dev d st)) = rma_tc_limit st"
  "eps (snd (scif_get_peer_dev d st)) = eps st" "wins (snd (scif_get_peer_dev d st)) = wins st"
  "pins (snd (scif_get_peer_dev d st)) = pins st" "mmns (snd (scif_get_peer_dev d st)) = mmns st"
  "pinned_vm (snd (scif_get_peer_dev d st)) = pinned_vm st" "live (snd (scif_get_peer_dev d st)) = live st"
  "loopb_wq (snd (scif_get_peer_dev d st)) = loopb_wq st" "fault (snd (scif_get_peer_dev d st)) = fault st"
  by (simp_all add: scif_get_peer_dev_def)

lemma scif_put_peer_dev_frame [simp]:
  "nodeid (scif_put_peer_dev b d st) = nodeid st" "maxid (scif_put_peer_dev b d st) = maxid st"
  "total (scif_put_peer_dev b d st) = total st" "nr_zombies (scif_put_peer_dev b d st) = nr_zombies st"
  "ports (scif_put_peer_dev b d st) = ports st" "uaccept (scif_put_peer_dev b d st) = uaccept st"
  "listen (scif_put_peer_dev b d st) = listen st" "zombie (scif_put_peer_dev b d st) = zombie st"
  "connected (scif_put_peer_dev b d st) = connected st" "disconnected (scif_put_peer_dev b d st) = disconnected st"
  "nb_connect_list (scif_put_peer_dev b d st) = nb_connect_list st"
  "p2p_enable (scif_put_peer_dev b d st) = p2p_enable st"
  "card_initiated_exit (scif_put_peer_dev b d st) = card_initiated_exit st"
  "rma_free (scif_put_peer_dev b d st) = rma_free st" "rma_tc (scif_put_peer_dev b d st) = rma_tc st"
  "mmu_notif_cleanup (scif_put_peer_dev b d st) = mmu_notif_cleanup st" "fence (scif_put_peer_dev b d st) = fence st"
  "rma_tc_limit (scif_put_peer_dev b d st) = rma_tc_limit st" "eps (scif_put_peer_dev b d st) = eps st"
  "wins (scif_put_peer_dev b d st) = wins st" "pins (scif_put_peer_dev b d st) = pins st"
  "mmns (scif_put_peer_dev b d st) = mmns st" "pinned_vm (scif_put_peer_dev b d st) = pinned_vm st"
  "live (scif_put_peer_dev b d st) = live st" "loopb_wq (scif_put_peer_dev b d st) = loopb_wq st"
  "fault (scif_put_peer_dev b d st) = fault st"
  by (simp_all add: scif_put_peer_dev_def)

lemma scif_nodeqp_send_frame [simp]:
  "nodeid (snd (scif_nodeqp_send q d msg st)) = nodeid st" "maxid (snd (scif_nodeqp_send q d msg st)) = maxid st"
  "total (snd (scif_nodeqp_send q d msg st)) = total st"
  "nr_zombies (snd (scif_nodeqp_send q d msg st)) = nr_zombies st"
  "ports (snd (scif_nodeqp_send q d msg st)) = ports st" "uaccept (snd (scif_nodeqp_send q d msg st)) = uaccept st"
  "listen (snd (scif_nodeqp_send q d msg st)) = listen st" "zombie (snd (scif_nodeqp_send q d msg st)) = zombie st"
  "connected (snd (scif_nodeqp_send q d msg st)) = connected st"
  "disconnected (snd (scif_nodeqp_send q d msg st)) = disconnected st"
  "nb_connect_list (snd (scif_nodeqp_send q d msg st)) = nb_connect_list st"
  "p2p_enable (snd (scif_nodeqp_send q d msg st)) = p2p_enable st"
  "card_initiated_exit (snd (scif_nodeqp_send q d msg st)) = card_initiated_exit st"
  "rma_free (snd (scif_nodeqp_send q d msg st)) = rma_free st"
  "rma_tc (snd (scif_nodeqp_send q d msg st)) = rma_tc st"
  "mmu_notif_cleanup (snd (scif_nodeqp_send q d msg st)) = mmu_notif_cleanup st"
  "fence (snd (scif_nodeqp_send q d msg st)) = fence st"
  "rma_tc_limit (snd (scif_nodeqp_send q d msg st)) = rma_tc_limit st"
  "eps (snd (scif_nodeqp_send q d msg st)) = eps st" "wins (snd (scif_nodeqp_send q d msg st)) = wins st"
  "pins (snd (scif_nodeqp_send q d msg st)) = pins st" "mmns (snd (scif_nodeqp_send q d msg st)) = mmns st"
  "pinned_vm (snd (scif_nodeqp_send q d msg st)) = pinned_vm st" "live (snd (scif_nodeqp_send q d msg st)) = live st"
  by (simp_all add: scif_nodeqp_send_def split_beta Let_def)

lemma commit_message:
  assumes "chan_inv k c" "unread c = concat (map msg_bytes ms)" "pending c = msg_bytes msg"
  shows "chan_inv k (c\<lparr>mem := scif_rb_commit (tx c) (mem c)\<rparr>) \<and>
    queued (ms @ [msg]) (c\<lparr>mem := scif_rb_commit (tx c) (mem c)\<rparr>)"
  using scif_rb_commit_chan [OF assms(1)] assms(2,3) by (simp add: queued_def)

lemma raw_send_peer:
  assumes inv: "chan_inv k (link p r)" and q: "queued ms (link p r)" and rd: "reader_ok k (peer_reads q)"
    and qp: "qpairs (devs st d) = Some p" and other: "\<not> scifdev_self d st"
    and send: "raw_nodeqp_send q d msg st = (err, st')"
  shows "\<exists>p' r' j. chan_inv k (link p' r') \<and>
     (err = 0 \<and> st' = dev_upd d (\<lambda>v. v\<lparr>qpairs := Some p', intrs := Suc (intrs v)\<rparr>) st \<and>
        queued (drop j ms @ [msg]) (link p' r') \<or>
      err = - ENODEV \<and> st' = dev_upd d (\<lambda>v. v\<lparr>qpairs := Some p'\<rparr>) st \<and>
        queued (drop j ms) (link p' r'))"
proof -
  let ?w = "nodeqp_write (peer_reads q) (Suc NODEQP_DELAY_LOOPS) (outbound_q p) (outbound_mem p) (msg_bytes msg)"
  obtain m t r' j where inv': "chan_inv k (link p r\<lparr>mem := m, tx := t, rx := r'\<rparr>)" and
    cases: "?w = Some (0, t, m) \<and>
        unread (link p r\<lparr>mem := m, tx := t, rx := r'\<rparr>) = concat (map msg_bytes (drop j ms)) \<and>
        pending (link p r\<lparr>mem := m, tx := t, rx := r'\<rparr>) = msg_bytes msg \<or>
      ?w = Some (- ENODEV, t, m) \<and> queued (drop j ms) (link p r\<lparr>mem := m, tx := t, rx := r'\<rparr>)"
    using nodeqp_write_spec [OF rd inv q, of "Suc NODEQP_DELAY_LOOPS" msg] by (simp add: link_def) blast
  let ?p = "\<lambda>m'. p\<lparr>outbound_q := t, outbound_mem := m'\<rparr>"
  have link: "link (?p m') r' = link p r\<lparr>mem := m', tx := t, rx := r'\<rparr>" for m' by (simp add: link_def)
  from cases show ?thesis
  proof
    assume a: "?w = Some (0, t, m) \<and>
        unread (link p r\<lparr>mem := m, tx := t, rx := r'\<rparr>) = concat (map msg_bytes (drop j ms)) \<and>
        pending (link p r\<lparr>mem := m, tx := t, rx := r'\<rparr>) = msg_bytes msg"
    with commit_message [OF inv', of "drop j ms" msg]
    have "chan_inv k (link (?p (scif_rb_commit t m)) r') \<and>
        queued (drop j ms @ [msg]) (link (?p (scif_rb_commit t m)) r')"
      by (simp add: link_def)
    moreover have "err = 0 \<and> st' = dev_upd d (\<lambda>v. v\<lparr>qpairs := Some (?p (scif_rb_commit t m)), intrs := Suc (intrs v)\<rparr>) st"
      using send a qp other by (simp add: raw_nodeqp_send_def)
    ultimately show ?thesis by blast
  next
    assume a: "?w = Some (- ENODEV, t, m) \<and> queued (drop j ms) (link p r\<lparr>mem := m, tx := t, rx := r'\<rparr>)"
    then have "err = - ENODEV \<and> st' = dev_upd d (\<lambda>v. v\<lparr>qpairs := Some (?p m)\<rparr>) st"
      using send qp other by (simp add: raw_nodeqp_send_def)
    with a inv' link show ?thesis by metis
  qed
qed

lemma recv_message:
  assumes inv: "chan_inv k c" and q: "queued (m # ms) c"
  obtains r where "scif_rb_get_next (rx c) (mem c) (of_nat MSG_SIZE) = Some (of_nat MSG_SIZE, msg_bytes m, r)"
    "chan_inv k (c\<lparr>mem := scif_rb_update_read_ptr r (mem c), rx := r\<rparr>)"
    "queued ms (c\<lparr>mem := scif_rb_update_read_ptr r (mem c), rx := r\<rparr>)"
proof -
  have sz: "unat (of_nat MSG_SIZE :: u32) \<le> unread_len c"
    using q length_unread [of c] by (simp add: queued_def)
  obtain r where r: "scif_rb_get_next (rx c) (mem c) (of_nat MSG_SIZE) =
      Some (of_nat MSG_SIZE, take (unat (of_nat MSG_SIZE :: u32)) (unread c), r)"
    "chan_inv k (c\<lparr>rx := r\<rparr>)" "unread (c\<lparr>rx := r\<rparr>) = drop (unat (of_nat MSG_SIZE :: u32)) (unread c)"
    "pending (c\<lparr>rx := r\<rparr>) = pending c"
    by (rule scif_rb_get_next_chan [OF inv sz])
  from scif_rb_update_read_ptr_chan [OF r(2)] r(3,4) q
  have "chan_inv k (c\<lparr>rx := r, mem := scif_rb_update_read_ptr r (mem c)\<rparr>)"
    "queued ms (c\<lparr>rx := r, mem := scif_rb_update_read_ptr r (mem c)\<rparr>)"
    by (simp_all add: queued_def)
  moreover have "c\<lparr>rx := r, mem := scif_rb_update_read_ptr r (mem c)\<rparr> =
      c\<lparr>mem := scif_rb_update_read_ptr r (mem c), rx := r\<rparr>" by simp
  ultimately show thesis using r(1) q that [of r] by (simp add: queued_def)
qed

lemma recv_message_none:
  "chan_inv k c \<Longrightarrow> queued [] c \<Longrightarrow> scif_rb_get_next (rx c) (mem c) (of_nat MSG_SIZE) = Some (0, [], rx c)"
  using length_unread [of c] by (intro scif_rb_get_next_short) (auto simp: queued_def)

section \<open>Properties\<close>

text \<open>
  C14: the node queue pair is a FIFO of messages. Sending to another node over a ring that holds
  the messages \<open>ms\<close>, while the peer may take messages from its front, either returns 0 with the
  message behind those still queued and the doorbell rung once, or, when the ring stays full
  through every retry, returns \<open>-ENODEV\<close> with nothing added. What the peer reads next from the
  ring are the 44 bytes of the first queued message, and they decode to that message.
\<close>

theorem nodeqp_fifo:
  assumes "chan_inv k (link p r)" "queued ms (link p r)" "reader_ok k (peer_reads q)"
    and "qpairs (devs st d) = Some p" "\<not> scifdev_self d st"
    and "raw_nodeqp_send q d msg st = (err, st')"
  shows "\<exists>p' r' ms'. chan_inv k (link p' r') \<and> queued ms' (link p' r') \<and>
     qpairs (devs st' d) = Some p' \<and> fault st' = fault st \<and>
     (err = 0 \<and> (\<exists>j. ms' = drop j ms @ [msg]) \<and> intrs (devs st' d) = Suc (intrs (devs st d)) \<or>
      err = - ENODEV \<and> (\<exists>j. ms' = drop j ms) \<and> intrs (devs st' d) = intrs (devs st d)) \<and>
     (ms' \<noteq> [] \<longrightarrow> (\<exists>r2. scif_rb_get_next r' (outbound_mem p') (of_nat MSG_SIZE) =
        Some (of_nat MSG_SIZE, msg_bytes (hd ms'), r2) \<and> msg_of (msg_bytes (hd ms')) = hd ms'))"
proof -
  obtain p' r' j where inv: "chan_inv k (link p' r')" and
    res: "err = 0 \<and> st' = dev_upd d (\<lambda>v. v\<lparr>qpairs := Some p', intrs := Suc (intrs v)\<rparr>) st \<and>
        queued (drop j ms @ [msg]) (link p' r') \<or>
      err = - ENODEV \<and> st' = dev_upd d (\<lambda>v. v\<lparr>qpairs := Some p'\<rparr>) st \<and>
        queued (drop j ms) (link p' r')"
    using raw_send_peer [OF assms] by blast
  define ms' where "ms' = (if err = 0 then drop j ms @ [msg] else drop j ms)"
  have q: "queued ms' (link p' r')" using res by (auto simp: ms'_def)
  have "\<exists>r2. scif_rb_get_next r' (outbound_mem p') (of_nat MSG_SIZE) =
      Some (of_nat MSG_SIZE, msg_bytes (hd ms'), r2)" if "ms' \<noteq> []"
    using recv_message [OF inv, of "hd ms'" "tl ms'"] q that by (auto simp: link_def)
  with inv q res show ?thesis
    by (intro exI [of _ p'] exI [of _ r'] exI [of _ ms']) (auto simp: ms'_def)
qed

definition example_qp :: scif_qp where
  "example_qp = zero_qp\<lparr>outbound_q := tx (rb_setup 6), outbound_mem := mem (rb_setup 6)\<rparr>"

definition example_msg :: scifmsg where
  "example_msg = \<lparr>msg_src = \<lparr>pid_node = 0, pid_port = 2000\<rparr>, msg_dst = \<lparr>pid_node = 1, pid_port = 300\<rparr>,
     uop = SCIF_CNCT_REQ, payload0 = 0xffff880012340000, payload1 = 7, payload2 = 0, payload3 = 0\<rparr>"

definition idle_env :: nodeqp_env where
  "idle_env = \<lparr>loopb_alloc = True, peer_reads = (\<lambda>_ m. m)\<rparr>"

definition example_node :: scif_node where
  "example_node = dev_upd 1 (\<lambda>v. v\<lparr>qpairs := Some example_qp, peer_dev := True\<rparr>) scif_init_state"

theorem nodeqp_fifo_witness:
  "\<exists>p' r' ms'. chan_inv 6 (link p' r') \<and> queued ms' (link p' r') \<and>
     qpairs (devs (snd (raw_nodeqp_send idle_env 1 example_msg example_node)) 1) = Some p'"
proof -
  have l: "link example_qp (rx (rb_setup 6)) = rb_setup 6" by (simp add: link_def example_qp_def)
  have "chan_inv 6 (link example_qp (rx (rb_setup 6)))" using rb_setup_inv [of 6] by (simp add: l)
  moreover have "queued [] (link example_qp (rx (rb_setup 6)))"
    using rb_setup_empty [of 6] by (simp add: l queued_def)
  ultimately show ?thesis
    using nodeqp_fifo [of 6 example_qp "rx (rb_setup 6)" "[]" idle_env example_node 1 example_msg
        "fst (raw_nodeqp_send idle_env 1 example_msg example_node)"
        "snd (raw_nodeqp_send idle_env 1 example_msg example_node)"] reader_idle
    by (auto simp: idle_env_def example_node_def scif_init_state_def scif_setup_scifdev_def scifdev_self_def)
qed

end
