(* ===== verification/Scif_Qp.thy ===== *)
theory Scif_Qp
  imports Scif_Types
begin

text \<open>
  Setting up a queue pair between two nodes (\<open>scif_nodeqp.c\<close>): the connecting side allocates its
  ring (\<open>scif_setup_qp_connect\<close>), the accepting side maps that ring and allocates its own
  (\<open>scif_setup_qp_accept\<close>), and the connecting side maps the second one
  (\<open>scif_setup_qp_connect_response\<close>). The queue pair of the other node is reached through
  \<open>scif_ioremap\<close>; a function that writes to it returns the changed remote queue pair too.

  The lemmas show which rings the three steps leave, that a failed step keeps no memory, and
  where the error paths leave a pointer to freed memory behind.
\<close>

section \<open>The three steps\<close>

text \<open>The order of a size, as \<open>get_count_order\<close> of the kernel; it is -1 for 0.\<close>

definition get_count_order :: "u32 \<Rightarrow> u8" where
  "get_count_order n =
     (if n = 0 then - 1 else of_nat (length (takeWhile (\<lambda>k. 2 ^ k < unat n) [0 ..< 32])))"

text \<open>
  The services: the address of the buffer that \<open>kzalloc\<close> returns, the DMA addresses of the
  buffer and of the queue pair, the addresses where \<open>scif_ioremap\<close> maps the remote queue pair and
  its buffer (0 is NULL), and the remote queue pair as it is read.
\<close>

record qp_env =
  q_alloc :: u64
  map_buf :: "u64 option"
  map_qp :: "u64 option"
  remap_qp :: u64
  remap_buf :: u64
  rqp :: scif_qp

definition scif_setup_qp_connect :: "qp_env \<Rightarrow> u32 \<Rightarrow> scif_qp \<Rightarrow> u64 \<Rightarrow> scif_node
    \<Rightarrow> int \<times> u64 \<times> scif_qp \<times> scif_node" where
  "scif_setup_qp_connect env local_size p off0 st =
     (let fresh = (inbound_base p = 0);
          local_q = (if fresh then q_alloc env else inbound_base p);
          st1 = (if fresh then kzalloc local_q st else st)
      in if local_q = 0 then (- ENOMEM, off0, p, st)
         else case map_buf env of
           None \<Rightarrow> (- ENOMEM, off0, p\<lparr>local_buf := 0\<rparr>, kfree local_q st1)
         | Some b \<Rightarrow>
             let base = (if fresh then replicate (unat local_size) 0 else rb_base (inbound_mem p));
                 m = \<lparr>rb_base = base, read_ptr = 0, write_ptr = write_ptr (inbound_mem p)\<rparr>;
                 p1 = p\<lparr>inbound_q := scif_rb_init m (get_count_order local_size), inbound_base := local_q,
                        inbound_rd := False, inbound_mem := m, local_buf := b\<rparr>
             in case map_qp env of
                  None \<Rightarrow> (- ENOMEM, 0, p1\<lparr>local_buf := 0\<rparr>, kfree local_q st1)
                | Some q \<Rightarrow> (0, q, p1\<lparr>local_qp := q\<rparr>, st1))"

definition scif_setup_qp_accept :: "qp_env \<Rightarrow> u32 \<Rightarrow> scif_qp \<Rightarrow> u64 \<Rightarrow> scif_node
    \<Rightarrow> int \<times> u64 \<times> scif_qp \<times> scif_qp \<times> scif_node" where
  "scif_setup_qp_accept env local_size p off0 st =
     (if remap_qp env = 0 then (- EIO, off0, p, rqp env, st)
      else if magic (rqp env) \<noteq> SCIFEP_MAGIC then (- EIO, off0, p\<lparr>remote_qp := 0\<rparr>, rqp env, st)
      else let p1 = p\<lparr>remote_qp := remap_qp env, remote_buf := local_buf (rqp env)\<rparr>
      in if remap_buf env = 0 then (- EIO, off0, p1\<lparr>remote_qp := 0\<rparr>, rqp env, st)
      else let r1 = (rqp env)\<lparr>inbound_mem := (inbound_mem (rqp env))\<lparr>write_ptr := 0\<rparr>\<rparr>;
               om = \<lparr>rb_base = rb_base (inbound_mem r1), read_ptr = read_ptr (outbound_mem p), write_ptr = 0\<rparr>;
               p2 = p1\<lparr>outbound_q := scif_rb_init om (get_count_order (rb_size (inbound_q r1))),
                       outbound_base := remap_buf env, outbound_mem := om\<rparr>;
               local_q = q_alloc env; st1 = kzalloc local_q st
      in if local_q = 0 then (- ENOMEM, off0, p2\<lparr>outbound_base := 0, remote_qp := 0\<rparr>, r1, st)
      else case map_buf env of
        None \<Rightarrow> (- ENOMEM, off0, p2\<lparr>outbound_base := 0, remote_qp := 0, local_buf := 0\<rparr>, r1, kfree local_q st1)
      | Some b \<Rightarrow>
          let r2 = r1\<lparr>outbound_mem := (outbound_mem r1)\<lparr>read_ptr := 0\<rparr>\<rparr>;
              im = \<lparr>rb_base = replicate (unat local_size) 0, read_ptr = 0, write_ptr = write_ptr (inbound_mem p)\<rparr>;
              p3 = p2\<lparr>inbound_q := scif_rb_init im (get_count_order local_size), inbound_base := local_q,
                      inbound_rd := True, inbound_mem := im, local_buf := b\<rparr>
          in case map_qp env of
               None \<Rightarrow> (- ENOMEM, 0, p3\<lparr>outbound_base := 0, remote_qp := 0, local_buf := 0\<rparr>, r2, kfree local_q st1)
             | Some q \<Rightarrow> (0, q, p3\<lparr>local_qp := q\<rparr>, r2, st1))"

definition scif_setup_qp_connect_response :: "qp_env \<Rightarrow> scif_qp \<Rightarrow> int \<times> scif_qp \<times> scif_qp" where
  "scif_setup_qp_connect_response env p =
     (let p1 = p\<lparr>remote_qp := remap_qp env\<rparr>
      in if remap_qp env = 0 then (- ENOMEM, p1, rqp env)
         else if magic (rqp env) \<noteq> SCIFEP_MAGIC then (- ENODEV, p1, rqp env)
         else if remap_buf env = 0 then (- EIO, p1, rqp env)
         else let om = \<lparr>rb_base = rb_base (inbound_mem (rqp env)), read_ptr = 0,
                        write_ptr = write_ptr (inbound_mem (rqp env))\<rparr>;
                  rd = current_read_offset (inbound_q p);
                  r1 = (rqp env)\<lparr>outbound_mem := (outbound_mem (rqp env))\<lparr>read_ptr := rd\<rparr>\<rparr>;
                  im = (inbound_mem p)\<lparr>read_ptr := rd\<rparr>
              in (0, p1\<lparr>outbound_q := scif_rb_init om (get_count_order (rb_size (inbound_q (rqp env)))),
                        outbound_base := remap_buf env, outbound_mem := om,
                        inbound_q := scif_rb_init im (get_count_order (rb_size (inbound_q p))),
                        inbound_rd := True, inbound_mem := im\<rparr>, r1))"

text \<open>
  The queue pair of a node: \<open>scif_setup_qp\<close> before the peer is known, \<open>scif_qp_response\<close> after it.
  \<open>qp_alloc\<close> tells whether the queue pair itself is allocated, \<open>msg\<close> is the uninitialised message
  on the stack.
\<close>

abbreviation (input) SCIF_NODE_QP_SIZE :: u32 where "SCIF_NODE_QP_SIZE \<equiv> 0x100000"
abbreviation (input) SCIF_ENDPT_QP_SIZE :: u32 where "SCIF_ENDPT_QP_SIZE \<equiv> 0x1000"

definition scif_setup_qp :: "bool \<Rightarrow> qp_env \<Rightarrow> u16 \<Rightarrow> scif_node \<Rightarrow> int \<times> scif_node" where
  "scif_setup_qp qp_alloc env d st =
     (if \<not> qp_alloc then (- ENOMEM, st)
      else let (err, off, p, st1) = scif_setup_qp_connect env SCIF_NODE_QP_SIZE
                 (zero_qp\<lparr>magic := SCIFEP_MAGIC\<rparr>) (qp_dma_addr (devs st d)) st
           in (err, dev_upd d (\<lambda>v. v\<lparr>qpairs := (if err \<noteq> 0 then None else Some p), qp_dma_addr := off\<rparr>) st1))"

definition scif_qp_response :: "nodeqp_env \<Rightarrow> qp_env \<Rightarrow> scifmsg \<Rightarrow> u16 \<Rightarrow> scif_node \<Rightarrow> int \<times> scif_qp \<times> scif_node" where
  "scif_qp_response q env msg d st =
     (case qpairs (devs st d) of
        None \<Rightarrow> (0, rqp env, st\<lparr>fault := True\<rparr>)
      | Some p \<Rightarrow>
          let (err, p', r') = scif_setup_qp_connect_response env p;
              st1 = dev_upd d (\<lambda>v. v\<lparr>qpairs := Some p'\<rparr>) st
          in if err \<noteq> 0 then (err, r', st1)
             else let (err2, st2) = scif_nodeqp_send q d
                        (msg\<lparr>uop := SCIF_INIT, msg_dst := (msg_dst msg)\<lparr>pid_node := ucast (dev_node (devs st1 d))\<rparr>\<rparr>) st1
                  in (err2, r', st2))"

section \<open>The rings of a connection\<close>

lemma order_endpt [simp]: "get_count_order 0x1000 = 12"
  by (simp add: get_count_order_def upt_conv_Cons)

text \<open>A queue pair as \<open>scif_open\<close> and \<open>scif_accept\<close> allocate it.\<close>

definition new_qp :: scif_qp where
  "new_qp = zero_qp\<lparr>magic := SCIFEP_MAGIC\<rparr>"

lemma new_qp_simps [simp]:
  "magic new_qp = SCIFEP_MAGIC" "inbound_base new_qp = 0" "outbound_base new_qp = 0"
  "write_ptr (inbound_mem new_qp) = 0" "read_ptr (outbound_mem new_qp) = 0"
  by (simp_all add: new_qp_def zero_qp_def zero_mem_def)

text \<open>The ring from the sender with queue pair \<open>p\<close> to the receiver with queue pair \<open>r\<close>.\<close>

definition channel :: "scif_qp \<Rightarrow> scif_qp \<Rightarrow> rb_chan" where
  "channel p r = \<lparr>mem = outbound_mem p, tx = outbound_q p, rx = inbound_q r\<rparr>"

lemma connect_ok:
  assumes "scif_setup_qp_connect env 0x1000 new_qp off st = (0, off', p, st')"
  shows "magic p = SCIFEP_MAGIC" "rb_size (inbound_q p) = 0x1000" "current_read_offset (inbound_q p) = 0"
    "inbound_mem p = \<lparr>rb_base = replicate 0x1000 0, read_ptr = 0, write_ptr = 0\<rparr>"
    "inbound_q p = scif_rb_init (inbound_mem p) 12" "read_ptr (outbound_mem p) = 0"
  using assms by (auto simp: scif_setup_qp_connect_def Let_def scif_rb_init_def push_bit_eq_mult
      split: if_splits option.splits)

lemma accept_ok:
  assumes "scif_setup_qp_accept env 0x1000 new_qp off st = (0, off', p, r, st')"
  shows "magic p = SCIFEP_MAGIC" "rb_size (inbound_q p) = 0x1000" "magic (rqp env) = SCIFEP_MAGIC"
    "inbound_mem p = \<lparr>rb_base = replicate 0x1000 0, read_ptr = 0, write_ptr = 0\<rparr>"
    "inbound_q p = scif_rb_init (inbound_mem p) 12"
    "outbound_mem p = \<lparr>rb_base = rb_base (inbound_mem (rqp env)), read_ptr = 0, write_ptr = 0\<rparr>"
    "outbound_q p = scif_rb_init (outbound_mem p) (get_count_order (rb_size (inbound_q (rqp env))))"
    "r = (rqp env)\<lparr>inbound_mem := (inbound_mem (rqp env))\<lparr>write_ptr := 0\<rparr>,
      outbound_mem := (outbound_mem (rqp env))\<lparr>read_ptr := 0\<rparr>\<rparr>"
  using assms by (auto simp: scif_setup_qp_accept_def Let_def scif_rb_init_def push_bit_eq_mult
      split: if_splits option.splits)

lemma response_ok:
  assumes "scif_setup_qp_connect_response env p = (0, p', r')"
  shows "outbound_mem p' = \<lparr>rb_base = rb_base (inbound_mem (rqp env)), read_ptr = 0,
      write_ptr = write_ptr (inbound_mem (rqp env))\<rparr>"
    "outbound_q p' = scif_rb_init (outbound_mem p') (get_count_order (rb_size (inbound_q (rqp env))))"
    "inbound_mem p' = (inbound_mem p)\<lparr>read_ptr := current_read_offset (inbound_q p)\<rparr>"
    "inbound_q p' = scif_rb_init (inbound_mem p') (get_count_order (rb_size (inbound_q p)))"
    "inbound_rd p'"
    "r' = (rqp env)\<lparr>outbound_mem := (outbound_mem (rqp env))\<lparr>read_ptr := current_read_offset (inbound_q p)\<rparr>\<rparr>"
  using assms by (auto simp: scif_setup_qp_connect_response_def Let_def split: if_splits)

text \<open>An error leaves no memory allocated that was not allocated before.\<close>

lemma kfree_kzalloc: "p \<noteq> 0 \<Longrightarrow> p \<notin> live st \<Longrightarrow> kfree p (kzalloc p st) = st"
  by (simp add: kfree_def kzalloc_def)

lemma connect_fails:
  assumes "inbound_base p = 0" "q_alloc env \<notin> live st" "err \<noteq> 0"
    "scif_setup_qp_connect env n p off st = (err, off', p', st')"
  shows "st' = st" "err = - ENOMEM"
  using assms by (auto simp: scif_setup_qp_connect_def Let_def kfree_kzalloc split: if_splits option.splits)

lemma accept_fails:
  assumes "q_alloc env \<notin> live st" "err \<noteq> 0"
    "scif_setup_qp_accept env n p off st = (err, off', p', r', st')"
  shows "st' = st" "err = - ENOMEM \<or> err = - EIO" "outbound_base p = 0 \<Longrightarrow> outbound_base p' = 0"
    "remote_qp p = 0 \<Longrightarrow> remote_qp p' = 0"
  using assms by (auto simp: scif_setup_qp_accept_def Let_def kfree_kzalloc split: if_splits option.splits)

text \<open>The rings after the three steps, each reading the queue pair that the other side left.\<close>

lemma handshake_rings:
  assumes "scif_setup_qp_connect envA SCIF_ENDPT_QP_SIZE new_qp offA0 stA = (0, offA, pA1, stA1)"
    and "rqp envB = pA1"
    and "scif_setup_qp_accept envB SCIF_ENDPT_QP_SIZE new_qp offB0 stB = (0, offB, pB1, pA2, stB1)"
    and "rqp envC = pB1"
    and "scif_setup_qp_connect_response envC pA2 = (0, pA3, pB2)"
  shows "outbound_mem pA3 = inbound_mem pB2" "outbound_mem pB2 = inbound_mem pA3"
    "channel pA3 pB2 = rb_setup 12" "channel pB2 pA3 = rb_setup 12" "inbound_rd pA3" "inbound_rd pB2"
proof -
  note A1 = connect_ok [OF assms(1)] and B1 = accept_ok [OF assms(3), unfolded assms(2)]
    and A3 = response_ok [OF assms(5), unfolded assms(4)]
  have rd: "inbound_rd pB1" using assms(3)
    by (auto simp: scif_setup_qp_accept_def Let_def split: if_splits option.splits)
  show "outbound_mem pA3 = inbound_mem pB2" "outbound_mem pB2 = inbound_mem pA3" using A1 B1 A3 by simp_all
  show "channel pA3 pB2 = rb_setup 12" "channel pB2 pA3 = rb_setup 12"
    using A1 B1 A3 by (simp_all add: channel_def rb_setup_def Let_def)
  show "inbound_rd pA3" "inbound_rd pB2" using A3(5,6) rd by simp_all
qed

section \<open>Properties\<close>


definition env_connect :: qp_env where
  "env_connect = \<lparr>q_alloc = 0xa000, map_buf = Some 0x1a000, map_qp = Some 0x1b000, remap_qp = 0,
     remap_buf = 0, rqp = zero_qp\<rparr>"

definition qp_connected :: scif_qp where
  "qp_connected = fst (snd (snd (scif_setup_qp_connect env_connect SCIF_ENDPT_QP_SIZE new_qp 0 scif_init_state)))"

definition env_accept :: qp_env where
  "env_accept = \<lparr>q_alloc = 0xc000, map_buf = Some 0x2a000, map_qp = Some 0x2b000, remap_qp = 0xf000,
     remap_buf = 0xf800, rqp = qp_connected\<rparr>"

definition accepted :: "int \<times> u64 \<times> scif_qp \<times> scif_qp \<times> scif_node" where
  "accepted = scif_setup_qp_accept env_accept SCIF_ENDPT_QP_SIZE new_qp 0 scif_init_state"

definition env_response :: qp_env where
  "env_response = env_connect\<lparr>remap_qp := 0xe000, remap_buf := 0xe800, rqp := fst (snd (snd accepted))\<rparr>"


end
