(* ===== verification/Scif_Epd.thy ===== *)
theory Scif_Epd
  imports Scif_Qp
begin

text \<open>
  Endpoints and the handlers of the connection messages (\<open>scif_epd.c\<close>). An endpoint is known by
  its address; a handler that follows an address from a message to memory that is not an
  endpoint sets \<open>fault\<close>. Waking a waiting thread has no effect on the state: the functions that
  wait look at the state again.
\<close>

section \<open>Releasing an endpoint\<close>

definition qp_cleaned :: "scif_qp \<Rightarrow> scif_qp" where
  "qp_cleaned p = p\<lparr>outbound_base := 0, remote_qp := 0, local_qp := 0, local_buf := 0\<rparr>"

definition scif_cleanup_ep_qp :: "u64 \<Rightarrow> scif_node \<Rightarrow> scif_node" where
  "scif_cleanup_ep_qp a st =
     (case eps st a of
        Some e \<Rightarrow> (case qp e of
            Some p \<Rightarrow> ep_upd a (\<lambda>e. e\<lparr>qp := Some (qp_cleaned p)\<rparr>) st
          | None \<Rightarrow> st\<lparr>fault := True\<rparr>)
      | None \<Rightarrow> st\<lparr>fault := True\<rparr>)"

definition scif_teardown_ep :: "u64 \<Rightarrow> scif_node \<Rightarrow> scif_node" where
  "scif_teardown_ep a st =
     (case eps st a of
        Some e \<Rightarrow> (case qp e of
            Some p \<Rightarrow> ep_upd a (\<lambda>e. e\<lparr>qp := None\<rparr>) (kfree (inbound_base p) (scif_cleanup_ep_qp a st))
          | None \<Rightarrow> st)
      | None \<Rightarrow> st\<lparr>fault := True\<rparr>)"

definition scif_add_epd_to_zombie_list :: "u64 \<Rightarrow> scif_node \<Rightarrow> scif_node" where
  "scif_add_epd_to_zombie_list a st =
     (let st1 = ep_upd a (\<lambda>e. e\<lparr>ep_state := SCIFEP_ZOMBIE\<rparr>) st
      in st1\<lparr>zombie := zombie st1 @ [a], nr_zombies := nr_zombies st1 + 1\<rparr>)"

definition scif_rma_ep_init :: "scif_endpt \<Rightarrow> scif_endpt" where
  "scif_rma_ep_init e = e\<lparr>rma_info := zero_rma\<lparr>iovad := init_iova_domain SCIF_DMA_64BIT_PFN\<rparr>\<rparr>"

definition scif_rma_ep_can_uninit :: "scif_endpt \<Rightarrow> bool" where
  "scif_rma_ep_can_uninit e \<longleftrightarrow>
     reg_list (rma_info e) = [] \<and> remote_reg_list (rma_info e) = [] \<and> mmn_list (rma_info e) = [] \<and>
     tw_refcount (rma_info e) = 0 \<and> tcw_refcount (rma_info e) = 0 \<and> fence_refcount (rma_info e) = 0"

text \<open>\<open>kfree\<close> of an endpoint.\<close>

definition ep_free :: "u64 \<Rightarrow> scif_node \<Rightarrow> scif_node" where
  "ep_free a st = (if eps st a = None then st\<lparr>fault := True\<rparr> else st\<lparr>eps := (eps st)(a := None)\<rparr>)"

fun zombie_walk :: "u64 list \<Rightarrow> scif_node \<Rightarrow> scif_node" where
  "zombie_walk [] st = st"
| "zombie_walk (a # as) st =
     zombie_walk as
       (case eps st a of
          None \<Rightarrow> st\<lparr>fault := True\<rparr>
        | Some e \<Rightarrow> if scif_rma_ep_can_uninit e
            then ep_free a (st\<lparr>zombie := remove1 a (zombie st), nr_zombies := nr_zombies st - 1\<rparr>)
            else st)"

definition scif_cleanup_zombie_epd :: "scif_node \<Rightarrow> scif_node" where
  "scif_cleanup_zombie_epd st = zombie_walk (zombie st) st"

section \<open>Message handlers\<close>

definition ep_port_is :: "scif_node \<Rightarrow> u16 \<Rightarrow> u64 \<Rightarrow> bool" where
  "ep_port_is st port a = (case eps st a of None \<Rightarrow> False | Some e \<Rightarrow> pid_port (ep_port e) = port)"

definition scif_find_listen_ep :: "u16 \<Rightarrow> scif_node \<Rightarrow> u64 option" where
  "scif_find_listen_ep port st = find (ep_port_is st port) (listen st)"

text \<open>The rejection of a request returns the message to the node it came from.\<close>

definition conreq_sendrej :: "nodeqp_env \<Rightarrow> scifmsg \<Rightarrow> scif_node \<Rightarrow> scif_node" where
  "conreq_sendrej q msg st =
     snd (scif_nodeqp_send q (pid_node (msg_src msg)) (msg\<lparr>uop := SCIF_CNCT_REJ\<rparr>) st)"

definition scif_cnctreq :: "nodeqp_env \<Rightarrow> bool \<Rightarrow> scifmsg \<Rightarrow> scif_node \<Rightarrow> scif_node" where
  "scif_cnctreq q conreq_alloc msg st =
     (if \<not> conreq_alloc then conreq_sendrej q msg st
      else case scif_find_listen_ep (pid_port (msg_dst msg)) st of
        None \<Rightarrow> conreq_sendrej q msg st
      | Some a \<Rightarrow>
          (case eps st a of
             None \<Rightarrow> st\<lparr>fault := True\<rparr>
           | Some e \<Rightarrow>
               if backlog e \<le> conreqcnt e then conreq_sendrej q msg st
               else ep_upd a (\<lambda>e. e\<lparr>conlist := conlist e @ [msg], conreqcnt := conreqcnt e + 1\<rparr>) st))"

definition scif_cnctgnt :: "scifmsg \<Rightarrow> scif_node \<Rightarrow> scif_node" where
  "scif_cnctgnt msg st =
     ep_upd (payload0 msg) (\<lambda>e.
       if ep_state e = SCIFEP_CONNECTING
       then e\<lparr>ep_peer := msg_src msg, gnt_pld := payload1 msg, remote_ep := payload2 msg,
              ep_state := SCIFEP_MAPPING\<rparr>
       else e) st"

definition scif_cnctgnt_ack :: "scifmsg \<Rightarrow> scif_node \<Rightarrow> scif_node" where
  "scif_cnctgnt_ack msg st =
     (let st1 = ep_upd (payload0 msg) (\<lambda>e. e\<lparr>ep_state := SCIFEP_CONNECTED\<rparr>) st
      in st1\<lparr>connected := connected st1 @ [payload0 msg]\<rparr>)"

definition scif_cnctgnt_nack :: "scifmsg \<Rightarrow> scif_node \<Rightarrow> scif_node" where
  "scif_cnctgnt_nack msg st = ep_upd (payload0 msg) (\<lambda>e. e\<lparr>ep_state := SCIFEP_CLOSING\<rparr>) st"

definition scif_cnctrej :: "scifmsg \<Rightarrow> scif_node \<Rightarrow> scif_node" where
  "scif_cnctrej msg st =
     ep_upd (payload0 msg) (\<lambda>e. if ep_state e = SCIFEP_CONNECTING then e\<lparr>ep_state := SCIFEP_BOUND\<rparr> else e) st"

definition discnct_match :: "scifmsg \<Rightarrow> scif_node \<Rightarrow> u64 \<Rightarrow> bool" where
  "discnct_match msg st a =
     (a = payload1 msg \<and> (case eps st a of None \<Rightarrow> False | Some e \<Rightarrow> remote_ep e = payload0 msg))"

definition ep_put_port :: "u64 \<Rightarrow> scif_node \<Rightarrow> scif_node" where
  "ep_put_port a st =
     (case eps st a of None \<Rightarrow> st\<lparr>fault := True\<rparr>
      | Some e \<Rightarrow> st\<lparr>ports := scif_put_port (pid_port (ep_port e)) (ports st)\<rparr>)"

definition scif_discnct :: "nodeqp_env \<Rightarrow> scifmsg \<Rightarrow> scif_node \<Rightarrow> scif_node" where
  "scif_discnct q msg st =
     (let st2 = (case find (discnct_match msg st) (connected st) of
            None \<Rightarrow> st
          | Some a \<Rightarrow>
              let st1 = ep_put_port a (ep_upd a (\<lambda>e. e\<lparr>ep_state := SCIFEP_DISCONNECTED\<rparr>)
                          (st\<lparr>connected := remove1 a (connected st)\<rparr>))
              in st1\<lparr>disconnected := disconnected st1 @ [a]\<rparr>)
      in snd (scif_nodeqp_send q (pid_node (msg_src msg)) (msg\<lparr>uop := SCIF_DISCNT_ACK\<rparr>) st2))"

definition scif_discnt_ack :: "scifmsg \<Rightarrow> scif_node \<Rightarrow> scif_node" where
  "scif_discnt_ack msg st =
     ep_upd (payload0 msg) (\<lambda>e. e\<lparr>discon := Suc (discon e)\<rparr>)
       (ep_put_port (payload0 msg) (ep_upd (payload0 msg) (\<lambda>e. e\<lparr>ep_state := SCIFEP_DISCONNECTED\<rparr>) st))"

text \<open>\<open>scif_clientsend\<close> and \<open>scif_clientrcvd\<close> only wake a thread that waits on the endpoint.\<close>

definition ep_wake :: "u64 \<Rightarrow> scif_node \<Rightarrow> scif_node" where
  "ep_wake a st = ep_upd a (\<lambda>e. e) st"

definition scif_clientsend :: "scifmsg \<Rightarrow> scif_node \<Rightarrow> scif_node" where
  "scif_clientsend msg st = ep_wake (payload0 msg) st"

definition scif_clientrcvd :: "scifmsg \<Rightarrow> scif_node \<Rightarrow> scif_node" where
  "scif_clientrcvd msg st = ep_wake (payload0 msg) st"

end
