(* ===== verification/Scif_Window.thy ===== *)
theory Scif_Window
  imports Scif_Types
begin

text \<open>
  Registration windows: the sorted lists of \<open>scif_rma_list.c\<close> and the lookups on them, the
  translation of an offset to a DMA address in \<open>scif_dma.c\<close>, and the construction of the
  address table of a window in \<open>scif_rma.c\<close>. A list holds addresses of windows; \<open>W\<close> reads the
  window at an address.
\<close>

section \<open>Signed and unsigned 64-bit arithmetic\<close>

definition s64 :: "int \<Rightarrow> int" where
  "s64 x = signed_take_bit 63 x"

definition u64i :: "int \<Rightarrow> int" where
  "u64i x = x mod 2 ^ 64"

lemma s64_id [simp]: "- (2 ^ 63) \<le> x \<Longrightarrow> x < 2 ^ 63 \<Longrightarrow> s64 x = x"
  by (simp add: s64_def signed_take_bit_int_eq_self)

lemma u64i_id [simp]: "0 \<le> x \<Longrightarrow> x < 2 ^ 64 \<Longrightarrow> u64i x = x"
  by (simp add: u64i_def)

abbreviation (input) PAGE_SIZE :: int where "PAGE_SIZE \<equiv> 4096"

section \<open>Insertion\<close>

fun insert_by :: "('a \<Rightarrow> int) \<Rightarrow> 'a \<Rightarrow> 'a list \<Rightarrow> 'a list" where
  "insert_by key w [] = [w]"
| "insert_by key w (c # cs) = (if key c > key w then w # c # cs else c # insert_by key w cs)"

definition scif_insert_window :: "(u64 \<Rightarrow> scif_window) \<Rightarrow> u64 \<Rightarrow> u64 list \<Rightarrow> u64 list" where
  "scif_insert_window W w head = insert_by (\<lambda>a. win_offset (W a)) w head"

definition scif_insert_tcw :: "(u64 \<Rightarrow> scif_window) \<Rightarrow> u64 \<Rightarrow> u64 list \<Rightarrow> u64 list" where
  "scif_insert_tcw W w head =
     (if head \<noteq> [] \<and> va_for_temp (W (last head)) < va_for_temp (W w) then head @ [w]
      else insert_by (\<lambda>a. va_for_temp (W a)) w head)"

section \<open>Lookups\<close>

record scif_rma_req =
  req_offset :: int
  nr_bytes :: int
  req_prot :: int
  req_type :: scif_window_type
  req_head :: "u64 list"

definition win_end :: "scif_window \<Rightarrow> int" where
  "win_end w = s64 (win_offset w + s64 (nr_pages w * PAGE_SIZE))"

text \<open>
  The loop of \<open>scif_query_window\<close>; the second component of the result is what the caller finds
  in \<open>*req->out_window\<close>.
\<close>

fun query_walk :: "(u64 \<Rightarrow> scif_window) \<Rightarrow> scif_rma_req \<Rightarrow> u64 list \<Rightarrow> int \<Rightarrow> int \<Rightarrow> u64 option
    \<Rightarrow> int \<times> u64 option" where
  "query_walk W req [] offset bytes_left out = (- ENXIO, out)"
| "query_walk W req (a # as) offset bytes_left out =
     (let w = W a; end_offset = win_end w
      in if offset < win_offset w then (- ENXIO, out)
         else if offset \<ge> end_offset then query_walk W req as offset bytes_left out
         else if (prot w AND req_prot req) \<noteq> req_prot req then (- EPERM, out)
         else let out' = (if bytes_left = nr_bytes req then Some a else out);
                  tmp_min = min (u64i (end_offset - offset)) bytes_left;
                  bytes_left' = bytes_left - tmp_min;
                  offset' = s64 (offset + tmp_min)
              in if bytes_left' = 0 then
                   (if req_type req = SCIF_WINDOW_PARTIAL \<or> req_type req = SCIF_WINDOW_SINGLE then (0, out')
                    else if offset' = end_offset then (0, out') else (- ENXIO, out'))
                 else if req_type req = SCIF_WINDOW_SINGLE then (- ENXIO, out')
                 else query_walk W req as offset' bytes_left' out')"

definition scif_query_window :: "(u64 \<Rightarrow> scif_window) \<Rightarrow> scif_rma_req \<Rightarrow> int \<times> u64 option" where
  "scif_query_window W req =
     (if nr_bytes req = 0 then (- EINVAL, None)
      else query_walk W req (req_head req) (req_offset req) (nr_bytes req) None)"

text \<open>
  \<open>scif_query_tcw\<close>: the result, the window found, the request as it is left (start and length),
  and the window taken off the list for destruction.
\<close>

record tcw_result =
  tcw_err :: int
  tcw_out :: "u64 option"
  tcw_va :: int
  tcw_bytes :: int
  tcw_destroyed :: "u64 option"

definition tcw_end :: "scif_window \<Rightarrow> int" where
  "tcw_end w = u64i (va_for_temp w + u64i (nr_pages w * PAGE_SIZE))"

fun tcw_walk :: "(u64 \<Rightarrow> scif_window) \<Rightarrow> int \<Rightarrow> u64 list \<Rightarrow> int \<Rightarrow> int \<Rightarrow> tcw_result" where
  "tcw_walk W rprot [] start bytes =
     \<lparr>tcw_err = - ENXIO, tcw_out = None, tcw_va = start, tcw_bytes = bytes, tcw_destroyed = None\<rparr>"
| "tcw_walk W rprot (a # as) start bytes =
     (let w = W a; end_req = u64i (start + bytes); start_w = va_for_temp w; end_w = tcw_end w
      in if start < start_w \<and> end_req < start_w then
           \<lparr>tcw_err = - ENXIO, tcw_out = None, tcw_va = start, tcw_bytes = bytes, tcw_destroyed = None\<rparr>
         else if start \<ge> end_w then tcw_walk W rprot as start bytes
         else if (prot w AND rprot) = rprot then
           (if start \<ge> start_w \<and> end_req \<le> end_w then
              \<lparr>tcw_err = 0, tcw_out = Some a, tcw_va = start, tcw_bytes = bytes, tcw_destroyed = None\<rparr>
            else let (va1, b1) = (if start < start_w then (start_w, u64i (bytes + (start_w - start)))
                                  else (start, bytes));
                     b2 = (if end_req \<ge> end_w then u64i (b1 + (end_w - end_req)) else b1)
                 in \<lparr>tcw_err = - ENXIO, tcw_out = None, tcw_va = va1, tcw_bytes = b2, tcw_destroyed = Some a\<rparr>)
         else \<lparr>tcw_err = - ENXIO, tcw_out = None, tcw_va = start, tcw_bytes = bytes, tcw_destroyed = Some a\<rparr>)"

definition scif_query_tcw :: "(u64 \<Rightarrow> scif_window) \<Rightarrow> int \<Rightarrow> u64 list \<Rightarrow> int \<Rightarrow> int \<Rightarrow> tcw_result" where
  "scif_query_tcw W rprot head start bytes =
     (if bytes = 0 then
        \<lparr>tcw_err = - EINVAL, tcw_out = None, tcw_va = start, tcw_bytes = bytes, tcw_destroyed = None\<rparr>
      else if head \<noteq> [] \<and> start > tcw_end (W (last head)) then
        \<lparr>tcw_err = - ENXIO, tcw_out = None, tcw_va = start, tcw_bytes = bytes, tcw_destroyed = None\<rparr>
      else tcw_walk W rprot head start bytes)"

text \<open>
  The range check of \<open>scif_rma_list_unregister\<close>: the windows it goes on to unregister, in order,
  and whether it stops at a window that the requested range cuts.
\<close>

fun unregister_walk :: "(u64 \<Rightarrow> scif_window) \<Rightarrow> int \<Rightarrow> int \<Rightarrow> u64 list \<Rightarrow> u64 list \<times> bool" where
  "unregister_walk W offset end_req [] = ([], False)"
| "unregister_walk W offset end_req (a # as) =
     (let w = W a; end_offset = win_end w
      in if win_offset w \<ge> end_req then ([], False)
         else if end_offset \<le> offset then unregister_walk W offset end_req as
         else if win_offset w < offset \<and> end_offset > offset then ([], True)
         else if end_offset > end_req then ([], True)
         else (let (us, part) = unregister_walk W offset end_req as in (a # us, part)))"

section \<open>The address table of a window\<close>

text \<open>
  The inner loop of \<open>scif_map_window\<close>: how many pages from page \<open>k\<close> on continue the physical
  range that ends with the page at \<open>phys_prev\<close>.
\<close>

function contig_pages :: "(nat \<Rightarrow> u64) \<Rightarrow> nat \<Rightarrow> nat \<Rightarrow> u64 \<Rightarrow> nat" where
  "contig_pages phys n k phys_prev =
     (if k < n \<and> phys k = phys_prev + 4096 then Suc (contig_pages phys n (Suc k) (phys k)) else 0)"
  by pat_completeness auto
termination
  by (relation "measure (\<lambda>(phys, n, k, p). n - k)") auto

declare contig_pages.simps [simp del]

text \<open>
  The outer loop, without an IOMMU. \<open>map_single\<close> is the DMA mapping of a physical range: \<open>None\<close>
  where it fails. On the management node it is \<open>scif_map_single\<close>, on a card the identity.
\<close>

function map_chunks :: "(nat \<Rightarrow> u64) \<Rightarrow> (u64 \<Rightarrow> nat \<Rightarrow> u64 option) \<Rightarrow> nat \<Rightarrow> nat \<Rightarrow> nat \<Rightarrow> scif_window
    \<Rightarrow> int \<times> scif_window" where
  "map_chunks phys map_single n i j w =
     (if i < n then
        let c = Suc (contig_pages phys n (Suc i) (phys i));
            w1 = w\<lparr>num_pages := (num_pages w)[j := int c], nr_contig_chunks := nr_contig_chunks w + 1\<rparr>
        in case map_single (phys i) c of
             None \<Rightarrow> (- ENOMEM, w1\<lparr>dma_addr := (dma_addr w1)[j := 0]\<rparr>)
           | Some da \<Rightarrow> map_chunks phys map_single n (i + c) (Suc j) (w1\<lparr>dma_addr := (dma_addr w1)[j := da]\<rparr>)
      else (0, w))"
  by pat_completeness auto
termination
  by (relation "measure (\<lambda>(phys, f, n, i, j, w). n - i)") auto

declare map_chunks.simps [simp del]

text \<open>
  \<open>scif_dma_map\<close>, with an IOMMU: the scatter-gather table after \<open>dma_map_sg\<close> is a list of bus
  addresses and lengths. \<open>sg_run\<close> is the inner loop, which extends a chunk by the entries that
  follow at \<open>last_da\<close>.
\<close>

fun sg_run :: "u64 \<Rightarrow> u64 \<Rightarrow> int \<Rightarrow> (u64 \<times> u64) list \<Rightarrow> int \<times> (u64 \<times> u64) list" where
  "sg_run start last_da np [] = (np, [])"
| "sg_run start last_da np ((da, len) # sgs) =
     (if da = last_da then sg_run start (start + len) (np + uint (drop_bit 12 len)) sgs
      else (np, (da, len) # sgs))"

lemma sg_run_length: "length (snd (sg_run start last_da np sgs)) \<le> length sgs"
  by (induction start last_da np sgs rule: sg_run.induct) auto

function sg_chunks :: "(u64 \<times> u64) list \<Rightarrow> nat \<Rightarrow> scif_window \<Rightarrow> scif_window" where
  "sg_chunks [] j w = w"
| "sg_chunks ((da, len) # sgs) j w =
     (let (np, rest) = sg_run da (da + len) (uint (drop_bit 12 len)) sgs
      in sg_chunks rest (Suc j)
           (w\<lparr>num_pages := (num_pages w)[j := np], nr_contig_chunks := nr_contig_chunks w + 1,
             dma_addr := (dma_addr w)[j := da]\<rparr>))"
  by pat_completeness auto
termination
  by (relation "measure (\<lambda>(sgs, j, w). length sgs)")
    (auto simp: less_Suc_eq_le dest!: arg_cong [where f = "\<lambda>r. length (snd r)"] intro: order_trans [OF _ sg_run_length])

text \<open>
  The services of a mapping: whether an IOMMU is in use, whether the peer is the node itself,
  whether this is the management node, the pages, \<open>scif_map_single\<close>, and the allocation and
  mapping of the scatter-gather table (\<open>None\<close> where \<open>dma_map_sg\<close> maps nothing).
\<close>

record map_env =
  iommu_enabled :: bool
  peer_self :: bool
  mgmt_node :: bool
  page_to_phys :: "nat \<Rightarrow> u64"
  map_single :: "u64 \<Rightarrow> nat \<Rightarrow> u64 option"
  st_alloc :: bool
  sg_alloc :: int
  sg_mapped :: "(u64 \<times> u64) list option"

definition scif_dma_map :: "map_env \<Rightarrow> scif_window \<Rightarrow> int \<times> scif_window" where
  "scif_dma_map env w =
     (if \<not> st_alloc env then (- ENOMEM, w\<lparr>win_st := False\<rparr>)
      else let w1 = w\<lparr>win_st := True\<rparr>
        in if sg_alloc env \<noteq> 0 then (sg_alloc env, w1)
           else case sg_mapped env of None \<Rightarrow> (- ENOMEM, w1) | Some sgs \<Rightarrow> (0, sg_chunks sgs 0 w1))"

definition scif_map_window :: "map_env \<Rightarrow> scif_window \<Rightarrow> int \<times> scif_window" where
  "scif_map_window env w =
     (if iommu_enabled env \<and> \<not> peer_self env then scif_dma_map env w
      else map_chunks (page_to_phys env) (if mgmt_node env then map_single env else (\<lambda>p c. Some p))
             (nat (nr_pages w)) 0 0 w)"

text \<open>\<open>scif_unmap_window\<close>: with an IOMMU the table is freed, on the management node each chunk is unmapped.\<close>

fun unmap_chunks :: "nat \<Rightarrow> u64 list \<Rightarrow> u64 list" where
  "unmap_chunks (Suc n) (d # ds) = 0 # unmap_chunks n ds"
| "unmap_chunks n ds = ds"

definition scif_unmap_window :: "map_env \<Rightarrow> scif_window \<Rightarrow> scif_window" where
  "scif_unmap_window env w =
     (if iommu_enabled env \<and> \<not> peer_self env then (if win_st w then w\<lparr>win_st := False\<rparr> else w)
      else if mgmt_node env then w\<lparr>dma_addr := unmap_chunks (nat (nr_contig_chunks w)) (dma_addr w)\<rparr>
      else w)"

text \<open>
  \<open>scif_off_to_dma_addr\<close>: the address, the bytes up to the end of the chunk, and the iterator
  (index and start offset of the chunk). \<open>None\<close> is \<open>SCIF_RMA_ERROR_CODE\<close>.
\<close>

fun dma_walk :: "(int \<times> u64) list \<Rightarrow> nat \<Rightarrow> int \<Rightarrow> int \<Rightarrow> (u64 \<times> int \<times> nat \<times> int) option" where
  "dma_walk [] i start off = None"
| "dma_walk ((np, da) # cs) i start off =
     (let e = s64 (start + u64i (np * PAGE_SIZE))
      in if off \<ge> start \<and> off < e then Some (da + word_of_int (off - start), e - off, i, start)
         else dma_walk cs (Suc i) e off)"

definition window_chunks :: "scif_window \<Rightarrow> (int \<times> u64) list" where
  "window_chunks w = zip (take (nat (nr_contig_chunks w)) (num_pages w)) (dma_addr w)"

definition scif_off_to_dma_addr :: "scif_window \<Rightarrow> int \<Rightarrow> (nat \<times> int) option
    \<Rightarrow> (u64 \<times> int \<times> (nat \<times> int) option) option" where
  "scif_off_to_dma_addr w off iter =
     (if nr_pages w = nr_contig_chunks w then
        let page_nr = nat ((off - win_offset w) div PAGE_SIZE); page_off = off mod PAGE_SIZE
        in if page_nr < length (dma_addr w)
           then Some (dma_addr w ! page_nr OR word_of_int page_off, PAGE_SIZE - page_off, iter) else None
      else let (i, start) = (case iter of Some it \<Rightarrow> it | None \<Rightarrow> (0, win_offset w))
           in case dma_walk (drop i (window_chunks w)) i start off of
                None \<Rightarrow> None
              | Some (da, n, i', start') \<Rightarrow> Some (da, n, map_option (\<lambda>_. (i', start')) iter))"

section \<open>Sorted lists of disjoint windows\<close>

definition win_ok :: "scif_window \<Rightarrow> bool" where
  "win_ok w \<longleftrightarrow> 0 \<le> win_offset w \<and> 0 < nr_pages w \<and> win_offset w + nr_pages w * PAGE_SIZE < 2 ^ 63"

definition windows_ok :: "(u64 \<Rightarrow> scif_window) \<Rightarrow> u64 list \<Rightarrow> bool" where
  "windows_ok W xs \<longleftrightarrow> (\<forall>a\<in>set xs. win_ok (W a)) \<and> sorted_wrt (\<lambda>a b. win_end (W a) \<le> win_offset (W b)) xs"

definition win_bytes :: "scif_window \<Rightarrow> int set" where
  "win_bytes w = {win_offset w ..< win_end w}"

lemma win_end_ok:
  assumes "win_ok w"
  shows "win_end w = win_offset w + nr_pages w * PAGE_SIZE" "0 \<le> win_offset w"
    "win_offset w < win_end w" "win_end w < 2 ^ 63"
  using assms by (simp_all add: win_end_def win_ok_def)

lemma windows_ok_Cons:
  "windows_ok W (a # as) \<longleftrightarrow>
     win_ok (W a) \<and> windows_ok W as \<and> (\<forall>b\<in>set as. win_end (W a) \<le> win_offset (W b))"
  by (auto simp: windows_ok_def)

lemma mset_insert_by: "mset (insert_by key w xs) = add_mset w (mset xs)"
  by (induction xs) auto

lemma insert_by_windows:
  assumes "windows_ok W xs" "win_ok (W w)"
    and "\<And>a. a \<in> set xs \<Longrightarrow> win_end (W a) \<le> win_offset (W w) \<or> win_end (W w) \<le> win_offset (W a)"
  shows "windows_ok W (insert_by (\<lambda>a. win_offset (W a)) w xs)"
  using assms
proof (induction xs)
  case (Cons c cs)
  have c: "win_ok (W c)" and cs: "windows_ok W cs"
    and above: "\<forall>b\<in>set cs. win_end (W c) \<le> win_offset (W b)"
    using Cons.prems(1) by (simp_all add: windows_ok_Cons)
  show ?case
  proof (cases "win_offset (W c) > win_offset (W w)")
    case True
    then have "win_end (W w) \<le> win_offset (W c)"
      using Cons.prems(3) [of c] win_end_ok(3) [OF c] by auto
    moreover from this have "\<forall>b\<in>set cs. win_end (W w) \<le> win_offset (W b)"
      using above win_end_ok(3) [OF c] by force
    ultimately show ?thesis using True Cons.prems c cs above by (simp add: windows_ok_Cons)
  next
    case False
    then have "win_end (W c) \<le> win_offset (W w)"
      using Cons.prems(3) [of c] win_end_ok(3) [OF Cons.prems(2)] by auto
    moreover have "set (insert_by (\<lambda>a. win_offset (W a)) w cs) = insert w (set cs)"
      using arg_cong [OF mset_insert_by [of "\<lambda>a. win_offset (W a)" w cs], of set_mset] by simp
    ultimately show ?thesis using False Cons.IH [OF cs] Cons.prems(2,3) c above
      by (simp add: windows_ok_Cons)
  qed
qed (simp add: windows_ok_def)

text \<open>The shortcut of \<open>scif_insert_tcw\<close> for a new tail agrees with the search on a sorted list.\<close>

lemma insert_by_tail:
  "sorted_wrt (\<lambda>a b. key a \<le> key b) xs \<Longrightarrow> xs \<noteq> [] \<Longrightarrow> key (last xs) < key w \<Longrightarrow>
     insert_by key w xs = xs @ [w]"
proof (induction xs)
  case (Cons c cs)
  have "key c \<le> key (last (c # cs))" using Cons.prems(1) by auto
  with Cons show ?case by (cases cs) auto
qed simp

lemma insert_tcw_sorted:
  assumes "sorted_wrt (\<lambda>a b. va_for_temp (W a) \<le> va_for_temp (W b)) head"
  shows "scif_insert_tcw W w head = insert_by (\<lambda>a. va_for_temp (W a)) w head"
  using insert_by_tail [OF assms, of w] by (simp add: scif_insert_tcw_def)

lemma sorted_insert_by:
  "sorted_wrt (\<lambda>a b. key a \<le> key b) xs \<Longrightarrow> sorted_wrt (\<lambda>a b. key a \<le> key b) (insert_by key w xs)"
proof (induction xs)
  case (Cons c cs)
  have "set (insert_by key w cs) = insert w (set cs)"
    using arg_cong [OF mset_insert_by [of key w cs], of set_mset] by simp
  with Cons show ?case by auto
qed simp

section \<open>What a lookup finds\<close>

definition accessible :: "(u64 \<Rightarrow> scif_window) \<Rightarrow> int \<Rightarrow> u64 list \<Rightarrow> int set \<Rightarrow> bool" where
  "accessible W p xs B \<longleftrightarrow> B \<subseteq> (\<Union>a\<in>set xs. win_bytes (W a)) \<and>
     (\<forall>a\<in>set xs. win_bytes (W a) \<inter> B \<noteq> {} \<longrightarrow> (prot (W a) AND p) = p)"

definition fits_type :: "(u64 \<Rightarrow> scif_window) \<Rightarrow> scif_window_type \<Rightarrow> u64 list \<Rightarrow> int \<Rightarrow> int \<Rightarrow> bool" where
  "fits_type W ty xs lo hi =
     (case ty of SCIF_WINDOW_PARTIAL \<Rightarrow> True
      | SCIF_WINDOW_SINGLE \<Rightarrow> (\<exists>a\<in>set xs. {lo..<hi} \<subseteq> win_bytes (W a))
      | _ \<Rightarrow> (\<exists>a\<in>set xs. win_end (W a) = hi))"

lemma query_walk_out:
  "0 \<le> bytes_left \<Longrightarrow> bytes_left < nr_bytes req \<Longrightarrow> snd (query_walk W req xs offset bytes_left out) = out"
proof (induction xs arbitrary: offset bytes_left)
  case (Cons a as)
  have "0 \<le> u64i (win_end (W a) - offset)" by (simp add: u64i_def)
  with Cons show ?case by (auto simp: Let_def min_def)
qed simp

text \<open>The steps of the walk, with the machine arithmetic resolved.\<close>

lemma query_walk_skip:
  "offset < win_offset (W a) \<Longrightarrow> query_walk W req (a # as) offset bytes_left out = (- ENXIO, out)"
  "win_offset (W a) \<le> offset \<Longrightarrow> win_end (W a) \<le> offset \<Longrightarrow>
     query_walk W req (a # as) offset bytes_left out = query_walk W req as offset bytes_left out"
  "win_offset (W a) \<le> offset \<Longrightarrow> offset < win_end (W a) \<Longrightarrow> (prot (W a) AND req_prot req) \<noteq> req_prot req \<Longrightarrow>
     query_walk W req (a # as) offset bytes_left out = (- EPERM, out)"
  by (simp_all add: Let_def)

lemma query_walk_enter:
  assumes "win_ok (W a)" "win_offset (W a) \<le> offset" "offset < win_end (W a)" "0 < bytes_left"
    and "(prot (W a) AND req_prot req) = req_prot req"
  shows "offset + bytes_left \<le> win_end (W a) \<Longrightarrow> query_walk W req (a # as) offset bytes_left out =
      (if req_type req = SCIF_WINDOW_PARTIAL \<or> req_type req = SCIF_WINDOW_SINGLE
          \<or> offset + bytes_left = win_end (W a) then 0 else - ENXIO,
       if bytes_left = nr_bytes req then Some a else out)"
    and "win_end (W a) < offset + bytes_left \<Longrightarrow> query_walk W req (a # as) offset bytes_left out =
      (let out' = (if bytes_left = nr_bytes req then Some a else out)
       in if req_type req = SCIF_WINDOW_SINGLE then (- ENXIO, out')
          else query_walk W req as (win_end (W a)) (offset + bytes_left - win_end (W a)) out')"
proof -
  have n: "u64i (win_end (W a) - offset) = win_end (W a) - offset"
    using assms(2,3) win_end_ok [OF assms(1)] by (intro u64i_id) auto
  {
    assume e: "offset + bytes_left \<le> win_end (W a)"
    then have "min (win_end (W a) - offset) bytes_left = bytes_left" by simp
    moreover have "s64 (offset + bytes_left) = offset + bytes_left"
      using e assms(2,4) win_end_ok [OF assms(1)] by (intro s64_id) auto
    ultimately show "query_walk W req (a # as) offset bytes_left out =
      (if req_type req = SCIF_WINDOW_PARTIAL \<or> req_type req = SCIF_WINDOW_SINGLE
          \<or> offset + bytes_left = win_end (W a) then 0 else - ENXIO,
       if bytes_left = nr_bytes req then Some a else out)"
      using assms n by (simp only: query_walk.simps Let_def if_False if_True not_less [symmetric] n) simp
  next
    assume e: "win_end (W a) < offset + bytes_left"
    then have m: "min (win_end (W a) - offset) bytes_left = win_end (W a) - offset" by simp
    have s: "s64 (win_end (W a)) = win_end (W a)"
      using win_end_ok [OF assms(1)] by (intro s64_id) auto
    have b: "bytes_left - (win_end (W a) - offset) = offset + bytes_left - win_end (W a)"
      "offset + (win_end (W a) - offset) = win_end (W a)"
      "(offset + bytes_left - win_end (W a) = 0) = False" using e by auto
    have g: "(offset < win_offset (W a)) = False" "(win_end (W a) \<le> offset) = False"
      "((prot (W a) AND req_prot req) \<noteq> req_prot req) = False" using assms by auto
    show "query_walk W req (a # as) offset bytes_left out =
      (let out' = (if bytes_left = nr_bytes req then Some a else out)
       in if req_type req = SCIF_WINDOW_SINGLE then (- ENXIO, out')
          else query_walk W req as (win_end (W a)) (offset + bytes_left - win_end (W a)) out')"
      by (simp only: query_walk.simps Let_def if_False g n m b s)
  }
qed

text \<open>How the first window of a list decides on a range: it lies below it, holds it, or its end cuts it.\<close>

lemma range_after:
  assumes "win_end (W a) \<le> lo" "lo < hi"
  shows "accessible W p (a # as) {lo..<hi} \<longleftrightarrow> accessible W p as {lo..<hi}"
    "fits_type W ty (a # as) lo hi \<longleftrightarrow> fits_type W ty as lo hi"
proof -
  have "win_bytes (W a) \<inter> {lo..<hi} = {}" "lo \<in> {lo..<hi}" using assms by (auto simp: win_bytes_def)
  moreover from this have "\<not> {lo..<hi} \<subseteq> win_bytes (W a)" by blast
  ultimately show "accessible W p (a # as) {lo..<hi} \<longleftrightarrow> accessible W p as {lo..<hi}"
    "fits_type W ty (a # as) lo hi \<longleftrightarrow> fits_type W ty as lo hi"
    using assms by (auto simp: accessible_def fits_type_def split: scif_window_type.split)
qed

lemma range_inside:
  assumes ok: "windows_ok W (a # as)" and "win_offset (W a) \<le> lo" "lo < hi" "hi \<le> win_end (W a)"
  shows "accessible W p (a # as) {lo..<hi} \<longleftrightarrow> (prot (W a) AND p) = p"
    "fits_type W ty (a # as) lo hi \<longleftrightarrow>
       ty = SCIF_WINDOW_PARTIAL \<or> ty = SCIF_WINDOW_SINGLE \<or> hi = win_end (W a)"
proof -
  have sub: "{lo..<hi} \<subseteq> win_bytes (W a)" using assms by (auto simp: win_bytes_def)
  have disj: "win_bytes (W b) \<inter> {lo..<hi} = {}" "hi < win_end (W b)" if "b \<in> set as" for b
    using ok that assms(4) win_end_ok(3) [of "W b"] by (force simp: win_bytes_def windows_ok_def)+
  show "accessible W p (a # as) {lo..<hi} \<longleftrightarrow> (prot (W a) AND p) = p"
    using sub disj(1) assms(3) by (fastforce simp: accessible_def)
  show "fits_type W ty (a # as) lo hi \<longleftrightarrow>
      ty = SCIF_WINDOW_PARTIAL \<or> ty = SCIF_WINDOW_SINGLE \<or> hi = win_end (W a)"
    using sub disj(2) by (force simp: fits_type_def split: scif_window_type.split)
qed

lemma range_across:
  assumes ok: "windows_ok W (a # as)" and "win_offset (W a) \<le> lo" "lo < win_end (W a)" "win_end (W a) < hi"
  shows "accessible W p (a # as) {lo..<hi} \<longleftrightarrow>
      (prot (W a) AND p) = p \<and> accessible W p as {win_end (W a) ..< hi}"
    "fits_type W ty (a # as) lo hi \<longleftrightarrow> ty \<noteq> SCIF_WINDOW_SINGLE \<and> fits_type W ty as (win_end (W a)) hi"
proof -
  let ?m = "win_end (W a)"
  have above: "?m \<le> win_offset (W b)" if "b \<in> set as" for b using ok that by (simp add: windows_ok_Cons)
  have split: "{lo..<hi} = {lo..<?m} \<union> {?m..<hi}" using assms by auto
  have bytes_a: "win_bytes (W a) \<inter> {lo..<hi} = {lo..<?m}" using assms by (auto simp: win_bytes_def)
  have bytes_b: "win_bytes (W b) \<inter> {lo..<hi} = win_bytes (W b) \<inter> {?m..<hi}" if "b \<in> set as" for b
    using above [OF that] assms by (auto simp: win_bytes_def)
  have "{lo..<hi} \<subseteq> (\<Union>b\<in>set (a # as). win_bytes (W b)) \<longleftrightarrow> {?m..<hi} \<subseteq> (\<Union>b\<in>set as. win_bytes (W b))"
    unfolding split using assms by (auto simp: win_bytes_def)
  with bytes_a bytes_b assms show "accessible W p (a # as) {lo..<hi} \<longleftrightarrow>
      (prot (W a) AND p) = p \<and> accessible W p as {?m..<hi}"
    unfolding accessible_def by auto
  have "\<not> {lo..<hi} \<subseteq> win_bytes (W b)" if "b \<in> set (a # as)" for b
    using that above [of b] assms by (auto simp: win_bytes_def)
  with assms(4) show "fits_type W ty (a # as) lo hi \<longleftrightarrow> ty \<noteq> SCIF_WINDOW_SINGLE \<and> fits_type W ty as ?m hi"
    by (auto simp: fits_type_def split: scif_window_type.split)
qed

lemma range_before:
  assumes "windows_ok W (a # as)" "lo < win_offset (W a)" "lo < hi"
  shows "\<not> accessible W p (a # as) {lo..<hi}"
proof -
  have "win_offset (W a) < win_end (W a)" using assms(1) win_end_ok(3) by (simp add: windows_ok_Cons)
  then have "lo \<notin> (\<Union>b\<in>set (a # as). win_bytes (W b))"
    using assms(1,2) by (force simp: win_bytes_def windows_ok_Cons)
  moreover have "lo \<in> {lo..<hi}" using assms(3) by simp
  ultimately show ?thesis unfolding accessible_def by blast
qed

lemma query_walk_exact:
  assumes "windows_ok W xs" "0 \<le> offset" "0 < bytes_left" "offset + bytes_left < 2 ^ 63"
  shows "fst (query_walk W req xs offset bytes_left out) = 0 \<longleftrightarrow>
    accessible W (req_prot req) xs {offset ..< offset + bytes_left} \<and>
    fits_type W (req_type req) xs offset (offset + bytes_left)"
  using assms
proof (induction xs arbitrary: offset bytes_left out)
  case Nil
  then show ?case by (auto simp: accessible_def)
next
  case (Cons a as)
  let ?lo = "win_offset (W a)" and ?hi = "win_end (W a)" and ?e = "offset + bytes_left"
  have a: "win_ok (W a)" and as: "windows_ok W as" using Cons.prems(1) by (auto simp: windows_ok_Cons)
  consider "offset < ?lo" | "?hi \<le> offset" | "?lo \<le> offset" "offset < ?hi" "?e \<le> ?hi"
    | "?lo \<le> offset" "offset < ?hi" "?hi < ?e" by linarith
  then show ?case
  proof cases
    case 1
    with range_before [OF Cons.prems(1), of offset ?e] Cons.prems(3) show ?thesis by (simp add: query_walk_skip)
  next
    case 2
    with Cons.IH [OF as Cons.prems(2-4)] win_end_ok(3) [OF a] range_after [of W a offset ?e] Cons.prems(3)
    show ?thesis by (simp add: query_walk_skip)
  next
    case 3
    with range_inside [OF Cons.prems(1), of offset ?e] Cons.prems(3) show ?thesis
      by (cases "(prot (W a) AND req_prot req) = req_prot req")
        (simp_all add: query_walk_skip query_walk_enter [of W, OF a] del: query_walk.simps)
  next
    case 4
    then have "0 \<le> ?hi" "0 < ?e - ?hi" "?hi + (?e - ?hi) < 2 ^ 63" using Cons.prems by auto
    from Cons.IH [OF as this] 4 range_across [OF Cons.prems(1), of offset ?e] Cons.prems(3) show ?thesis
      by (cases "(prot (W a) AND req_prot req) = req_prot req")
        (simp_all add: query_walk_skip query_walk_enter [of W, OF a] Let_def del: query_walk.simps)
  qed
qed

text \<open>The window reported on success is the one that holds the first byte.\<close>

lemma query_walk_first:
  assumes "windows_ok W xs" "0 < nr_bytes req"
    and "query_walk W req xs offset (nr_bytes req) None = (0, out)"
  shows "\<exists>a\<in>set xs. out = Some a \<and> offset \<in> win_bytes (W a)"
  using assms(1,3)
proof (induction xs)
  case (Cons a as)
  have a: "win_ok (W a)" and as: "windows_ok W as" using Cons.prems(1) by (auto simp: windows_ok_Cons)
  let ?e = "offset + nr_bytes req"
  consider "offset < win_offset (W a)" | "win_offset (W a) \<le> offset" "win_end (W a) \<le> offset"
    | "win_offset (W a) \<le> offset" "offset < win_end (W a)" by linarith
  then show ?case
  proof cases
    case 3
    have "snd (query_walk W req (a # as) offset (nr_bytes req) None) = Some a"
      if "(prot (W a) AND req_prot req) = req_prot req"
      using query_walk_enter [of W, OF a 3 assms(2) that] 3(2)
        query_walk_out [of "?e - win_end (W a)" req W as "win_end (W a)" "Some a"]
      by (cases "?e \<le> win_end (W a)") (simp_all add: Let_def del: query_walk.simps)
    moreover have "(prot (W a) AND req_prot req) = req_prot req"
      using Cons.prems(2) query_walk_skip(3) [of W a offset req as "nr_bytes req" None] 3 by fastforce
    ultimately show ?thesis using Cons.prems(2) 3 by (simp add: win_bytes_def del: query_walk.simps)
  qed (use Cons as in \<open>simp_all add: query_walk_skip del: query_walk.simps\<close>)
qed simp

section \<open>The address table maps every byte of the window\<close>

lemma contig_pages_spec:
  assumes "k \<le> n"
  shows "k + contig_pages phys n k p \<le> n"
    and "t < contig_pages phys n k p \<Longrightarrow> phys (k + t) = p + 4096 * of_nat (Suc t)"
proof -
  have "k + contig_pages phys n k p \<le> n \<and>
      (\<forall>t<contig_pages phys n k p. phys (k + t) = p + 4096 * of_nat (Suc t))"
    using assms
  proof (induction phys n k p rule: contig_pages.induct)
    case (1 phys n k p)
    show ?case
    proof (cases "k < n \<and> phys k = p + 4096")
      case True
      let ?c = "contig_pages phys n (Suc k) (phys k)"
      have c: "contig_pages phys n k p = Suc ?c" using True by (simp add: contig_pages.simps [of phys n k])
      have IH: "Suc k + ?c \<le> n" "\<And>t. t < ?c \<Longrightarrow> phys (Suc k + t) = phys k + 4096 * of_nat (Suc t)"
        using 1 True by auto
      have "phys (k + t) = p + 4096 * of_nat (Suc t)" if "t < Suc ?c" for t
        using that IH(2) [of "t - 1"] True by (cases t) (simp_all add: algebra_simps)
      with IH(1) c show ?thesis by simp
    qed (use 1 in \<open>auto simp: contig_pages.simps [of phys n k]\<close>)
  qed
  then show "k + contig_pages phys n k p \<le> n"
    and "t < contig_pages phys n k p \<Longrightarrow> phys (k + t) = p + 4096 * of_nat (Suc t)" by auto
qed

text \<open>
  \<open>covers phys f n i cs\<close>: the chunks \<open>cs\<close> map the pages from \<open>i\<close> up to \<open>n\<close>, each a physically
  contiguous run mapped with \<open>f\<close>.
\<close>

fun covers :: "(nat \<Rightarrow> u64) \<Rightarrow> (u64 \<Rightarrow> nat \<Rightarrow> u64 option) \<Rightarrow> nat \<Rightarrow> nat \<Rightarrow> (int \<times> u64) list \<Rightarrow> bool" where
  "covers phys f n i [] \<longleftrightarrow> i = n"
| "covers phys f n i ((np, da) # cs) \<longleftrightarrow> 0 < np \<and> i + nat np \<le> n \<and> f (phys i) (nat np) = Some da \<and>
     (\<forall>t<nat np. phys (i + t) = phys i + 4096 * of_nat t) \<and> covers phys f n (i + nat np) cs"

lemma window_chunks_snoc:
  assumes "nr_contig_chunks w = int j" "j < length (num_pages w)" "length (dma_addr w) = length (num_pages w)"
  shows "window_chunks (w\<lparr>num_pages := (num_pages w)[j := np],
      nr_contig_chunks := nr_contig_chunks w + 1, dma_addr := (dma_addr w)[j := da]\<rparr>) =
    window_chunks w @ [(np, da)]"
  using assms by (intro nth_equalityI) (auto simp: window_chunks_def nth_append nat_add_distrib less_Suc_eq)

lemma map_chunks_covers:
  assumes "map_chunks phys f n i j w = (0, w')" "j \<le> i" "i \<le> n" "nr_contig_chunks w = int j"
    "n \<le> length (num_pages w)" "length (dma_addr w) = length (num_pages w)"
  shows "\<exists>cs. covers phys f n i cs \<and> window_chunks w' = window_chunks w @ cs \<and>
    nr_contig_chunks w' = int (j + length cs) \<and> nr_pages w' = nr_pages w \<and> win_offset w' = win_offset w \<and>
    length (dma_addr w') = length (dma_addr w) \<and> length (num_pages w') = length (num_pages w)"
  using assms
proof (induction phys f n i j w rule: map_chunks.induct)
  case (1 phys f n i j w)
  show ?case
  proof (cases "i < n")
    case False
    with 1(2,4) have "i = n" "w' = w" by (auto simp: map_chunks.simps [of phys f n i])
    with 1(5) show ?thesis by (intro exI [of _ "[]"]) simp
  next
    case True
    define c where "c = Suc (contig_pages phys n (Suc i) (phys i))"
    obtain da where da: "f (phys i) c = Some da"
      using 1(2) True by (auto simp: map_chunks.simps [of phys f n i] Let_def c_def split: option.splits)
    define w2 where "w2 = w\<lparr>num_pages := (num_pages w)[j := int c],
      nr_contig_chunks := nr_contig_chunks w + 1, dma_addr := (dma_addr w)[j := da]\<rparr>"
    have step: "map_chunks phys f n (i + c) (Suc j) w2 = (0, w')"
      using 1(2) True da by (simp add: map_chunks.simps [of phys f n i] Let_def c_def w2_def)
    have c: "i + c \<le> n" using contig_pages_spec(1) [of "Suc i" n phys "phys i"] True by (simp add: c_def)
    have run: "phys (i + t) = phys i + 4096 * of_nat t" if "t < c" for t
      using that contig_pages_spec(2) [of "Suc i" n "t - 1" phys "phys i"] True by (cases t) (auto simp: c_def)
    have "\<exists>cs. covers phys f n (i + c) cs \<and> window_chunks w' = window_chunks w2 @ cs \<and>
      nr_contig_chunks w' = int (Suc j + length cs) \<and> nr_pages w' = nr_pages w2 \<and> win_offset w' = win_offset w2 \<and>
      length (dma_addr w') = length (dma_addr w2) \<and> length (num_pages w') = length (num_pages w2)"
      using 1(1) [OF True c_def refl, of da] step da 1(3-7) c
      by (simp add: w2_def c_def)
    then obtain cs where cs: "covers phys f n (i + c) cs" "window_chunks w' = window_chunks w2 @ cs"
      "nr_contig_chunks w' = int (Suc j + length cs)" "nr_pages w' = nr_pages w2" "win_offset w' = win_offset w2"
      "length (dma_addr w') = length (dma_addr w2)" "length (num_pages w') = length (num_pages w2)" by blast
    have "window_chunks w2 = window_chunks w @ [(int c, da)]"
      unfolding w2_def using 1 True by (intro window_chunks_snoc) auto
    moreover have "0 < c" by (simp add: c_def)
    ultimately show ?thesis using cs c run da
      by (intro exI [of _ "(int c, da) # cs"]) (simp add: w2_def)
  qed
qed

text \<open>
  What a DMA mapping promises: the pages of a mapped range follow each other on the device as
  they do in memory; \<open>D\<close> gives the device address of a physical page.
\<close>

definition map_linear :: "(u64 \<Rightarrow> nat \<Rightarrow> u64 option) \<Rightarrow> (u64 \<Rightarrow> u64) \<Rightarrow> bool" where
  "map_linear f D \<longleftrightarrow> (\<forall>p c da t. f p c = Some da \<and> t < c \<longrightarrow> D (p + 4096 * of_nat t) = da + 4096 * of_nat t)"

lemma map_linear_id: "map_linear (\<lambda>p c. Some p) (\<lambda>p. p)"
  by (simp add: map_linear_def)

text \<open>The address of byte \<open>x\<close> of a window whose page \<open>p\<close> is at \<open>phys p\<close>.\<close>

definition byte_addr :: "(u64 \<Rightarrow> u64) \<Rightarrow> (nat \<Rightarrow> u64) \<Rightarrow> int \<Rightarrow> u64" where
  "byte_addr D phys x = D (phys (nat (x div PAGE_SIZE))) + word_of_int (x mod PAGE_SIZE)"

lemma byte_addr_run:
  assumes lin: "map_linear f D" and da: "f (phys i) c = Some da"
    and run: "\<And>t. t < c \<Longrightarrow> phys (i + t) = phys i + 4096 * of_nat t"
    and x: "PAGE_SIZE * int i \<le> x" "x < PAGE_SIZE * int (i + c)"
  shows "byte_addr D phys x = da + word_of_int (x - PAGE_SIZE * int i)"
proof -
  define t where "t = nat (x div PAGE_SIZE) - i"
  have p: "nat (x div PAGE_SIZE) = i + t" "t < c" using x by (simp_all add: t_def)
  have "x div PAGE_SIZE = int (i + t)" using x p(1) by linarith
  then have x': "x - PAGE_SIZE * int i = PAGE_SIZE * int t + x mod PAGE_SIZE"
    using mult_div_mod_eq [of PAGE_SIZE x] by (simp add: algebra_simps)
  have "D (phys i + 4096 * of_nat t) = da + 4096 * of_nat t"
    using lin da p(2) unfolding map_linear_def by blast
  then have "byte_addr D phys x = da + 4096 * of_nat t + word_of_int (x mod PAGE_SIZE)"
    using run [OF p(2)] p(1) by (simp add: byte_addr_def)
  also have "\<dots> = da + word_of_int (x - PAGE_SIZE * int i)"
    unfolding x' by simp
  finally show ?thesis .
qed

text \<open>The search through the chunks, from the chunk that starts with page \<open>i\<close>.\<close>

lemma dma_walk_covers:
  assumes "covers phys f n i cs" "map_linear f D" "0 \<le> base" "base + PAGE_SIZE * int n < 2 ^ 63"
    and "base + PAGE_SIZE * int i \<le> off" "off < base + PAGE_SIZE * int n"
  shows "\<exists>m j' start. dma_walk cs j (base + PAGE_SIZE * int i) off =
      Some (byte_addr D phys (off - base), m, j', start) \<and> 0 < m \<and> off + m \<le> base + PAGE_SIZE * int n \<and>
      (\<forall>k. 0 \<le> k \<and> k < m \<longrightarrow> byte_addr D phys (off + k - base) = byte_addr D phys (off - base) + word_of_int k)"
  using assms
proof (induction phys f n i cs arbitrary: j rule: covers.induct)
  case (1 phys f n i)
  then show ?case by simp
next
  case (2 phys f n i np da cs)
  let ?c = "nat np" and ?start = "base + PAGE_SIZE * int i"
  have c: "0 < np" "i + ?c \<le> n" "f (phys i) ?c = Some da"
    "\<And>t. t < ?c \<Longrightarrow> phys (i + t) = phys i + 4096 * of_nat t" "covers phys f n (i + ?c) cs"
    using 2(2) by auto
  have e: "s64 (?start + u64i (np * PAGE_SIZE)) = base + PAGE_SIZE * int (i + ?c)"
    using 2(4,5) c(1,2) by (subst u64i_id; (subst s64_id)?) (auto simp: algebra_simps)
  note run = byte_addr_run [OF 2(3) c(3) c(4)]
  show ?case
  proof (cases "off < base + PAGE_SIZE * int (i + ?c)")
    case True
    let ?m = "base + PAGE_SIZE * int (i + ?c) - off"
    have here: "byte_addr D phys (off - base) = da + word_of_int (off - ?start)"
      using run [of "off - base"] True 2(6) by (simp add: algebra_simps)
    have "byte_addr D phys (off + k - base) = byte_addr D phys (off - base) + word_of_int k"
      if "0 \<le> k" "k < ?m" for k
      using run [of "off + k - base"] that 2(6) unfolding here
      by (simp add: algebra_simps flip: of_int_add)
    moreover have "dma_walk ((np, da) # cs) j ?start off = Some (byte_addr D phys (off - base), ?m, j, ?start)"
      using True 2(6) e here by simp
    ultimately show ?thesis using True c(2) by auto
  next
    case False
    then have "dma_walk ((np, da) # cs) j ?start off = dma_walk cs (Suc j) (base + PAGE_SIZE * int (i + ?c)) off"
      using e by simp
    with 2(1) [OF c(5) 2(3-5) _ 2(7), of "Suc j"] False show ?thesis by auto
  qed
qed

lemma covers_length: "covers phys f n i cs \<Longrightarrow> length cs \<le> n - i \<and> i \<le> n"
  by (induction phys f n i cs rule: covers.induct) auto

lemma covers_single:
  assumes "covers phys f n i cs" "map_linear f D" "length cs = n - i" "t < n - i"
  shows "snd (cs ! t) = D (phys (i + t))"
  using assms
proof (induction phys f n i cs arbitrary: t rule: covers.induct)
  case (2 phys f n i np da cs)
  have c: "0 < np" "f (phys i) (nat np) = Some da" "covers phys f n (i + nat np) cs" using 2(2) by auto
  have len: "length cs \<le> n - (i + nat np)" "i + nat np \<le> n" using covers_length [OF c(3)] by auto
  with 2(4) c(1) have np: "nat np = 1" by simp
  have "D (phys i) = da" using 2(3) c(2) np unfolding map_linear_def by force
  with 2(1) [OF c(3) 2(3), of "t - 1"] 2(4,5) np show ?case by (cases t) auto
qed simp

lemma or_page_offset:
  fixes a :: u64
  assumes "take_bit 12 a = 0" "0 \<le> x" "x < PAGE_SIZE"
  shows "a OR word_of_int x = a + word_of_int x"
proof -
  have "\<not> bit a k \<or> \<not> bit (word_of_int x :: u64) k" for k
  proof (cases "k < 12")
    case True
    have "bit (take_bit 12 a) k \<longleftrightarrow> bit a k" using True by (simp add: bit_take_bit_iff)
    with assms(1) show ?thesis by simp
  next
    case False
    have "take_bit 12 x = x" using assms by (simp add: take_bit_int_eq_self_iff)
    then have "\<not> bit x k" using False by (metis bit_take_bit_iff)
    then show ?thesis by (simp add: bit_word_of_int_iff)
  qed
  then have "a AND word_of_int x = 0" by (intro bit_eqI) (simp add: bit_and_iff)
  then show ?thesis by (simp add: disjunctive_add_eq_or)
qed

lemma byte_addr_page:
  assumes "b mod PAGE_SIZE = 0" "b \<le> off" "0 \<le> k" "k < PAGE_SIZE - off mod PAGE_SIZE"
  shows "byte_addr D phys (off + k - b) =
    D (phys (nat ((off - b) div PAGE_SIZE))) + word_of_int (off mod PAGE_SIZE + k)"
proof -
  have "(off - b) mod PAGE_SIZE = off mod PAGE_SIZE"
    using mod_diff_right_eq [of off b PAGE_SIZE] assms(1) by simp
  then have e: "off + k - b = PAGE_SIZE * ((off - b) div PAGE_SIZE) + (off mod PAGE_SIZE + k)"
    using mult_div_mod_eq [of PAGE_SIZE "off - b"] by simp
  have "(off + k - b) div PAGE_SIZE = (off - b) div PAGE_SIZE"
    "(off + k - b) mod PAGE_SIZE = off mod PAGE_SIZE + k"
    unfolding e using assms(3,4) by (simp_all add: div_pos_pos_trivial)
  then show ?thesis by (simp add: byte_addr_def)
qed

lemma covers_translates:
  assumes w: "win_ok w" "win_offset w mod PAGE_SIZE = 0"
    and lin: "map_linear f D" and al: "\<And>p. p < nat (nr_pages w) \<Longrightarrow> take_bit 12 (D (phys p)) = 0"
    and cs: "covers phys f (nat (nr_pages w)) 0 cs" "window_chunks w' = cs"
      "nr_contig_chunks w' = int (length cs)" "nr_pages w' = nr_pages w" "win_offset w' = win_offset w"
      "length (dma_addr w') = nat (nr_pages w)" "length (num_pages w') = nat (nr_pages w)"
    and off: "off \<in> win_bytes w"
  shows "\<exists>m. scif_off_to_dma_addr w' off None = Some (byte_addr D phys (off - win_offset w), m, None) \<and>
    0 < m \<and> off + m \<le> win_end w \<and>
    (\<forall>k. 0 \<le> k \<and> k < m \<longrightarrow> byte_addr D phys (off + k - win_offset w) =
                              byte_addr D phys (off - win_offset w) + word_of_int k)"
proof -
  let ?n = "nat (nr_pages w)" and ?b = "win_offset w"
  note chunks = cs(2)
  have n: "int ?n = nr_pages w" using w(1) by (simp add: win_ok_def)
  have rng: "?b \<le> off" "off < ?b + PAGE_SIZE * int ?n" "win_end w = ?b + PAGE_SIZE * int ?n"
    using off win_end_ok(1) [OF w(1)] n by (auto simp: win_bytes_def)
  show ?thesis
  proof (cases "nr_pages w' = nr_contig_chunks w'")
    case False
    have "0 \<le> ?b" "?b + PAGE_SIZE * int ?n < 2 ^ 63" using win_end_ok(2,4) [OF w(1)] rng(3) by auto
    from dma_walk_covers [OF cs(1) lin this, of off 0] rng False chunks cs(5) show ?thesis
      by (auto simp: scif_off_to_dma_addr_def)
  next
    case True
    define p where "p = nat ((off - ?b) div PAGE_SIZE)"
    have len: "length cs = ?n" using True cs(3,4) n by simp
    have "(off - ?b) div PAGE_SIZE < int ?n" using rng by linarith
    moreover have nonneg: "0 \<le> (off - ?b) div PAGE_SIZE" using rng(1) by simp
    ultimately have p: "p < ?n" unfolding p_def by (simp only: nat_less_eq_zless)
    have int_p: "int p = (off - ?b) div PAGE_SIZE" using nonneg by (simp only: p_def int_nat_eq) simp
    have "snd (cs ! p) = D (phys p)" using covers_single [OF cs(1) lin, of p] len p by simp
    moreover have "nat (nr_contig_chunks w') = ?n" using cs(3) len by simp
    then have "snd (window_chunks w' ! p) = dma_addr w' ! p"
      unfolding window_chunks_def using p cs(6,7) by simp
    ultimately have da: "dma_addr w' ! p = D (phys p)" using chunks by simp
    note at = byte_addr_page [OF w(2) rng(1), of _ D phys, folded p_def]
    have here: "byte_addr D phys (off - ?b) = D (phys p) + word_of_int (off mod PAGE_SIZE)"
      using at [of 0] by simp
    have "(off - ?b) mod PAGE_SIZE = off mod PAGE_SIZE"
      using mod_diff_right_eq [of off ?b PAGE_SIZE] w(2) by simp
    then have "off - off mod PAGE_SIZE = ?b + PAGE_SIZE * int p"
      using mult_div_mod_eq [of PAGE_SIZE "off - ?b"] int_p by simp
    moreover have "PAGE_SIZE * (int p + 1) \<le> PAGE_SIZE * int ?n" using p by (intro mult_left_mono) auto
    ultimately have "off + (PAGE_SIZE - off mod PAGE_SIZE) \<le> win_end w"
      unfolding rng(3) by (simp add: algebra_simps)
    with True cs(5,6) p da here at al [OF p] show ?thesis
      by (auto simp: scif_off_to_dma_addr_def Let_def or_page_offset p_def [symmetric])
  qed
qed

text \<open>A mapping with an IOMMU that keeps one entry per page, at distinct bus addresses.\<close>

lemma sg_run_pages:
  assumes "\<forall>e\<in>set sgs. snd e = 4096" "da \<notin> fst ` set sgs" "distinct (map fst sgs)"
  shows "sg_run da (da + 4096) 1 sgs =
    (if sgs \<noteq> [] \<and> fst (hd sgs) = da + 4096 then (2, tl sgs) else (1, sgs))"
proof (cases sgs)
  case (Cons e es)
  have d: "drop_bit 12 (4096 :: u64) = 1" by (simp add: drop_bit_eq_div)
  show ?thesis
  proof (cases es)
    case Nil
    with Cons assms d show ?thesis by (cases e) auto
  next
    case (Cons e' es')
    with \<open>sgs = e # es\<close> assms d show ?thesis by (cases e; cases e') auto
  qed
qed simp

lemma sg_chunks_covers:
  assumes "\<forall>e\<in>set sgs. snd e = 4096" "distinct (map fst sgs)" "map fst sgs = map phys [i ..< n]" "i \<le> n"
    and "nr_contig_chunks w = int j" "j \<le> i" "n \<le> length (num_pages w)" "length (dma_addr w) = length (num_pages w)"
  shows "\<exists>cs. covers phys (\<lambda>p c. Some p) n i cs \<and> window_chunks (sg_chunks sgs j w) = window_chunks w @ cs \<and>
    nr_contig_chunks (sg_chunks sgs j w) = int (j + length cs) \<and> nr_pages (sg_chunks sgs j w) = nr_pages w \<and>
    win_offset (sg_chunks sgs j w) = win_offset w \<and>
    length (dma_addr (sg_chunks sgs j w)) = length (dma_addr w) \<and>
    length (num_pages (sg_chunks sgs j w)) = length (num_pages w)"
  using assms
proof (induction sgs j w arbitrary: i rule: sg_chunks.induct)
  case (1 j w)
  then show ?case by (intro exI [of _ "[]"]) auto
next
  case (2 da len sgs j w)
  have i: "i < n" using 2(4) by (cases "i < n") auto
  then have up: "[i ..< n] = i # [Suc i ..< n]" by (rule upt_conv_Cons)
  have da: "da = phys i" and tl: "map fst sgs = map phys [Suc i ..< n]" and len: "len = 4096"
    using 2(2,4) up by auto
  define c where "c = (if sgs \<noteq> [] \<and> fst (hd sgs) = da + 4096 then 2 else 1 :: nat)"
  define rest where "rest = (if c = 2 then tl sgs else sgs)"
  have d: "drop_bit 12 (4096 :: u64) = 1" by (simp add: drop_bit_eq_div)
  have run: "sg_run da (da + len) (uint (drop_bit 12 len)) sgs = (int c, rest)"
    using sg_run_pages [of sgs da] 2(2,3) by (auto simp: len d c_def rest_def)
  define w2 where "w2 = w\<lparr>num_pages := (num_pages w)[j := int c],
    nr_contig_chunks := nr_contig_chunks w + 1, dma_addr := (dma_addr w)[j := da]\<rparr>"
  have step: "sg_chunks ((da, len) # sgs) j w = sg_chunks rest (Suc j) w2"
    using run by (simp add: w2_def)
  have two: "Suc i < n \<and> phys (Suc i) = phys i + 4096 \<and> map fst (tl sgs) = map phys [Suc (Suc i) ..< n]" if "c = 2"
  proof -
    from that have ne: "sgs \<noteq> []" "fst (hd sgs) = da + 4096" by (auto simp: c_def split: if_splits)
    then have "Suc i < n" using tl by (cases "Suc i < n") auto
    then have "[Suc i ..< n] = Suc i # [Suc (Suc i) ..< n]" by (rule upt_conv_Cons)
    with tl ne \<open>Suc i < n\<close> da show ?thesis by (cases sgs) auto
  qed
  have c12: "c = 1 \<or> c = 2" by (simp add: c_def)
  have rest: "map fst rest = map phys [i + c ..< n]" "i + c \<le> n" "set rest \<subseteq> set sgs"
    using c12 two tl i by (auto simp: rest_def dest: list.set_sel(2) [rotated])
  have dist: "distinct (map fst rest)"
    using 2(3) distinct_tl [of "map fst sgs"] by (auto simp: rest_def map_tl)
  have "\<exists>cs. covers phys (\<lambda>p c. Some p) n (i + c) cs \<and> window_chunks (sg_chunks rest (Suc j) w2) = window_chunks w2 @ cs \<and>
    nr_contig_chunks (sg_chunks rest (Suc j) w2) = int (Suc j + length cs) \<and>
    nr_pages (sg_chunks rest (Suc j) w2) = nr_pages w2 \<and> win_offset (sg_chunks rest (Suc j) w2) = win_offset w2 \<and>
    length (dma_addr (sg_chunks rest (Suc j) w2)) = length (dma_addr w2) \<and>
    length (num_pages (sg_chunks rest (Suc j) w2)) = length (num_pages w2)"
    unfolding w2_def
    by (rule 2(1) [OF run [symmetric] refl, of "i + c"]) (use 2(2,6-9) rest dist c12 in \<open>auto simp del: One_nat_def\<close>)
  then obtain cs where cs: "covers phys (\<lambda>p c. Some p) n (i + c) cs"
    "window_chunks (sg_chunks rest (Suc j) w2) = window_chunks w2 @ cs"
    "nr_contig_chunks (sg_chunks rest (Suc j) w2) = int (Suc j + length cs)"
    "nr_pages (sg_chunks rest (Suc j) w2) = nr_pages w2" "win_offset (sg_chunks rest (Suc j) w2) = win_offset w2"
    "length (dma_addr (sg_chunks rest (Suc j) w2)) = length (dma_addr w2)"
    "length (num_pages (sg_chunks rest (Suc j) w2)) = length (num_pages w2)" by blast
  have "window_chunks w2 = window_chunks w @ [(int c, da)]"
    unfolding w2_def using 2(6-9) i by (intro window_chunks_snoc) auto
  moreover have "phys (i + t) = phys i + 4096 * of_nat t" if "t < c" for t
    using that c12 two by (cases t) auto
  ultimately show ?case
    unfolding step using cs rest(2) c12 da
    by (intro exI [of _ "(int c, da) # cs"]) (auto simp: w2_def)
qed

text \<open>
  What the DMA layer promises of the \<open>n\<close> pages of a window, with \<open>D\<close> the bus address of a page:
  a single mapping is linear, and a scatter-gather table has one entry per page.
\<close>

definition maps_pages :: "map_env \<Rightarrow> (u64 \<Rightarrow> u64) \<Rightarrow> nat \<Rightarrow> bool" where
  "maps_pages env D n \<longleftrightarrow>
     (if iommu_enabled env \<and> \<not> peer_self env then
        distinct (map (\<lambda>p. D (page_to_phys env p)) [0 ..< n]) \<and>
        (\<forall>sgs. sg_mapped env = Some sgs \<longrightarrow> sgs = map (\<lambda>p. (D (page_to_phys env p), 4096)) [0 ..< n])
      else map_linear (if mgmt_node env then map_single env else (\<lambda>p c. Some p)) D)"

lemma map_window_translates:
  assumes w: "win_ok w" "win_offset w mod PAGE_SIZE = 0" "nr_contig_chunks w = 0"
      "length (num_pages w) = nat (nr_pages w)" "length (dma_addr w) = nat (nr_pages w)"
    and env: "maps_pages env D (nat (nr_pages w))"
    and al: "\<And>p. p < nat (nr_pages w) \<Longrightarrow> take_bit 12 (D (page_to_phys env p)) = 0"
    and map: "scif_map_window env w = (0, w')" and off: "off \<in> win_bytes w"
  shows "\<exists>m. scif_off_to_dma_addr w' off None =
      Some (byte_addr D (page_to_phys env) (off - win_offset w), m, None) \<and>
    0 < m \<and> off + m \<le> win_end w \<and>
    (\<forall>k. 0 \<le> k \<and> k < m \<longrightarrow> byte_addr D (page_to_phys env) (off + k - win_offset w) =
                              byte_addr D (page_to_phys env) (off - win_offset w) + word_of_int k)"
proof (cases "iommu_enabled env \<and> \<not> peer_self env")
  case False
  with map env have m: "map_chunks (page_to_phys env) (if mgmt_node env then map_single env else (\<lambda>p c. Some p))
      (nat (nr_pages w)) 0 0 w = (0, w')" and lin: "map_linear (if mgmt_node env then map_single env else (\<lambda>p c. Some p)) D"
    by (auto simp: scif_map_window_def maps_pages_def)
  have new: "window_chunks w = []" using w(3) by (simp add: window_chunks_def)
  from map_chunks_covers [OF m] w(3-5) new obtain cs where
    "covers (page_to_phys env) (if mgmt_node env then map_single env else (\<lambda>p c. Some p)) (nat (nr_pages w)) 0 cs"
    "window_chunks w' = cs" "nr_contig_chunks w' = int (length cs)" "nr_pages w' = nr_pages w"
    "win_offset w' = win_offset w" "length (dma_addr w') = nat (nr_pages w)" "length (num_pages w') = nat (nr_pages w)"
    by auto
  from covers_translates [OF w(1,2) lin al this off] show ?thesis .
next
  case True
  let ?n = "nat (nr_pages w)" and ?A = "\<lambda>p. D (page_to_phys env p)"
  obtain sgs where sgs: "sg_mapped env = Some sgs" "w' = sg_chunks sgs 0 (w\<lparr>win_st := True\<rparr>)"
    using map True by (auto simp: scif_map_window_def scif_dma_map_def Let_def split: if_splits option.splits)
  have t: "sgs = map (\<lambda>p. (?A p, 4096)) [0 ..< ?n]" "distinct (map ?A [0 ..< ?n])"
    using env sgs(1) True by (auto simp: maps_pages_def)
  have e: "\<forall>e\<in>set sgs. snd e = 4096" "map fst sgs = map ?A [0 ..< ?n]" "distinct (map fst sgs)"
    using t by (auto simp: comp_def)
  have new: "window_chunks (w\<lparr>win_st := True\<rparr>) = []" using w(3) by (simp add: window_chunks_def)
  from sg_chunks_covers [OF e(1,3,2), of "w\<lparr>win_st := True\<rparr>" 0] w(3-5) new sgs(2) obtain cs where
    "covers ?A (\<lambda>p c. Some p) ?n 0 cs" "window_chunks w' = cs" "nr_contig_chunks w' = int (length cs)"
    "nr_pages w' = nr_pages w" "win_offset w' = win_offset w"
    "length (dma_addr w') = ?n" "length (num_pages w') = ?n" by auto
  from covers_translates [OF w(1,2) map_linear_id al this off]
  show ?thesis by (simp add: byte_addr_def)
qed

text \<open>
  An IOMMU driver may merge entries and leave the last entries of the table unused, with length
  0. The loop runs over all of them, so that the number of chunks can equal the number of pages,
  and the shortcut for windows of single pages then takes the address of an unused entry.
\<close>

lemma merged_table_translates_wrong:
  fixes da junk :: u64
  assumes "junk \<noteq> da + 8192" "nr_contig_chunks w = 0" "nr_pages w = 2" "win_offset w = 0"
    "length (num_pages w) = 2" "length (dma_addr w) = 2"
    "iommu_enabled env" "\<not> peer_self env" "st_alloc env" "sg_alloc env = 0"
    "sg_mapped env = Some [(da, 8192), (junk, 0)]"
  shows "scif_off_to_dma_addr (snd (scif_map_window env w)) 4096 None = Some (junk, 4096, None)"
proof -
  have "drop_bit 12 (8192 :: u64) = 2" by (simp add: drop_bit_eq_div)
  moreover obtain a b where "num_pages w = [a, b]" using assms(5) by (auto simp: numeral_2_eq_2 length_Suc_conv)
  moreover obtain c d where "dma_addr w = [c, d]" using assms(6) by (auto simp: numeral_2_eq_2 length_Suc_conv)
  ultimately show ?thesis using assms
    by (simp add: scif_map_window_def scif_dma_map_def scif_off_to_dma_addr_def)
qed

section \<open>Unregistering a range, and cached windows\<close>

lemma unregister_walk_steps:
  "e \<le> win_offset (W a) \<Longrightarrow> unregister_walk W offset e (a # as) = ([], False)"
  "win_offset (W a) < e \<Longrightarrow> win_end (W a) \<le> offset \<Longrightarrow>
     unregister_walk W offset e (a # as) = unregister_walk W offset e as"
  "win_offset (W a) < e \<Longrightarrow> offset < win_end (W a) \<Longrightarrow> win_offset (W a) < offset \<or> e < win_end (W a) \<Longrightarrow>
     unregister_walk W offset e (a # as) = ([], True)"
  "win_offset (W a) < e \<Longrightarrow> offset < win_end (W a) \<Longrightarrow> offset \<le> win_offset (W a) \<Longrightarrow> win_end (W a) \<le> e \<Longrightarrow>
     unregister_walk W offset e (a # as) =
       (a # fst (unregister_walk W offset e as), snd (unregister_walk W offset e as))"
  by (simp_all add: Let_def split_beta) blast

declare unregister_walk.simps(2) [simp del]

definition touches :: "scif_window \<Rightarrow> int set \<Rightarrow> bool" where
  "touches w R \<longleftrightarrow> win_bytes w \<inter> R \<noteq> {}"

definition within :: "scif_window \<Rightarrow> int set \<Rightarrow> bool" where
  "within w R \<longleftrightarrow> win_bytes w \<subseteq> R"

lemma unregister_walk_exact:
  assumes "windows_ok W xs" "offset < e" "R = {offset..<e}" "unregister_walk W offset e xs = (us, p)"
  shows "(\<forall>a\<in>set us. within (W a) R) \<and> (\<not> p \<longrightarrow> us = filter (\<lambda>a. touches (W a) R) xs) \<and>
    (p \<longleftrightarrow> (\<exists>a\<in>set xs. touches (W a) R \<and> \<not> within (W a) R))"
  using assms(1,4)
proof (induction xs arbitrary: us p)
  case (Cons a as)
  let ?lo = "win_offset (W a)" and ?hi = "win_end (W a)"
  have a: "win_ok (W a)" and as: "windows_ok W as"
    and above: "\<And>b. b \<in> set as \<Longrightarrow> ?hi \<le> win_offset (W b)"
    using Cons.prems(1) by (auto simp: windows_ok_Cons)
  have ne: "?lo < ?hi" by (rule win_end_ok(3) [OF a])
  obtain us' p' where r: "unregister_walk W offset e as = (us', p')" by (cases "unregister_walk W offset e as")
  note IH = Cons.IH [OF as r]
  have "e \<le> ?lo \<or> (?lo < e \<and> ?hi \<le> offset) \<or> (?lo < e \<and> offset < ?hi)" by linarith
  then consider "e \<le> ?lo" | "?lo < e" "?hi \<le> offset"
    | "?lo < e" "offset < ?hi" "?lo < offset \<or> e < ?hi"
    | "?lo < e" "offset < ?hi" "offset \<le> ?lo" "?hi \<le> e"
    using not_less by blast
  then show ?case
  proof cases
    case 1
    have "\<not> touches (W b) R" if "b \<in> set (a # as)" for b
      using that 1 ne above [of b] by (auto simp: win_bytes_def assms(3) touches_def)
    with unregister_walk_steps(1) [of e W a offset as, OF 1] Cons.prems(2) show ?thesis
      by (simp add: filter_empty_conv)
  next
    case 2
    then have "\<not> touches (W a) R" by (auto simp: win_bytes_def assms(3) touches_def)
    then have skip: "filter (\<lambda>a. touches (W a) R) (a # as) = filter (\<lambda>a. touches (W a) R) as"
      "(\<exists>b\<in>set (a # as). touches (W b) R \<and> \<not> within (W b) R) \<longleftrightarrow>
       (\<exists>b\<in>set as. touches (W b) R \<and> \<not> within (W b) R)" by simp_all
    have res: "us = us'" "p = p'"
      using unregister_walk_steps(2) [of W a e offset as, OF 2] Cons.prems(2) r by simp_all
    show ?thesis unfolding res skip by (rule IH)
  next
    case 3
    then have "max offset ?lo \<in> win_bytes (W a) \<inter> R" "\<not> within (W a) R"
      using assms(2) ne by (simp_all add: win_bytes_def assms(3) within_def) linarith
    then have "touches (W a) R" "\<not> within (W a) R" by (auto simp: touches_def)
    with unregister_walk_steps(3) [of W a e offset as, OF 3] Cons.prems(2) show ?thesis by simp
  next
    case 4
    then have "?lo \<in> win_bytes (W a) \<inter> R" "within (W a) R"
      using ne by (auto simp: win_bytes_def assms(3) within_def)
    then have "touches (W a) R" "within (W a) R" by (auto simp: touches_def)
    then have keep: "filter (\<lambda>a. touches (W a) R) (a # as) = a # filter (\<lambda>a. touches (W a) R) as"
      "(\<exists>b\<in>set (a # as). touches (W b) R \<and> \<not> within (W b) R) \<longleftrightarrow>
       (\<exists>b\<in>set as. touches (W b) R \<and> \<not> within (W b) R)"
      "(\<forall>b\<in>set (a # us'). within (W b) R) \<longleftrightarrow> (\<forall>b\<in>set us'. within (W b) R)" by simp_all
    have res: "us = a # us'" "p = p'"
      using unregister_walk_steps(4) [of W a e offset as, OF 4] Cons.prems(2) r by simp_all
    show ?thesis unfolding res keep list.inject simp_thms by (rule IH)
  qed
qed simp

text \<open>A cached window that is reported holds the request and allows the access.\<close>

lemma tcw_walk_hit:
  assumes "tcw_err (tcw_walk W p xs start bytes) = 0"
  shows "\<exists>a\<in>set xs. tcw_out (tcw_walk W p xs start bytes) = Some a \<and> va_for_temp (W a) \<le> start \<and>
    u64i (start + bytes) \<le> tcw_end (W a) \<and> (prot (W a) AND p) = p"
  using assms
proof (induction xs)
  case (Cons a as)
  consider "start < va_for_temp (W a) \<and> u64i (start + bytes) < va_for_temp (W a)"
    | "\<not> (start < va_for_temp (W a) \<and> u64i (start + bytes) < va_for_temp (W a))" "start \<ge> tcw_end (W a)"
    | "\<not> (start < va_for_temp (W a) \<and> u64i (start + bytes) < va_for_temp (W a))" "start < tcw_end (W a)" by linarith
  then show ?case
  proof cases
    case 1
    then show ?thesis using Cons.prems by (simp add: Let_def)
  next
    case 2
    then have "tcw_walk W p (a # as) start bytes = tcw_walk W p as start bytes" by (auto simp: Let_def)
    with Cons show ?thesis by (simp del: tcw_walk.simps)
  next
    case 3
    then show ?thesis using Cons.prems by (simp add: Let_def split_beta split: if_splits)
  qed
qed simp

text \<open>
  \<open>scif_query_tcw\<close> widens a request that overlaps the front of a cached window by moving its
  start up to the window: the new range no longer holds the first page of the request.
\<close>

definition cached_win :: scif_window where
  "cached_win = zero_window\<lparr>nr_pages := 2, prot := 3, win_magic := SCIFEP_MAGIC, va_for_temp := 0x2000,
     win_type := SCIF_WINDOW_SELF, win_temp := True\<rparr>"

lemma query_tcw_loses_start:
  "let r = scif_query_tcw (\<lambda>_. cached_win) 3 [1] 0x1000 0x2000
   in tcw_err r = - ENXIO \<and> tcw_va r = 0x2000 \<and> tcw_bytes r = 0x3000"
  by (simp add: scif_query_tcw_def cached_win_def zero_window_def tcw_end_def Let_def)

section \<open>Properties\<close>


definition example_win :: "int \<Rightarrow> int \<Rightarrow> scif_window" where
  "example_win off n = cached_win\<lparr>win_offset := off, nr_pages := n\<rparr>"

definition example_wins :: "u64 \<Rightarrow> scif_window" where
  "example_wins a = (if a = 1 then example_win 0x1000 1 else example_win 0x2000 2)"

lemmas example_defs = example_wins_def example_win_def cached_win_def zero_window_def win_end_def

lemma example_windows_ok: "windows_ok example_wins [1, 2]"
  by (simp add: windows_ok_def win_ok_def example_defs)



definition example_phys :: "nat \<Rightarrow> u64" where
  "example_phys p = (if p < 2 then 0x10000 + 0x1000 * of_nat p else 0x50000)"

definition example_new_win :: scif_window where
  "example_new_win = (example_win 0x4000 3)\<lparr>dma_addr := [0, 0, 0], num_pages := [0, 0, 0]\<rparr>"

definition example_map_env :: map_env where
  "example_map_env = \<lparr>iommu_enabled = False, peer_self = False, mgmt_node = False, page_to_phys = example_phys,
     map_single = (\<lambda>_ _. None), st_alloc = False, sg_alloc = 0, sg_mapped = None\<rparr>"

lemma example_map:
  "scif_map_window example_map_env example_new_win =
     (0, example_new_win\<lparr>num_pages := [2, 1, 0], nr_contig_chunks := 2, dma_addr := [0x10000, 0x50000, 0]\<rparr>)"
  by (simp add: scif_map_window_def example_map_env_def example_new_win_def example_win_def cached_win_def zero_window_def map_chunks.simps
      contig_pages.simps example_phys_def Let_def)


end
