(* ===== verification/Scif_Rma.thy ===== *)
theory Scif_Rma
  imports Scif_Epd Scif_Window
begin

text \<open>
  The life of a registration window (\<open>scif_rma.c\<close>, \<open>scif_rma_list.c\<close>): creating and destroying the
  window on the node that registers it and its image on the peer, the handlers of the messages
  that move it between its states, and unregistration. Windows and pinned pages are known by
  their addresses; following an address to freed memory sets \<open>fault\<close>. The address of an
  allocation handle stands for the window that contains it. Draining a DMA channel waits for the
  hardware and leaves this state as it is.
\<close>

section \<open>Access\<close>

definition win_at :: "scif_node \<Rightarrow> u64 \<Rightarrow> scif_window" where
  "win_at st w = (case wins st w of None \<Rightarrow> zero_window | Some x \<Rightarrow> x)"

definition rma_upd :: "u64 \<Rightarrow> (scif_endpt_rma_info \<Rightarrow> scif_endpt_rma_info) \<Rightarrow> scif_node \<Rightarrow> scif_node" where
  "rma_upd a f st = ep_upd a (\<lambda>e. e\<lparr>rma_info := f (rma_info e)\<rparr>) st"

definition pin_upd :: "u64 \<Rightarrow> (scif_pinned_pages \<Rightarrow> scif_pinned_pages) \<Rightarrow> scif_node \<Rightarrow> scif_node" where
  "pin_upd p f st =
     (case pins st p of None \<Rightarrow> st\<lparr>fault := True\<rparr> | Some x \<Rightarrow> st\<lparr>pins := (pins st)(p \<mapsto> f x)\<rparr>)"

definition win_free :: "u64 \<Rightarrow> scif_node \<Rightarrow> scif_node" where
  "win_free w st = (if wins st w = None then st\<lparr>fault := True\<rparr> else st\<lparr>wins := (wins st)(w := None)\<rparr>)"

text \<open>A send to the remote device of an endpoint.\<close>

definition ep_send :: "nodeqp_env \<Rightarrow> scif_endpt \<Rightarrow> scifmsg \<Rightarrow> scif_node \<Rightarrow> int \<times> scif_node" where
  "ep_send q e msg st =
     (case remote_dev e of None \<Rightarrow> (0, st\<lparr>fault := True\<rparr>) | Some d \<Rightarrow> scif_nodeqp_send q d msg st)"

definition ep_raw_send :: "nodeqp_env \<Rightarrow> scif_endpt \<Rightarrow> scifmsg \<Rightarrow> scif_node \<Rightarrow> int \<times> scif_node" where
  "ep_raw_send q e msg st =
     (case remote_dev e of None \<Rightarrow> (0, st\<lparr>fault := True\<rparr>) | Some d \<Rightarrow> raw_nodeqp_send q d msg st)"

definition scifdev_alive :: "scif_endpt \<Rightarrow> scif_node \<Rightarrow> bool" where
  "scifdev_alive e st = (case remote_dev e of None \<Rightarrow> False | Some d \<Rightarrow> scifdev_alive_dev d st)"

text \<open>
  \<open>list_del_init\<close> of a window: it leaves the list it is on, which is a registration list of an
  endpoint, a list of cached windows or one of the two lists of windows to destroy.
\<close>

definition win_unlink :: "u64 \<Rightarrow> scif_node \<Rightarrow> scif_node" where
  "win_unlink w st =
     st\<lparr>rma_free := remove1 w (rma_free st), rma_tc := remove1 w (rma_tc st),
       eps := (\<lambda>a. map_option (\<lambda>e. e\<lparr>rma_info := (rma_info e)\<lparr>reg_list := remove1 w (reg_list (rma_info e)),
                 remote_reg_list := remove1 w (remote_reg_list (rma_info e))\<rparr>\<rparr>) (eps st a)),
       mmns := (\<lambda>m. map_option (\<lambda>n. n\<lparr>tc_reg_list := remove1 w (tc_reg_list n)\<rparr>) (mmns st m))\<rparr>"

definition scif_queue_for_cleanup :: "u64 \<Rightarrow> scif_node \<Rightarrow> scif_node" where
  "scif_queue_for_cleanup w st = (let st1 = win_unlink w st in st1\<lparr>rma_free := rma_free st1 @ [w]\<rparr>)"

definition scif_queue_for_cleanup_tc :: "u64 \<Rightarrow> scif_node \<Rightarrow> scif_node" where
  "scif_queue_for_cleanup_tc w st = (let st1 = win_unlink w st in st1\<lparr>rma_tc := rma_tc st1 @ [w]\<rparr>)"

definition scif_rma_destroy_tcw_helper :: "u64 \<Rightarrow> scif_node \<Rightarrow> scif_node" where
  "scif_rma_destroy_tcw_helper w st = scif_queue_for_cleanup_tc w (win_unlink w st)"

section \<open>Pinned pages\<close>

text \<open>\<open>p\<close> is the address of the new structure, 0 where one of the two allocations fails.\<close>

definition scif_create_pinned_pages :: "u64 \<Rightarrow> nat \<Rightarrow> int \<Rightarrow> scif_node \<Rightarrow> scif_node" where
  "scif_create_pinned_pages p nr rprot st =
     (if p = 0 then st
      else st\<lparr>pins := (pins st)(p \<mapsto> \<lparr>pin_nr_pages = 0, pin_prot = rprot, map_flags = 0, ref_count = 0,
                                   pin_magic = SCIFEP_MAGIC, pin_pages = replicate nr 0\<rparr>)\<rparr>)"

definition scif_destroy_pinned_pages :: "u64 \<Rightarrow> scif_node \<Rightarrow> scif_node" where
  "scif_destroy_pinned_pages p st =
     (if pins st p = None then st\<lparr>fault := True\<rparr> else st\<lparr>pins := (pins st)(p := None)\<rparr>)"

text \<open>
  The accounting of pinned pages against the limit of a process, by its \<open>pid\<close> (0 is NULL):
  \<open>has_mm\<close> tells whether the task still has an address space, \<open>lock_limit\<close> is the limit in pages
  and \<open>cap\<close> the capability \<open>CAP_IPC_LOCK\<close>.
\<close>

definition scif_dec_pinned_vm :: "u64 \<Rightarrow> int \<Rightarrow> scif_node \<Rightarrow> scif_node" where
  "scif_dec_pinned_vm mm nr st = st\<lparr>pinned_vm := (pinned_vm st)(mm := pinned_vm st mm - nr)\<rparr>"

definition scif_try_inc_pinned_vm :: "int \<Rightarrow> bool \<Rightarrow> u64 \<Rightarrow> int \<Rightarrow> scif_node \<Rightarrow> int \<times> scif_node" where
  "scif_try_inc_pinned_vm lock_limit cap mm nr st =
     (if mm = 0 \<or> nr = 0 then (0, st)
      else let locked = nr + pinned_vm st mm
           in if locked > lock_limit \<and> \<not> cap then (- EAGAIN, st)
              else (0, st\<lparr>pinned_vm := (pinned_vm st)(mm := locked)\<rparr>))"

definition win_drop_pid :: "(u64 \<Rightarrow> bool) \<Rightarrow> u64 \<Rightarrow> scif_node \<Rightarrow> scif_node" where
  "win_drop_pid has_mm w st =
     (let x = win_at st w
      in if win_pid x = 0 then st
         else win_upd w (\<lambda>x. x\<lparr>win_pid := 0\<rparr>)
                (if has_mm (win_pid x) then scif_dec_pinned_vm (win_pid x) (nr_pages x) st else st))"

section \<open>The window on the registering node\<close>

text \<open>\<open>wa\<close> is the address of the new window, 0 where an allocation fails.\<close>

definition scif_create_window :: "u64 \<Rightarrow> u64 \<Rightarrow> nat \<Rightarrow> int \<Rightarrow> bool \<Rightarrow> scif_node \<Rightarrow> scif_node" where
  "scif_create_window wa a nr offset temp st =
     (if wa = 0 then st
      else st\<lparr>wins := (wins st)(wa \<mapsto> zero_window\<lparr>win_magic := SCIFEP_MAGIC, win_offset := offset, win_ep := a,
             win_type := SCIF_WINDOW_SELF, win_temp := temp, reg_state := OP_IDLE, mapped_pages := 0,
             unreg_state := SCIF_UNREG_NOT_INITIATED, dma_addr := replicate nr 0, num_pages := replicate nr 0\<rparr>)\<rparr>)"

text \<open>Releasing the offset of window \<open>w\<close>, or of a registration that has no window yet.\<close>

definition free_offset :: "rb_ops \<Rightarrow> u64 \<Rightarrow> u64 \<Rightarrow> scif_node \<Rightarrow> scif_node" where
  "free_offset rb a w st =
     (case (eps st a, wins st w) of
        (Some e, Some x) \<Rightarrow>
          let (freed, d) = scif_free_window_offset rb (Some (offset_freed x)) (word_of_int (win_offset x))
                             (iovad (rma_info e))
          in win_upd w (\<lambda>x. x\<lparr>offset_freed := (freed = Some True)\<rparr>) (rma_upd a (\<lambda>r. r\<lparr>iovad := d\<rparr>) st)
      | _ \<Rightarrow> st\<lparr>fault := True\<rparr>)"

definition free_offset_null :: "rb_ops \<Rightarrow> u64 \<Rightarrow> int \<Rightarrow> scif_node \<Rightarrow> scif_node" where
  "free_offset_null rb a offset st =
     rma_upd a (\<lambda>r. r\<lparr>iovad := snd (scif_free_window_offset rb None (word_of_int offset) (iovad r))\<rparr>) st"

text \<open>The mapping services as a window of device \<open>d\<close> with pages \<open>pgs\<close> sees them.\<close>

definition map_env_at :: "map_env \<Rightarrow> u16 \<Rightarrow> u64 list \<Rightarrow> scif_node \<Rightarrow> map_env" where
  "map_env_at env d pgs st =
     env\<lparr>peer_self := scifdev_self d st, mgmt_node := scif_is_mgmt_node st,
         page_to_phys := (\<lambda>i. if i < length pgs then pgs ! i else 0)\<rparr>"

definition ep_unmap_window :: "map_env \<Rightarrow> u64 \<Rightarrow> u64 \<Rightarrow> scif_node \<Rightarrow> scif_node" where
  "ep_unmap_window env a w st =
     (case eps st a of
        Some e \<Rightarrow> (case remote_dev e of
            Some d \<Rightarrow> win_upd w (scif_unmap_window (map_env_at env d [] st)) st
          | None \<Rightarrow> st\<lparr>fault := True\<rparr>)
      | None \<Rightarrow> st\<lparr>fault := True\<rparr>)"

definition scif_destroy_window :: "rb_ops \<Rightarrow> map_env \<Rightarrow> (u64 \<Rightarrow> bool) \<Rightarrow> u64 \<Rightarrow> u64 \<Rightarrow> scif_node \<Rightarrow> int \<times> scif_node" where
  "scif_destroy_window rb env has_mm a w st =
     (case wins st w of
        None \<Rightarrow> (0, st\<lparr>fault := True\<rparr>)
      | Some x \<Rightarrow>
          if win_magic x \<noteq> SCIFEP_MAGIC then (- 1, st)
          else let st1 = ep_unmap_window env a w (free_offset rb a w (win_drop_pid has_mm w st))
               in case pins st1 (pinned_pages x) of
                    None \<Rightarrow> (0, st1\<lparr>fault := True\<rparr>)
                  | Some pin \<Rightarrow>
                      let j = ref_count pin - 1; st2 = pin_upd (pinned_pages x) (\<lambda>p. p\<lparr>ref_count := j\<rparr>) st1
                      in if j < 0 then (- 1, st2)
                         else (0, win_free w (if j = 0 then scif_destroy_pinned_pages (pinned_pages x) st2 else st2)))"

section \<open>The image of a window on the peer\<close>

text \<open>
  The services of \<open>scif_create_remote_lookup\<close>: the mapping of the window, the two coherent
  allocations, and the mapping of the page that holds the entries of table row \<open>j\<close>.
\<close>

abbreviation (input) SCIF_NR_ADDR_IN_PAGE :: nat where "SCIF_NR_ADDR_IN_PAGE \<equiv> 512"

record lookup_env =
  lk_window :: "u64 option"
  lk_dma_alloc :: bool
  lk_np_alloc :: bool
  lk_dma_page :: "nat \<Rightarrow> u64 option"
  lk_np_page :: "nat \<Rightarrow> u64 option"

text \<open>The loop over the pages of addresses; \<open>None\<close> is a write outside the two tables.\<close>

function map_lookup :: "lookup_env \<Rightarrow> nat \<Rightarrow> nat \<Rightarrow> nat \<Rightarrow> u64 list \<Rightarrow> u64 list \<Rightarrow> (int \<times> u64 list \<times> u64 list) option" where
  "map_lookup env nr i j dl nl =
     (if i < nr then
        (if j < length dl \<and> j < length nl then
           case lk_dma_page env j of
             None \<Rightarrow> Some (- ENOMEM, dl[j := 0], nl)
           | Some x \<Rightarrow>
               (case lk_np_page env j of
                  None \<Rightarrow> Some (- ENOMEM, dl[j := x], nl[j := 0])
                | Some y \<Rightarrow> map_lookup env nr (i + SCIF_NR_ADDR_IN_PAGE) (Suc j) (dl[j := x]) (nl[j := y]))
         else None)
      else Some (0, dl, nl))"
  by pat_completeness auto
termination
  by (relation "measure (\<lambda>(env, nr, i, j, dl, nl). nr - i)") auto

declare map_lookup.simps [simp del]

definition lookup_rows :: "int \<Rightarrow> int" where
  "lookup_rows nr = (nr * PAGE_SIZE + (2 * 1024 * 1024 - 1)) div (2 * 1024 * 1024)"

definition scif_create_remote_lookup :: "lookup_env \<Rightarrow> scif_window \<Rightarrow> (int \<times> scif_window) option" where
  "scif_create_remote_lookup env x =
     (case lk_window env of
        None \<Rightarrow> Some (- ENOMEM, x\<lparr>mapped_offset := 0\<rparr>)
      | Some off \<Rightarrow>
          let rows = lookup_rows (nr_pages x); x1 = x\<lparr>mapped_offset := off, nr_lookup := rows\<rparr>
          in if \<not> lk_dma_alloc env then Some (- ENOMEM, x1)
             else let x2 = x1\<lparr>dma_lookup := replicate (nat rows) 0\<rparr>
             in if \<not> lk_np_alloc env then Some (- ENOMEM, x2)
             else map_option (\<lambda>(err, dl, nl). (err, x2\<lparr>dma_lookup := dl, np_lookup := nl\<rparr>))
                    (map_lookup env (nat (nr_pages x)) 0 0 (dma_lookup x2) (replicate (nat rows) 0)))"

definition scif_destroy_remote_lookup :: "scif_window \<Rightarrow> scif_window" where
  "scif_destroy_remote_lookup x = (if nr_lookup x \<noteq> 0 then x\<lparr>nr_lookup := 0\<rparr> else x)"

definition scif_destroy_remote_window :: "u64 \<Rightarrow> scif_node \<Rightarrow> scif_node" where
  "scif_destroy_remote_window w st = win_free w (win_upd w scif_destroy_remote_lookup st)"

text \<open>
  An allocation of no pages or of a negative number of pages fails: the size is 0 or, as a
  \<open>size_t\<close>, larger than memory.
\<close>

definition scif_create_remote_window :: "u64 \<Rightarrow> lookup_env \<Rightarrow> int \<Rightarrow> scif_node \<Rightarrow> u64 \<times> scif_node" where
  "scif_create_remote_window wa env nr st =
     (if wa = 0 \<or> nr \<le> 0 then (0, st)
      else let x = zero_window\<lparr>nr_pages := nr, win_magic := SCIFEP_MAGIC, dma_addr := replicate (nat nr) 0,
                               num_pages := replicate (nat nr) 0\<rparr>
           in case scif_create_remote_lookup env x of
                None \<Rightarrow> (0, st\<lparr>fault := True\<rparr>)
              | Some (err, x') \<Rightarrow>
                  if err \<noteq> 0 then (0, scif_destroy_remote_window wa (st\<lparr>wins := (wins st)(wa \<mapsto> x')\<rparr>))
                  else (wa, st\<lparr>wins := (wins st)(wa \<mapsto> x'\<lparr>win_type := SCIF_WINDOW_PEER\<rparr>)\<rparr>))"

section \<open>Message handlers\<close>

definition scif_alloc_req :: "nodeqp_env \<Rightarrow> u64 \<Rightarrow> lookup_env \<Rightarrow> u16 \<Rightarrow> scifmsg \<Rightarrow> scif_node \<Rightarrow> scif_node" where
  "scif_alloc_req q wa env d msg st =
     (let nr = sint (ucast (payload1 msg) :: u32); (w, st1) = scif_create_remote_window wa env nr st
      in if w = 0 then snd (scif_nodeqp_send q d (msg\<lparr>uop := SCIF_ALLOC_REJ\<rparr>) st1)
         else let (err, st2) = scif_nodeqp_send q d
                    (msg\<lparr>uop := SCIF_ALLOC_GNT, payload0 := w, payload1 := mapped_offset (win_at st1 w)\<rparr>) st1
              in if err \<noteq> 0 then scif_destroy_remote_window w st2 else st2)"

text \<open>A handler that takes the lock of the endpoint of a window follows its pointer.\<close>

definition win_lock :: "u64 \<Rightarrow> scif_node \<Rightarrow> scif_node" where
  "win_lock w st =
     (if wins st w = None \<or> eps st (win_ep (win_at st w)) = None then st\<lparr>fault := True\<rparr> else st)"

definition scif_alloc_gnt_rej :: "scifmsg \<Rightarrow> scif_node \<Rightarrow> scif_node" where
  "scif_alloc_gnt_rej msg st =
     win_upd (payload2 msg) (\<lambda>x. x\<lparr>alloc_vaddr := payload0 msg, alloc_phys := payload1 msg,
         alloc_state := (if uop msg = SCIF_ALLOC_GNT then OP_COMPLETED else OP_FAILED)\<rparr>)
       (win_lock (payload2 msg) st)"

definition scif_free_virt :: "scifmsg \<Rightarrow> scif_node \<Rightarrow> scif_node" where
  "scif_free_virt msg st = scif_destroy_remote_window (payload1 msg) st"

fun add_aper_base :: "u64 \<Rightarrow> nat \<Rightarrow> int list \<Rightarrow> u64 list \<Rightarrow> u64 list" where
  "add_aper_base base (Suc n) (np # nps) (d # ds) =
     (if np \<noteq> 0 then (d + base) # add_aper_base base n nps ds else d # ds)"
| "add_aper_base base n nps ds = ds"

definition scif_fixup_aper_base :: "u16 \<Rightarrow> scif_node \<Rightarrow> scif_window \<Rightarrow> scif_window" where
  "scif_fixup_aper_base d st x =
     (if \<not> scifdev_self d st \<and> win_type x = SCIF_WINDOW_PEER \<and> \<not> card_rel_da (devs st d) then
        (case aper_pa (devs st d) of
           None \<Rightarrow> x
         | Some base \<Rightarrow> x\<lparr>dma_addr := add_aper_base base (nat (nr_contig_chunks x)) (num_pages x) (dma_addr x)\<rparr>)
      else x)"

definition scif_recv_reg :: "nodeqp_env \<Rightarrow> scifmsg \<Rightarrow> scif_node \<Rightarrow> scif_node" where
  "scif_recv_reg q msg st =
     (let a = payload0 msg; w = payload1 msg
      in case eps st a of
           None \<Rightarrow> st\<lparr>fault := True\<rparr>
         | Some e \<Rightarrow>
             (case remote_dev e of
                None \<Rightarrow> st\<lparr>fault := True\<rparr>
              | Some d \<Rightarrow>
                  if ep_state e = SCIFEP_CONNECTED then
                    let st1 = snd (scif_nodeqp_send q d (msg\<lparr>uop := SCIF_REGISTER_ACK\<rparr>) st);
                        st2 = win_upd w (scif_fixup_aper_base d st1) st1;
                        st3 = rma_upd a (\<lambda>r. r\<lparr>remote_reg_list :=
                                scif_insert_window (win_at st2) w (remote_reg_list r)\<rparr>) st2
                    in win_upd w scif_destroy_remote_lookup st3
                  else
                    let st1 = snd (scif_nodeqp_send q d (msg\<lparr>uop := SCIF_REGISTER_NACK\<rparr>) st)
                    in scif_destroy_remote_window w (win_upd w scif_destroy_remote_lookup st1)))"

definition scif_recv_unreg :: "nodeqp_env \<Rightarrow> scifmsg \<Rightarrow> scif_node \<Rightarrow> scif_node" where
  "scif_recv_unreg q msg st =
     (case wins st (payload0 msg) of
        None \<Rightarrow> st\<lparr>fault := True\<rparr>
      | Some x \<Rightarrow>
          (case eps st (win_ep x) of
             None \<Rightarrow> st\<lparr>fault := True\<rparr>
           | Some e \<Rightarrow>
               let req = \<lparr>req_offset = win_offset x, nr_bytes = u64i (nr_pages x * PAGE_SIZE), req_prot = 0,
                          req_type = SCIF_WINDOW_FULL, req_head = remote_reg_list (rma_info e)\<rparr>;
                   (err, out) = scif_query_window (win_at st) req
               in if err \<noteq> 0 then st
                  else case out of
                    None \<Rightarrow> scif_destroy_remote_window (payload0 msg) st
                  | Some w \<Rightarrow>
                      let st1 = win_upd w (\<lambda>x. x\<lparr>unreg_state := SCIF_UNREG_REQUESTED\<rparr>) st;
                          msg1 = msg\<lparr>payload0 := remote_ep e, payload1 := peer_window (win_at st w)\<rparr>
                      in if mapped_pages (win_at st w) = 0 then
                           let st2 = win_unlink w (rma_upd (win_ep x) (\<lambda>r. r\<lparr>tw_refcount := tw_refcount r + 1,
                                       async_list_del := 1\<rparr>) st1)
                           in scif_queue_for_cleanup w (snd (ep_send q e (msg1\<lparr>uop := SCIF_DELETE_WINDOW\<rparr>) st2))
                         else snd (ep_send q e (msg1\<lparr>uop := SCIF_USED_WINDOW\<rparr>) st1)))"

definition scif_recv_reg_ack :: "scifmsg \<Rightarrow> scif_node \<Rightarrow> scif_node" where
  "scif_recv_reg_ack msg st =
     win_upd (payload2 msg) (\<lambda>x. x\<lparr>reg_state := OP_COMPLETED\<rparr>) (win_lock (payload2 msg) st)"

definition scif_recv_reg_nack :: "scifmsg \<Rightarrow> scif_node \<Rightarrow> scif_node" where
  "scif_recv_reg_nack msg st =
     win_upd (payload2 msg) (\<lambda>x. x\<lparr>reg_state := OP_FAILED\<rparr>) (win_lock (payload2 msg) st)"

abbreviation (input) SCIF_MAP_FIXED :: int where "SCIF_MAP_FIXED \<equiv> 0x10"
abbreviation (input) SCIF_MAP_KERNEL :: int where "SCIF_MAP_KERNEL \<equiv> 0x20"
abbreviation (input) SCIF_PROT_READ :: int where "SCIF_PROT_READ \<equiv> 1"
abbreviation (input) SCIF_PROT_WRITE :: int where "SCIF_PROT_WRITE \<equiv> 2"

definition scif_recv_del_window :: "rb_ops \<Rightarrow> (u64 \<Rightarrow> bool) \<Rightarrow> scifmsg \<Rightarrow> scif_node \<Rightarrow> scif_node" where
  "scif_recv_del_window rb has_mm msg st =
     (let w = payload1 msg
      in case wins st w of
           None \<Rightarrow> st\<lparr>fault := True\<rparr>
         | Some x \<Rightarrow>
             (case (eps st (win_ep x), pins st (pinned_pages x)) of
                (Some e, Some pin) \<Rightarrow>
                  let st1 = rma_upd (win_ep x) (\<lambda>r. r\<lparr>tw_refcount := tw_refcount r + 1\<rparr>)
                              (win_upd w (\<lambda>x. x\<lparr>unreg_state := SCIF_UNREG_ACCEPTED\<rparr>) st);
                      st2 = free_offset rb (win_ep x) w (win_unlink w st1)
                  in scif_queue_for_cleanup w
                       (if map_flags pin AND SCIF_MAP_KERNEL \<noteq> 0 \<and> scifdev_alive e st2 then st2
                        else win_drop_pid has_mm w st2)
              | _ \<Rightarrow> st\<lparr>fault := True\<rparr>))"

definition scif_recv_used_window :: "scifmsg \<Rightarrow> scif_node \<Rightarrow> scif_node" where
  "scif_recv_used_window msg st =
     win_upd (payload1 msg) (\<lambda>x. x\<lparr>unreg_state := SCIF_UNREG_DENIED\<rparr>) (win_lock (payload1 msg) st)"

section \<open>Unregistration\<close>

text \<open>\<open>msg\<close> is the uninitialised message on the stack, \<open>qs w\<close> the services of the send for window \<open>w\<close>.\<close>

definition scif_send_scif_unregister :: "nodeqp_env \<Rightarrow> scifmsg \<Rightarrow> scif_endpt \<Rightarrow> u64 \<Rightarrow> scif_node \<Rightarrow> int \<times> scif_node" where
  "scif_send_scif_unregister q msg e w st =
     ep_send q e (msg\<lparr>uop := SCIF_UNREGISTER, msg_src := ep_port e, payload0 := alloc_vaddr (win_at st w),
                      payload1 := w\<rparr>) st"

definition scif_unregister_window :: "nodeqp_env \<Rightarrow> scifmsg \<Rightarrow> u64 \<Rightarrow> scif_node \<Rightarrow> int \<times> scif_node" where
  "scif_unregister_window q msg w st =
     (case wins st w of
        None \<Rightarrow> (0, st\<lparr>fault := True\<rparr>)
      | Some x \<Rightarrow>
          if unreg_state x = SCIF_UNREG_NOT_INITIATED then
            (case eps st (win_ep x) of
               None \<Rightarrow> (0, st\<lparr>fault := True\<rparr>)
             | Some e \<Rightarrow>
                 let (err, st1) = scif_send_scif_unregister q msg e w st
                 in (err, if err = 0 then win_upd w (\<lambda>x. x\<lparr>unreg_state := SCIF_UNREG_REQUESTED\<rparr>) st1 else st1))
          else (0, st))"

fun list_unregister :: "(u64 \<Rightarrow> nodeqp_env) \<Rightarrow> scifmsg \<Rightarrow> int \<Rightarrow> int \<Rightarrow> u64 list \<Rightarrow> int \<Rightarrow> scif_node \<Rightarrow> int \<times> scif_node" where
  "list_unregister qs msg offset end_req [] err st = (err, st)"
| "list_unregister qs msg offset end_req (w # ws) err st =
     (let x = win_at st w; end_offset = win_end x
      in if win_offset x \<ge> end_req then (err, st)
         else if end_offset \<le> offset then list_unregister qs msg offset end_req ws err st
         else if win_offset x < offset \<and> end_offset > offset then (- EINVAL, st)
         else if end_offset > end_req then (- EINVAL, st)
         else let (err', st') = scif_unregister_window (qs w) msg w st
              in list_unregister qs msg offset end_req ws err' st')"

definition scif_rma_list_unregister :: "(u64 \<Rightarrow> nodeqp_env) \<Rightarrow> scifmsg \<Rightarrow> u64 \<Rightarrow> int \<Rightarrow> int \<Rightarrow> scif_node \<Rightarrow> int \<times> scif_node" where
  "scif_rma_list_unregister qs msg a offset nr st =
     (case eps st a of
        None \<Rightarrow> (0, st\<lparr>fault := True\<rparr>)
      | Some e \<Rightarrow> list_unregister qs msg offset (s64 (offset + s64 (nr * PAGE_SIZE))) (reg_list (rma_info e)) 0 st)"

fun unmap_walk :: "map_env \<Rightarrow> u64 \<Rightarrow> u64 list \<Rightarrow> scif_node \<Rightarrow> scif_node" where
  "unmap_walk env a [] st = st"
| "unmap_walk env a (w # ws) st = unmap_walk env a ws (ep_unmap_window env a w st)"

definition scif_unmap_all_windows :: "map_env \<Rightarrow> u64 \<Rightarrow> scif_node \<Rightarrow> scif_node" where
  "scif_unmap_all_windows env a st =
     (case eps st a of None \<Rightarrow> st\<lparr>fault := True\<rparr> | Some e \<Rightarrow> unmap_walk env a (reg_list (rma_info e)) st)"

text \<open>
  The loop of \<open>scif_unregister_all_windows\<close>. It starts over when a window was taken off the list
  meanwhile; the list is locked, and lemma \<open>unregister_window_async\<close> shows that unregistering a
  window leaves the mark as it is, so that the loop runs through the list once.
\<close>

fun unregister_all :: "(u64 \<Rightarrow> nodeqp_env) \<Rightarrow> scifmsg \<Rightarrow> u64 \<Rightarrow> u64 list \<Rightarrow> int \<Rightarrow> scif_node \<Rightarrow> int \<times> scif_node" where
  "unregister_all qs msg a [] err st = (err, st)"
| "unregister_all qs msg a (w # ws) err st =
     (let (err', st') = scif_unregister_window (qs w) msg w (rma_upd a (\<lambda>r. r\<lparr>async_list_del := 0\<rparr>) st)
      in unregister_all qs msg a ws err' st')"

definition scif_unregister_all_windows :: "(u64 \<Rightarrow> nodeqp_env) \<Rightarrow> scifmsg \<Rightarrow> u64 \<Rightarrow> scif_node \<Rightarrow> int \<times> scif_node" where
  "scif_unregister_all_windows qs msg a st =
     (case eps st a of
        None \<Rightarrow> (0, st\<lparr>fault := True\<rparr>)
      | Some e \<Rightarrow>
          let (err, st1) = unregister_all qs msg a (reg_list (rma_info e)) 0 st
          in (err, if mmn_list (rma_info e) \<noteq> [] then st1\<lparr>mmu_notif_cleanup := mmu_notif_cleanup st1 @ [a]\<rparr> else st1))"

section \<open>The lookup tables\<close>

lemma lookup_rows_pages: "0 < nr \<Longrightarrow> nat (lookup_rows nr) = (nat nr + 511) div 512"
proof -
  assume "0 < nr"
  have "nr * PAGE_SIZE + (2 * 1024 * 1024 - 1) = 4095 + (nr + 511) * 4096" by simp
  then have "lookup_rows nr = (4095 + (nr + 511) * 4096) div 4096 div 512"
    by (simp add: lookup_rows_def zdiv_zmult2_eq [symmetric])
  also have "\<dots> = (nr + 511) div 512" by simp
  also have "\<dots> = int ((nat nr + 511) div 512)" using \<open>0 < nr\<close> by (simp add: zdiv_int)
  finally show ?thesis by simp
qed

lemma map_lookup_inside:
  assumes "nr \<le> 512 * length dl" "length nl = length dl" "i = 512 * j"
    and "\<And>t. t < j \<Longrightarrow> t < length dl \<Longrightarrow> lk_dma_page env t = Some (dl ! t) \<and> lk_np_page env t = Some (nl ! t)"
  shows "\<exists>err dl' nl'. map_lookup env nr i j dl nl = Some (err, dl', nl') \<and>
    length dl' = length dl \<and> length nl' = length dl \<and> (err = 0 \<or> err = - ENOMEM) \<and>
    (err = 0 \<longrightarrow> (\<forall>t. 512 * t < nr \<longrightarrow> lk_dma_page env t = Some (dl' ! t) \<and> lk_np_page env t = Some (nl' ! t)))"
  using assms
proof (induction env nr i j dl nl rule: map_lookup.induct)
  case (1 env nr i j dl nl)
  show ?case
  proof (cases "i < nr")
    case False
    have "lk_dma_page env t = Some (dl ! t) \<and> lk_np_page env t = Some (nl ! t)" if "512 * t < nr" for t
      using 1(5) [of t] that False 1(2,4) by simp
    with False 1(3) show ?thesis by (simp add: map_lookup.simps)
  next
    case True
    then have j: "j < length dl" "j < length nl" using 1(2-4) by auto
    show ?thesis
    proof (cases "\<exists>x y. lk_dma_page env j = Some x \<and> lk_np_page env j = Some y")
      case False
      with True j 1(3) show ?thesis by (auto simp: map_lookup.simps [of env nr i] split: option.split)
    next
      case True
      then obtain x y where xy: "lk_dma_page env j = Some x" "lk_np_page env j = Some y" by blast
      have step: "map_lookup env nr i j dl nl = map_lookup env nr (i + 512) (Suc j) (dl[j := x]) (nl[j := y])"
        using \<open>i < nr\<close> j xy by (simp add: map_lookup.simps [of env nr i])
      have keep: "lk_dma_page env t = Some (dl[j := x] ! t) \<and> lk_np_page env t = Some (nl[j := y] ! t)"
        if "t < Suc j" "t < length (dl[j := x])" for t
        using that 1(3) 1(5) [of t] xy j by (cases "t = j") auto
      show ?thesis unfolding step
        using 1(1) [OF \<open>i < nr\<close> conjI [OF j] xy _ _ _ keep] 1(2-4) by simp
    qed
  qed
qed

section \<open>Unregistering a range of windows\<close>

text \<open>Unregistering a window changes its own state and the queues only.\<close>

lemma ep_send_frame [simp]:
  "wins (snd (ep_send q e msg st)) = wins st" "eps (snd (ep_send q e msg st)) = eps st"
  "pins (snd (ep_send q e msg st)) = pins st" "ports (snd (ep_send q e msg st)) = ports st"
  "pinned_vm (snd (ep_send q e msg st)) = pinned_vm st"
  by (simp_all add: ep_send_def split: option.split)

lemma unregister_window_eps [simp]: "eps (snd (scif_unregister_window q msg w st)) = eps st"
  by (simp add: scif_unregister_window_def scif_send_scif_unregister_def win_upd_def split_beta Let_def
      split: option.split)

lemma unregister_window_async:
  "eps st a = Some e \<Longrightarrow> async_list_del (rma_info e) = 0 \<Longrightarrow>
   map_option (\<lambda>e. async_list_del (rma_info e)) (eps (snd (scif_unregister_window q msg w st)) a) = Some 0"
  by simp

text \<open>The window is asked to go if its request was sent, or was sent before.\<close>

definition unreg_done :: "scif_window \<Rightarrow> scif_window" where
  "unreg_done x = (if unreg_state x = SCIF_UNREG_NOT_INITIATED then x\<lparr>unreg_state := SCIF_UNREG_REQUESTED\<rparr> else x)"

lemma unregister_window_wins:
  assumes "wins st w = Some x" "eps st (win_ep x) = Some e" "remote_dev e = Some d"
  shows "wins (snd (scif_unregister_window q msg w st)) =
    (if fst (scif_unregister_window q msg w st) = 0 then (wins st)(w \<mapsto> unreg_done x) else wins st)"
  using assms by (auto simp: scif_unregister_window_def scif_send_scif_unregister_def win_upd_def split_beta
      Let_def unreg_done_def fun_upd_idem split: option.split)

lemma unreg_done_simps [simp]:
  "win_offset (unreg_done x) = win_offset x" "nr_pages (unreg_done x) = nr_pages x"
  "win_ep (unreg_done x) = win_ep x" "win_end (unreg_done x) = win_end x" "prot (unreg_done x) = prot x"
  by (simp_all add: unreg_done_def win_end_def)

text \<open>
  A link is up if requests sent over it succeed and it stays up: \<open>up\<close> is what the node knows
  while it lasts.
\<close>

definition link_up :: "(scif_node \<Rightarrow> bool) \<Rightarrow> (u64 \<Rightarrow> nodeqp_env) \<Rightarrow> scifmsg \<Rightarrow> bool" where
  "link_up up qs msg \<longleftrightarrow> (\<forall>w s. up s \<longrightarrow>
     fst (scif_unregister_window (qs w) msg w s) = 0 \<and> up (snd (scif_unregister_window (qs w) msg w s)))"

text \<open>
  All windows of \<open>ws\<close> belong to endpoint \<open>a\<close>; the loop asks exactly the windows that
  \<open>unregister_walk\<close> selects to go, as long as the requests can be sent.
\<close>

lemma unregister_walk_subset: "set (fst (unregister_walk W offset e_req ws)) \<subseteq> set ws"
  by (induction ws) (auto simp: unregister_walk.simps Let_def split_beta)

lemma list_unregister_walk:
  assumes "\<And>w. w \<in> set ws \<Longrightarrow> \<exists>x. wins st w = Some x \<and> win_ep x = a" "eps st a = Some e" "remote_dev e = Some d"
    and "distinct ws" "err = 0" "up st" "link_up up qs msg"
  shows "fst (list_unregister qs msg offset e_req ws err st) =
      (if snd (unregister_walk (win_at st) offset e_req ws) then - EINVAL else 0) \<and>
    wins (snd (list_unregister qs msg offset e_req ws err st)) =
      (\<lambda>w. if w \<in> set (fst (unregister_walk (win_at st) offset e_req ws))
           then map_option unreg_done (wins st w) else wins st w)"
  using assms
proof (induction ws arbitrary: st err)
  case (Cons w ws)
  let ?x = "win_at st w"
  obtain x where x: "wins st w = Some x" "win_ep x = a" using Cons.prems(1) [of w] by auto
  define r where "r = scif_unregister_window (qs w) msg w st"
  have r: "fst r = 0" "up (snd r)" "eps (snd r) = eps st" "wins (snd r) = (wins st)(w \<mapsto> unreg_done x)"
    using Cons.prems(6,7) unregister_window_wins [of st w x e d "qs w" msg] x Cons.prems(2,3)
    by (simp_all add: r_def link_up_def)
  have at: "win_at (snd r) v = win_at st v" if "v \<in> set ws" for v
    using that r(4) Cons.prems(4) by (auto simp: win_at_def)
  have walk: "unregister_walk (win_at (snd r)) offset e_req vs = unregister_walk (win_at st) offset e_req vs"
    if "set vs \<subseteq> set ws" for vs
    using that by (induction vs) (auto simp: at unregister_walk.simps Let_def)
  have IH0: "fst (list_unregister qs msg offset e_req ws 0 st) =
      (if snd (unregister_walk (win_at st) offset e_req ws) then - EINVAL else 0) \<and>
    wins (snd (list_unregister qs msg offset e_req ws 0 st)) =
      (\<lambda>w. if w \<in> set (fst (unregister_walk (win_at st) offset e_req ws))
           then map_option unreg_done (wins st w) else wins st w)"
    using Cons.prems by (intro Cons.IH) auto
  have "\<exists>y. wins (snd r) v = Some y \<and> win_ep y = a" if "v \<in> set ws" for v
    using Cons.prems(1) [of v] that r(4) Cons.prems(4) by auto
  then have IH1: "fst (list_unregister qs msg offset e_req ws 0 (snd r)) =
      (if snd (unregister_walk (win_at st) offset e_req ws) then - EINVAL else 0) \<and>
    wins (snd (list_unregister qs msg offset e_req ws 0 (snd r))) =
      (\<lambda>w. if w \<in> set (fst (unregister_walk (win_at st) offset e_req ws))
           then map_option unreg_done (wins (snd r) w) else wins (snd r) w)"
    using Cons.IH [of "snd r" 0] Cons.prems r(2,3) walk [of ws] by simp
  have nin: "w \<notin> set (fst (unregister_walk (win_at st) offset e_req ws))"
    using unregister_walk_subset Cons.prems(4) by fastforce
  have step: "list_unregister qs msg offset e_req (w # ws) err st =
      (if win_offset ?x \<ge> e_req then (err, st)
       else if win_end ?x \<le> offset then list_unregister qs msg offset e_req ws err st
       else if win_offset ?x < offset \<and> win_end ?x > offset then (- EINVAL, st)
       else if win_end ?x > e_req then (- EINVAL, st)
       else list_unregister qs msg offset e_req ws (fst r) (snd r))"
    by (simp add: Let_def r_def split_beta)
  show ?case
    unfolding step using Cons.prems(5) IH0 IH1 r(1,4) nin x(1)
    by (auto simp: unregister_walk.simps Let_def split_beta fun_eq_iff)
qed simp

section \<open>Properties\<close>

text \<open>
  C28: the lookup tables of a window image are large enough. For a window of \<open>nr\<close> pages
  \<open>scif_create_remote_lookup\<close> computes the number of table rows from the size in bytes and then
  fills the tables page by page of addresses; no write leaves the tables, it returns 0 or
  \<open>-ENOMEM\<close>, and on success there are as many rows as pages of 512 addresses and every row
  holds the mapping of its page.
\<close>

theorem lookup_tables_filled:
  assumes "0 < nr_pages x"
  shows "\<exists>err x'. scif_create_remote_lookup env x = Some (err, x') \<and> (err = 0 \<or> err = - ENOMEM) \<and>
    (err = 0 \<longrightarrow> nr_lookup x' = int ((nat (nr_pages x) + 511) div 512) \<and>
       length (dma_lookup x') = nat (nr_lookup x') \<and> length (np_lookup x') = nat (nr_lookup x') \<and>
       (\<forall>t<nat (nr_lookup x'). lk_dma_page env t = Some (dma_lookup x' ! t) \<and>
                                lk_np_page env t = Some (np_lookup x' ! t)))"
proof -
  let ?rows = "nat (lookup_rows (nr_pages x))"
  have rows: "?rows = (nat (nr_pages x) + 511) div 512" by (rule lookup_rows_pages [OF assms])
  have pos: "lookup_rows (nr_pages x) = int ?rows"
    using assms by (simp add: lookup_rows_def)
  have le: "nat (nr_pages x) \<le> 512 * ?rows" unfolding rows by linarith
  have in_rows: "512 * t < nat (nr_pages x)" if "t < ?rows" for t
    using that unfolding rows by linarith
  obtain err dl nl where r: "map_lookup env (nat (nr_pages x)) 0 0 (replicate ?rows 0) (replicate ?rows 0) = Some (err, dl, nl)"
    "length dl = ?rows" "length nl = ?rows" "err = 0 \<or> err = - ENOMEM"
    "err = 0 \<longrightarrow> (\<forall>t. 512 * t < nat (nr_pages x) \<longrightarrow> lk_dma_page env t = Some (dl ! t) \<and> lk_np_page env t = Some (nl ! t))"
    using map_lookup_inside [of "nat (nr_pages x)" "replicate ?rows 0" "replicate ?rows 0" 0 0 env] le by auto
  show ?thesis
    using r in_rows pos rows
    by (auto simp: scif_create_remote_lookup_def Let_def split: option.split)
qed

theorem lookup_tables_filled_witness:
  "\<exists>x'. scif_create_remote_lookup \<lparr>lk_window = Some 0x9000, lk_dma_alloc = True, lk_np_alloc = True,
       lk_dma_page = (\<lambda>j. Some (0x10000 + of_nat j)), lk_np_page = (\<lambda>j. Some (0x20000 + of_nat j))\<rparr>
     (zero_window\<lparr>nr_pages := 1025\<rparr>) = Some (0, x') \<and> nr_lookup x' = 3"
  using lookup_tables_filled [of "zero_window\<lparr>nr_pages := 1025\<rparr>" "\<lparr>lk_window = Some 0x9000, lk_dma_alloc = True,
      lk_np_alloc = True, lk_dma_page = (\<lambda>j. Some (0x10000 + of_nat j)), lk_np_page = (\<lambda>j. Some (0x20000 + of_nat j))\<rparr>"]
  by (auto simp: scif_create_remote_lookup_def Let_def lookup_rows_def map_lookup.simps)


definition loop_env :: "u64 \<Rightarrow> nodeqp_env" where
  "loop_env w = idle_env"

text \<open>A node whose endpoint 0x100 is connected to the node itself, with two registered windows.\<close>

definition reg_ep :: scif_endpt where
  "reg_ep = zero_ep\<lparr>ep_state := SCIFEP_CONNECTED, remote_dev := Some 0, rma_info := zero_rma\<lparr>reg_list := [1, 2]\<rparr>\<rparr>"

definition reg_win :: "int \<Rightarrow> int \<Rightarrow> scif_window" where
  "reg_win off nr = zero_window\<lparr>nr_pages := nr, win_offset := off, win_ep := 0x100, win_magic := SCIFEP_MAGIC\<rparr>"

definition reg_node :: scif_node where
  "reg_node = (dev_upd 0 (\<lambda>v. v\<lparr>peer_dev := True\<rparr>) scif_init_state)\<lparr>eps := [0x100 \<mapsto> reg_ep],
     wins := [1 \<mapsto> reg_win 0x1000 2, 2 \<mapsto> reg_win 0x4000 1]\<rparr>"

definition loop_up :: "scif_node \<Rightarrow> bool" where
  "loop_up s \<longleftrightarrow> nodeid s = 0 \<and> dev_node (devs s 0) = 0 \<and> dev_exit (devs s 0) = OP_IDLE \<and> peer_dev (devs s 0) \<and>
     (\<forall>a e. eps s a = Some e \<longrightarrow> remote_dev e = Some 0)"

lemma loop_link_up: "link_up loop_up loop_env msg"
  by (auto simp: link_up_def loop_up_def loop_env_def idle_env_def scif_unregister_window_def win_upd_def
      scif_send_scif_unregister_def ep_send_def scif_nodeqp_send_def scif_get_peer_dev_def scif_put_peer_dev_def
      raw_nodeqp_send_def scifdev_self_def scif_loopback_nodeqp_send_def dev_upd_def Let_def split: option.split)


end
