(* ===== verification/Scif_Api.thy ===== *)
theory Scif_Api
  imports Scif_Rma
begin

text \<open>
  The connection part of the programming interface (\<open>scif_api.c\<close>): opening, binding, listening,
  connecting, accepting and closing endpoints. A function that waits for the peer takes what
  happens on the node meanwhile as a parameter, a function on the state; one that may wait again
  and again takes one such function for each round and a number of rounds, and is \<open>None\<close> if it
  still waits after them.
\<close>

section \<open>Waiting\<close>

text \<open>\<open>wait_event_timeout\<close>: 0 after a time-out, otherwise the time that was left, at least 1.\<close>

definition wait_event_timeout :: "(scif_node \<Rightarrow> scif_node) \<Rightarrow> int \<Rightarrow> (scif_node \<Rightarrow> bool) \<Rightarrow> scif_node \<Rightarrow> int \<times> scif_node" where
  "wait_event_timeout w time_left cond st = (let st' = w st in (if cond st' then max 1 time_left else 0, st'))"

text \<open>
  The loop that waits until a condition holds or the peer is gone: \<open>True\<close> if the condition holds.
\<close>

fun wait_retry :: "(nat \<Rightarrow> scif_node \<Rightarrow> scif_node) \<Rightarrow> nat \<Rightarrow> (scif_node \<Rightarrow> bool) \<Rightarrow> (scif_node \<Rightarrow> bool) \<Rightarrow> scif_node
    \<Rightarrow> (bool \<times> scif_node) option" where
  "wait_retry ws 0 cond alive st = None"
| "wait_retry ws (Suc n) cond alive st =
     (let st' = ws 0 st
      in if cond st' then Some (True, st')
         else if alive st' then wait_retry (\<lambda>i. ws (Suc i)) n cond alive st'
         else Some (False, st'))"

definition ep_in :: "u64 \<Rightarrow> scif_epd_state \<Rightarrow> scif_node \<Rightarrow> bool" where
  "ep_in a s st = (case eps st a of None \<Rightarrow> False | Some e \<Rightarrow> ep_state e = s)"

definition set_state :: "u64 \<Rightarrow> scif_epd_state \<Rightarrow> scif_node \<Rightarrow> scif_node" where
  "set_state a s st = ep_upd a (\<lambda>e. e\<lparr>ep_state := s\<rparr>) st"

section \<open>Opening, binding, listening\<close>

text \<open>
  \<open>ea\<close> is the address of the new endpoint, 0 where its allocation fails; \<open>qp_ok\<close> tells whether the
  queue pair is allocated and \<open>anon_err\<close> is the result of \<open>scif_anon_inode_getfile\<close>.
\<close>

definition scif_open :: "u64 \<Rightarrow> bool \<Rightarrow> int \<Rightarrow> scif_node \<Rightarrow> u64 \<times> scif_node" where
  "scif_open ea qp_ok anon_err st =
     (if ea = 0 then (0, st)
      else if \<not> qp_ok then (0, st)
      else if anon_err \<noteq> 0 then (0, st)
      else (ea, st\<lparr>eps := (eps st)(ea \<mapsto> (scif_rma_ep_init (zero_ep\<lparr>qp := Some zero_qp, anon := True\<rparr>))
                                        \<lparr>ep_state := SCIFEP_UNBOUND\<rparr>)\<rparr>))"

text \<open>\<open>cap\<close> is \<open>capable(CAP_SYS_ADMIN)\<close>; \<open>pick\<close> and \<open>alloc\<close> are the services of the port allocator.\<close>

definition scif_bind :: "picker \<Rightarrow> bool \<Rightarrow> bool \<Rightarrow> u64 \<Rightarrow> u16 \<Rightarrow> scif_node \<Rightarrow> int \<times> scif_node" where
  "scif_bind pick alloc cap a pn st =
     (if pn \<noteq> 0 \<and> uint pn < SCIF_ADMIN_PORT_END \<and> \<not> cap then (- EACCES, st)
      else case eps st a of
        None \<Rightarrow> (0, st\<lparr>fault := True\<rparr>)
      | Some e \<Rightarrow>
          if ep_state e = SCIFEP_BOUND then (- EINVAL, st)
          else if ep_state e \<noteq> SCIFEP_UNBOUND then (- EISCONN, st)
          else
            let (tmp, ports') = (if pn \<noteq> 0 then scif_rsrv_port pick alloc pn (ports st)
                                 else scif_get_new_port pick alloc (ports st));
                pn' = (if pn \<noteq> 0 then pn else word_of_int tmp);
                st1 = st\<lparr>ports := ports'\<rparr>
            in if pn \<noteq> 0 \<and> tmp \<noteq> uint pn then (- EINVAL, st1)
               else if pn = 0 \<and> pn' = 0 then (- ENOSPC, st1)
               else (uint pn', ep_upd a (\<lambda>e. e\<lparr>ep_state := SCIFEP_BOUND,
                      ep_port := \<lparr>pid_node = ucast (nodeid st), pid_port = pn'\<rparr>,
                      conn_async_state := ASYNC_CONN_IDLE\<rparr>) st1))"

abbreviation (input) SCIF_MAX_BACKLOG :: int where "SCIF_MAX_BACKLOG \<equiv> 1024"

definition scif_listen :: "u64 \<Rightarrow> int \<Rightarrow> scif_node \<Rightarrow> int \<times> scif_node" where
  "scif_listen a bl st =
     (if bl \<le> 0 then (- EINVAL, st)
      else case eps st a of
        None \<Rightarrow> (0, st\<lparr>fault := True\<rparr>)
      | Some e \<Rightarrow>
          (case ep_state e of
             SCIFEP_BOUND \<Rightarrow>
               let st1 = ep_upd a (\<lambda>e. e\<lparr>ep_state := SCIFEP_LISTENING, backlog := min bl SCIF_MAX_BACKLOG,
                           conreqcnt := 0, conlist := [], li_accept := [], acceptcnt := 0\<rparr>) st;
                   st2 = scif_teardown_ep a st1
               in (0, st2\<lparr>listen := listen st2 @ [a]\<rparr>)
           | SCIFEP_LISTENING \<Rightarrow> (- EISCONN, st)
           | SCIFEP_CONNECTED \<Rightarrow> (- EISCONN, st)
           | SCIFEP_CONNECTING \<Rightarrow> (- EISCONN, st)
           | SCIFEP_MAPPING \<Rightarrow> (- EISCONN, st)
           | _ \<Rightarrow> (- EINVAL, st)))"

definition scif_flush :: "u64 \<Rightarrow> scif_node \<Rightarrow> int \<times> scif_node" where
  "scif_flush a st =
     (0, if ep_in a SCIFEP_LISTENING st then set_state a SCIFEP_CLLISTEN st else ep_wake a st)"

section \<open>Connecting\<close>

definition scif_reserve_dma_chan :: "u64 \<Rightarrow> scif_node \<Rightarrow> int \<times> scif_node" where
  "scif_reserve_dma_chan a st =
     (case eps st a of
        None \<Rightarrow> (0, st\<lparr>fault := True\<rparr>)
      | Some e \<Rightarrow> (case remote_dev e of
          None \<Rightarrow> (0, st\<lparr>fault := True\<rparr>)
        | Some d \<Rightarrow>
            if nodeid st = 0 \<and> scifdev_self d st then (0, st)
            else let sd = (if nodeid st \<noteq> 0 then 0 else d); v = devs st sd
                 in if num_dma_ch v = 0 then (- ENODEV, st)
                    else (0, rma_upd a (\<lambda>r. r\<lparr>dma_chan := Some (dma_ch_idx v)\<rparr>)
                              (dev_upd sd (\<lambda>v. v\<lparr>dma_ch_idx := (dma_ch_idx v + 1) mod num_dma_ch v\<rparr>) st))))"

text \<open>
  The services of a connection attempt: the two sends, the mappings of the two steps of the queue
  pair, the store of the remote queue pair, the uninitialised message on the stack, and what
  happens while the answer is awaited.
\<close>

record conn_env =
  cn_req :: nodeqp_env
  cn_ack :: nodeqp_env
  cn_qp :: qp_env
  cn_rqp :: qp_env
  cn_put :: "scif_qp \<Rightarrow> scif_node \<Rightarrow> scif_node"
  cn_msg :: scifmsg
  cn_wait :: "scif_node \<Rightarrow> scif_node"
  cn_left :: int

text \<open>
  \<open>scif_conn_func\<close> up to the wait: \<open>Inl\<close> the result where it ends before, \<open>Inr\<close> what it keeps
  during the wait (the device it holds a reference on and the message) and the state.
\<close>

definition conn_request :: "conn_env \<Rightarrow> u64 \<Rightarrow> scif_node \<Rightarrow> (int \<times> scif_node) + (u16 \<times> scifmsg \<times> scif_node)" where
  "conn_request env a st =
     (let (err, st1) = scif_reserve_dma_chan a st
      in if err \<noteq> 0 then Inl (err, set_state a SCIFEP_BOUND st1)
         else case eps st1 a of
           None \<Rightarrow> Inl (0, st1\<lparr>fault := True\<rparr>)
         | Some e \<Rightarrow>
             (case (qp e, remote_dev e) of
                (Some p, Some d) \<Rightarrow>
                  let (err, off, p', st2) = scif_setup_qp_connect (cn_qp env) SCIF_ENDPT_QP_SIZE p (qp_offset e) st1;
                      st3 = ep_upd a (\<lambda>e. e\<lparr>qp := Some p', qp_offset := off\<rparr>) st2
                  in if err \<noteq> 0 then Inl (err, set_state a SCIFEP_BOUND st3)
                     else let (spdev, st4) = scif_get_peer_dev d st3
                     in if \<not> spdev then Inl (- ENODEV, scif_cleanup_ep_qp a st4)
                     else let msg = (cn_msg env)\<lparr>msg_src := ep_port e, msg_dst := conn_port e, uop := SCIF_CNCT_REQ,
                                      payload0 := a, payload1 := off\<rparr>;
                              (err, st5) = raw_nodeqp_send (cn_req env) d msg st4
                     in if err \<noteq> 0 then Inl (err, scif_cleanup_ep_qp a (scif_put_peer_dev True d st5))
                        else Inr (d, msg, st5)
              | _ \<Rightarrow> Inl (0, st1\<lparr>fault := True\<rparr>)))"

text \<open>After the wait \<open>sp\<close> is the device held and \<open>msg\<close> the message of the request.\<close>

definition conn_fail :: "u64 \<Rightarrow> u16 \<Rightarrow> int \<Rightarrow> scif_node \<Rightarrow> int \<times> scif_node" where
  "conn_fail a sp err st = (err, scif_cleanup_ep_qp a (scif_put_peer_dev True sp st))"

definition conn_mapped :: "conn_env \<Rightarrow> u64 \<Rightarrow> u16 \<Rightarrow> scifmsg \<Rightarrow> scif_endpt \<Rightarrow> scif_qp \<Rightarrow> u16 \<Rightarrow> scif_node \<Rightarrow> int \<times> scif_node" where
  "conn_mapped env a sp msg e p d st =
     (let (err, p', r') = scif_setup_qp_connect_response (cn_rqp env) p;
          st1 = ep_upd a (\<lambda>e. e\<lparr>qp := Some p'\<rparr>) (cn_put env r' st)
      in if err \<noteq> 0 then
           let st2 = snd (raw_nodeqp_send (cn_ack env) d (msg\<lparr>uop := SCIF_CNCT_GNTNACK, payload0 := remote_ep e\<rparr>) st1)
           in conn_fail a sp err (set_state a SCIFEP_BOUND st2)
         else
           let (err, st2) = raw_nodeqp_send (cn_ack env) d (msg\<lparr>uop := SCIF_CNCT_GNTACK, payload0 := remote_ep e\<rparr>) st1
           in if err \<noteq> 0 then conn_fail a sp err (set_state a SCIFEP_BOUND st2)
              else let st3 = set_state a SCIFEP_CONNECTED st2
                   in (0, scif_put_peer_dev True sp (st3\<lparr>connected := connected st3 @ [a]\<rparr>)))"

definition conn_finish :: "conn_env \<Rightarrow> u64 \<Rightarrow> u16 \<Rightarrow> scifmsg \<Rightarrow> int \<Rightarrow> scif_node \<Rightarrow> int \<times> scif_node" where
  "conn_finish env a sp msg err st =
     (let st1 = (if err = 0 then set_state a SCIFEP_BOUND st else st)
      in case eps st1 a of
           None \<Rightarrow> (0, st1\<lparr>fault := True\<rparr>)
         | Some e \<Rightarrow>
             if ep_state e = SCIFEP_MAPPING then
               (case (qp e, remote_dev e) of
                  (Some p, Some d) \<Rightarrow> conn_mapped env a sp msg e p d st1
                | _ \<Rightarrow> (0, st1\<lparr>fault := True\<rparr>))
             else if ep_state e = SCIFEP_BOUND then conn_fail a sp (- ECONNREFUSED) st1
             else (err, scif_put_peer_dev True sp st1))"

definition scif_conn_func :: "conn_env \<Rightarrow> u64 \<Rightarrow> scif_node \<Rightarrow> int \<times> scif_node" where
  "scif_conn_func env a st =
     (case conn_request env a st of
        Inl r \<Rightarrow> r
      | Inr (sp, msg, st1) \<Rightarrow>
          let (err, st2) = wait_event_timeout (cn_wait env) (cn_left env) (\<lambda>s. \<not> ep_in a SCIFEP_CONNECTING s) st1
          in conn_finish env a sp msg err st2)"

text \<open>The work that serves non-blocking connects, one endpoint after another.\<close>

fun scif_conn_handler :: "(u64 \<Rightarrow> conn_env) \<Rightarrow> nat \<Rightarrow> scif_node \<Rightarrow> scif_node option" where
  "scif_conn_handler envs 0 st = (if nb_connect_list st = [] then Some st else None)"
| "scif_conn_handler envs (Suc n) st =
     (case nb_connect_list st of
        [] \<Rightarrow> Some st
      | a # as \<Rightarrow>
          let (err, st1) = scif_conn_func (envs a) a (st\<lparr>nb_connect_list := as\<rparr>)
          in scif_conn_handler envs n (ep_upd a (\<lambda>e. e\<lparr>conn_err := err\<rparr>) st1))"

text \<open>
  The switch of \<open>__scif_connect\<close> on the state of the endpoint: the error, the endpoint and the
  ports after it.
\<close>

definition connect_bound :: "scif_port_id \<Rightarrow> bool \<Rightarrow> int \<Rightarrow> scif_endpt \<Rightarrow> int \<times> scif_endpt" where
  "connect_bound dst non_block err e =
     (if conn_async_state e = ASYNC_CONN_INPROGRESS then (err, e\<lparr>conn_async_state := ASYNC_CONN_FLUSH_WORK\<rparr>)
      else if conn_async_state e = ASYNC_CONN_FLUSH_WORK then (- EINPROGRESS, e)
      else (err, e\<lparr>conn_port := dst, conn_async_state := (if non_block then ASYNC_CONN_INPROGRESS else 0)\<rparr>))"

definition connect_switch :: "picker \<Rightarrow> bool \<Rightarrow> u8 \<Rightarrow> scif_port_id \<Rightarrow> bool \<Rightarrow> scif_endpt \<Rightarrow> scif_ports
    \<Rightarrow> int \<times> scif_endpt \<times> scif_ports" where
  "connect_switch pick alloc own dst non_block e pts =
     (case ep_state e of
        SCIFEP_ZOMBIE \<Rightarrow> (- EINVAL, e, pts)
      | SCIFEP_CLOSING \<Rightarrow> (- EINVAL, e, pts)
      | SCIFEP_DISCONNECTED \<Rightarrow>
          if conn_async_state e = ASYNC_CONN_INPROGRESS then (0, e\<lparr>conn_async_state := ASYNC_CONN_FLUSH_WORK\<rparr>, pts)
          else (- EINVAL, e, pts)
      | SCIFEP_LISTENING \<Rightarrow> (- EOPNOTSUPP, e, pts)
      | SCIFEP_CLLISTEN \<Rightarrow> (- EOPNOTSUPP, e, pts)
      | SCIFEP_CONNECTING \<Rightarrow>
          (if conn_async_state e = ASYNC_CONN_INPROGRESS then - EINPROGRESS else - EISCONN, e, pts)
      | SCIFEP_MAPPING \<Rightarrow>
          (if conn_async_state e = ASYNC_CONN_INPROGRESS then - EINPROGRESS else - EISCONN, e, pts)
      | SCIFEP_CONNECTED \<Rightarrow>
          if conn_async_state e = ASYNC_CONN_INPROGRESS then (0, e\<lparr>conn_async_state := ASYNC_CONN_FLUSH_WORK\<rparr>, pts)
          else (- EISCONN, e, pts)
      | SCIFEP_UNBOUND \<Rightarrow>
          let (r, pts') = scif_get_new_port pick alloc pts; port = word_of_int r;
              e1 = e\<lparr>ep_port := (ep_port e)\<lparr>pid_port := port\<rparr>\<rparr>;
              (err, e2) = (if port = 0 then (- ENOSPC, e1)
                           else (0, e1\<lparr>ep_port := \<lparr>pid_node = ucast own, pid_port = port\<rparr>,
                                      conn_async_state := ASYNC_CONN_IDLE\<rparr>));
              (err', e3) = connect_bound dst non_block err e2
          in (err', e3, pts')
      | SCIFEP_BOUND \<Rightarrow> let (err, e1) = connect_bound dst non_block 0 e in (err, e1, pts))"

text \<open>
  \<open>__scif_connect\<close> up to the point where it returns, waits for the work of non-blocking connects,
  or connects itself.
\<close>

datatype conn_next = ConnReturn int | ConnFlush | ConnRun

definition connect_begin :: "picker \<Rightarrow> bool \<Rightarrow> u64 \<Rightarrow> scif_port_id \<Rightarrow> bool \<Rightarrow> scif_node \<Rightarrow> conn_next \<times> scif_node" where
  "connect_begin pick alloc a dst non_block st =
     (if pid_node dst > ucast (maxid st) then (ConnReturn (- ENODEV), st)
      else if pid_port dst = 0 then (ConnReturn (- EINVAL), st)
      else let d = pid_node dst; (spdev, st1) = scif_get_peer_dev d st
      in if \<not> spdev then (ConnReturn (- ENODEV), st1)
      else case eps st1 a of
        None \<Rightarrow> (ConnReturn 0, st1\<lparr>fault := True\<rparr>)
      | Some e \<Rightarrow>
          let (err, e1, ports') = connect_switch pick alloc (nodeid st) dst non_block e (ports st1);
              st2 = ep_upd a (\<lambda>_. e1) (st1\<lparr>ports := ports'\<rparr>)
          in if err \<noteq> 0 then (ConnReturn err, scif_put_peer_dev spdev d st2)
             else if conn_async_state e1 = ASYNC_CONN_FLUSH_WORK then (ConnFlush, scif_put_peer_dev spdev d st2)
             else
               (case qp e1 of
                  None \<Rightarrow> (ConnReturn 0, st2\<lparr>fault := True\<rparr>)
                | Some p \<Rightarrow>
                    let st3 = ep_upd a (\<lambda>e. e\<lparr>ep_state := SCIFEP_CONNECTING, remote_dev := Some d,
                                 qp := Some (p\<lparr>magic := SCIFEP_MAGIC\<rparr>)\<rparr>) st2
                    in if conn_async_state e1 = ASYNC_CONN_INPROGRESS
                       then (ConnReturn (- EINPROGRESS),
                             scif_put_peer_dev spdev d (st3\<lparr>nb_connect_list := nb_connect_list st3 @ [a]\<rparr>))
                       else (ConnRun, scif_put_peer_dev spdev d st3)))"

text \<open>The result that the work left for the endpoint.\<close>

definition connect_collect :: "u64 \<Rightarrow> scif_node \<Rightarrow> int \<times> scif_node" where
  "connect_collect a st =
     (case eps st a of
        None \<Rightarrow> (0, st\<lparr>fault := True\<rparr>)
      | Some e \<Rightarrow> (conn_err e, ep_upd a (\<lambda>e. e\<lparr>conn_async_state := ASYNC_CONN_IDLE\<rparr>) st))"

text \<open>\<open>flush\<close> is what happens while \<open>flush_work\<close> waits for the work of non-blocking connects.\<close>

definition scif_connect_nb :: "picker \<Rightarrow> bool \<Rightarrow> conn_env \<Rightarrow> (scif_node \<Rightarrow> scif_node) \<Rightarrow> u64 \<Rightarrow> scif_port_id \<Rightarrow> bool
    \<Rightarrow> scif_node \<Rightarrow> int \<times> scif_node" where
  "scif_connect_nb pick alloc env flush a dst non_block st =
     (case connect_begin pick alloc a dst non_block st of
        (ConnReturn r, st1) \<Rightarrow> (r, st1)
      | (ConnFlush, st1) \<Rightarrow> connect_collect a (flush st1)
      | (ConnRun, st1) \<Rightarrow> scif_conn_func env a st1)"

definition scif_connect :: "picker \<Rightarrow> bool \<Rightarrow> conn_env \<Rightarrow> (scif_node \<Rightarrow> scif_node) \<Rightarrow> u64 \<Rightarrow> scif_port_id
    \<Rightarrow> scif_node \<Rightarrow> int \<times> scif_node" where
  "scif_connect pick alloc env flush a dst st = scif_connect_nb pick alloc env flush a dst False st"

section \<open>Accepting\<close>

text \<open>
  The services of one round of \<open>scif_accept\<close>: the address of the new endpoint (0 where the
  allocation fails), its queue pair and anonymous file, the mappings, the store of the remote
  queue pair, the two sends, the uninitialised message, and what happens in each period of the
  wait for the answer, with the number of periods observed.
\<close>

record acc_env =
  ac_ep :: u64
  ac_qp :: bool
  ac_anon :: int
  ac_qenv :: qp_env
  ac_put :: "scif_qp \<Rightarrow> scif_node \<Rightarrow> scif_node"
  ac_gnt :: nodeqp_env
  ac_rej :: nodeqp_env
  ac_msg :: scifmsg
  ac_waits :: "nat \<Rightarrow> scif_node \<Rightarrow> scif_node"
  ac_rounds :: nat

definition accept_reject :: "acc_env \<Rightarrow> scifmsg \<Rightarrow> scifmsg \<Rightarrow> scif_node \<Rightarrow> scif_node" where
  "accept_reject env msg req st =
     snd (scif_nodeqp_send (ac_rej env) (pid_node (msg_src req))
       (msg\<lparr>uop := SCIF_CNCT_REJ, msg_dst := msg_src req, payload0 := payload0 req, payload1 := payload1 req\<rparr>) st)"

text \<open>The label \<open>scif_accept_error_map\<close> and those behind it.\<close>

definition accept_undo :: "acc_env \<Rightarrow> scifmsg \<Rightarrow> scifmsg \<Rightarrow> scif_node \<Rightarrow> scif_node" where
  "accept_undo env msg req st =
     (let c = ac_ep env
      in accept_reject env msg req
           (ep_free c (scif_teardown_ep c (ep_upd c (\<lambda>e. e\<lparr>anon := False\<rparr>) st))))"

text \<open>From the request to the sending of \<open>SCIF_CNCT_GNT\<close>: \<open>Inr\<close> the message sent and the state.\<close>

definition accept_grant :: "acc_env \<Rightarrow> scif_endpt \<Rightarrow> scifmsg \<Rightarrow> scif_node \<Rightarrow> (int \<times> scif_node) + (scifmsg \<times> scif_node)" where
  "accept_grant env l req st =
     (let c = ac_ep env; d = pid_node (msg_src req); msg0 = ac_msg env
      in if c = 0 then Inl (- ENOMEM, accept_reject env msg0 req st)
      else let st1 = st\<lparr>eps := (eps st)(c \<mapsto> scif_rma_ep_init (zero_ep\<lparr>ep_state := SCIFEP_CONNECTING,
                      remote_dev := Some d, remote_ep := payload0 req\<rparr>))\<rparr>;
               (err, st2) = scif_reserve_dma_chan c st1
      in if err \<noteq> 0 then Inl (err, accept_reject env msg0 req (ep_free c st2))
      else if \<not> ac_qp env then Inl (- ENOMEM, accept_reject env msg0 req (ep_free c st2))
      else let st3 = ep_upd c (\<lambda>e. e\<lparr>qp := Some zero_qp\<rparr>) st2
      in if ac_anon env \<noteq> 0
         then Inl (ac_anon env, accept_reject env msg0 req (ep_free c (scif_teardown_ep c st3)))
      else let p = zero_qp\<lparr>magic := SCIFEP_MAGIC\<rparr>;
               st4 = ep_upd c (\<lambda>e. e\<lparr>qp := Some p, anon := True\<rparr>) st3;
               (spdev, st5) = scif_get_peer_dev d st4
      in if \<not> spdev then Inl (- ENODEV, accept_undo env msg0 req st5)
      else let (err, off, p', r', st6) = scif_setup_qp_accept (ac_qenv env) SCIF_ENDPT_QP_SIZE p 0 st5;
               st7 = ac_put env r' (ep_upd c (\<lambda>e. e\<lparr>qp := Some p', qp_offset := off\<rparr>) st6)
      in if err \<noteq> 0 then Inl (err, accept_undo env msg0 req (scif_put_peer_dev spdev d st7))
      else let st8 = ep_upd c (\<lambda>e. e\<lparr>ep_port := ep_port l, ep_peer := msg_src req\<rparr>) st7;
               msg = msg0\<lparr>uop := SCIF_CNCT_GNT, msg_src := ep_port l, payload0 := payload0 req, payload1 := off,
                          payload2 := c\<rparr>;
               (err, st9) = raw_nodeqp_send (ac_gnt env) d msg st8;
               st10 = scif_put_peer_dev spdev d st9
      in if err \<noteq> 0 then Inl (err, accept_undo env msg req st10) else Inr (msg, st10))"

text \<open>
  The wait for a request: in round \<open>i\<close> a signal may arrive or \<open>snd (ws i)\<close> happens. \<open>None\<close> if there
  is no request after the rounds.
\<close>

fun accept_wait :: "nat \<Rightarrow> (nat \<Rightarrow> bool \<times> (scif_node \<Rightarrow> scif_node)) \<Rightarrow> u64 \<Rightarrow> scif_node \<Rightarrow> (int \<times> scif_node) option" where
  "accept_wait 0 ws a st = None"
| "accept_wait (Suc n) ws a st =
     (let st' = snd (ws 0) st
      in case eps st' a of
           None \<Rightarrow> Some (0, st'\<lparr>fault := True\<rparr>)
         | Some e \<Rightarrow>
             if fst (ws 0) \<or> ep_state e \<noteq> SCIFEP_LISTENING then Some (- EINTR, st')
             else if conreqcnt e \<noteq> 0 then Some (0, st')
             else accept_wait n (\<lambda>i. ws (Suc i)) a st')"

text \<open>Taking the first request off the list.\<close>

definition accept_take :: "u64 \<Rightarrow> scif_node \<Rightarrow> (scif_endpt \<times> scifmsg \<times> scif_node) option" where
  "accept_take a st =
     (case eps st a of
        None \<Rightarrow> None
      | Some e \<Rightarrow>
          (case conlist e of
             [] \<Rightarrow> None
           | req # reqs \<Rightarrow>
               Some (e, req, ep_upd a (\<lambda>e. e\<lparr>conlist := reqs, conreqcnt := conreqcnt e - 1\<rparr>) st)))"

text \<open>
  After the wait for the answer to the grant: the peer is gone, has refused the grant, or has
  acknowledged it.
\<close>

definition accept_answer :: "acc_env \<Rightarrow> scif_endpt \<Rightarrow> scifmsg \<Rightarrow> scifmsg \<Rightarrow> bool \<Rightarrow> scif_node
    \<Rightarrow> (int \<times> u64 \<times> scif_port_id \<times> scif_node) + (scif_port_id \<times> scif_node)" where
  "accept_answer env l msg req answered st =
     (let peer = msg_src req; c = ac_ep env
      in if \<not> answered then Inl (- ENODEV, 0, peer, accept_undo env msg req st)
         else if ep_in c SCIFEP_CLOSING st then Inr (peer, ep_free c (scif_teardown_ep c st))
         else Inl (0, c, peer, (ep_wake c st)\<lparr>ports := scif_get_port (pid_port (ep_port l)) (ports st)\<rparr>))"

text \<open>
  One round: a request, the grant, and the answer to it. The result is \<open>Inl\<close> what \<open>scif_accept\<close>
  returns (the error, the new endpoint, the peer and the state), or \<open>Inr\<close> the state after a
  refusal of the grant.
\<close>

definition accept_round :: "acc_env \<Rightarrow> u64 \<Rightarrow> scif_node
    \<Rightarrow> ((int \<times> u64 \<times> scif_port_id \<times> scif_node) + (scif_port_id \<times> scif_node)) option" where
  "accept_round env a st =
     (case accept_take a st of
        None \<Rightarrow> Some (Inl (0, 0, \<lparr>pid_node = 0, pid_port = 0\<rparr>, st\<lparr>fault := True\<rparr>))
      | Some (l, req, st1) \<Rightarrow>
          let peer = msg_src req; c = ac_ep env
          in case accept_grant env l req st1 of
               Inl (err, st2) \<Rightarrow> Some (Inl (err, 0, peer, st2))
             | Inr (msg, st2) \<Rightarrow>
                 (case wait_retry (ac_waits env) (ac_rounds env) (\<lambda>s. \<not> ep_in c SCIFEP_CONNECTING s)
                         (scifdev_alive_dev (pid_node peer)) st2 of
                    None \<Rightarrow> None
                  | Some (answered, st3) \<Rightarrow> Some (accept_answer env l msg req answered st3)))"

fun accept_loop :: "nat \<Rightarrow> (nat \<Rightarrow> acc_env) \<Rightarrow> (nat \<Rightarrow> nat \<Rightarrow> bool \<times> (scif_node \<Rightarrow> scif_node)) \<Rightarrow> nat \<Rightarrow> bool \<Rightarrow> u64 \<Rightarrow> scif_node
    \<Rightarrow> (int \<times> u64 \<times> scif_port_id \<times> scif_node) option" where
  "accept_loop 0 envs ws m sync a st = None"
| "accept_loop (Suc n) envs ws m sync a st =
     (case accept_wait m (ws 0) a st of
        None \<Rightarrow> None
      | Some (err, st1) \<Rightarrow>
          if err \<noteq> 0 then Some (err, 0, \<lparr>pid_node = 0, pid_port = 0\<rparr>, st1)
          else case accept_round (envs 0) a st1 of
            None \<Rightarrow> None
          | Some (Inl r) \<Rightarrow> Some r
          | Some (Inr (peer, st2)) \<Rightarrow>
              if sync then accept_loop n (\<lambda>i. envs (Suc i)) (\<lambda>i. ws (Suc i)) m sync a st2
              else Some (- EAGAIN, 0, peer, st2))"

abbreviation (input) SCIF_ACCEPT_SYNC :: int where "SCIF_ACCEPT_SYNC \<equiv> 1"

text \<open>\<open>out\<close> tells whether both result pointers are given, \<open>files\<close> is \<open>current->files\<close>.\<close>

definition scif_accept :: "nat \<Rightarrow> (nat \<Rightarrow> acc_env) \<Rightarrow> (nat \<Rightarrow> nat \<Rightarrow> bool \<times> (scif_node \<Rightarrow> scif_node)) \<Rightarrow> nat \<Rightarrow> int \<Rightarrow> bool \<Rightarrow> u64
    \<Rightarrow> u64 \<Rightarrow> scif_node \<Rightarrow> (int \<times> u64 \<times> scif_port_id \<times> scif_node) option" where
  "scif_accept n envs ws m flags out files a st =
     (let none = \<lparr>pid_node = 0, pid_port = 0\<rparr>
      in if flags AND NOT SCIF_ACCEPT_SYNC \<noteq> 0 then Some (- EINVAL, 0, none, st)
         else if \<not> out then Some (- EINVAL, 0, none, st)
         else case eps st a of
           None \<Rightarrow> Some (0, 0, none, st\<lparr>fault := True\<rparr>)
         | Some l \<Rightarrow>
             if ep_state l \<noteq> SCIFEP_LISTENING then Some (- EINVAL, 0, none, st)
             else if conreqcnt l = 0 \<and> flags AND SCIF_ACCEPT_SYNC = 0 then Some (- EAGAIN, 0, none, st)
             else accept_loop n envs ws m (flags AND SCIF_ACCEPT_SYNC \<noteq> 0) a
                    (ep_upd a (\<lambda>e. e\<lparr>ep_files := files\<rparr>) st))"

section \<open>Closing\<close>

record close_env =
  cl_qs :: "u64 \<Rightarrow> nodeqp_env"
  cl_umsg :: scifmsg
  cl_send :: nodeqp_env
  cl_dmsg :: scifmsg
  cl_wait :: "scif_node \<Rightarrow> scif_node"
  cl_flush :: "scif_node \<Rightarrow> scif_node"

text \<open>
  \<open>scif_disconnect_ep\<close>: an endpoint on the list of connections tells its peer and waits for the
  acknowledgement, for a limited time. \<open>disconnect_send\<close> is the part before the wait, with \<open>True\<close>
  where there is one.
\<close>

definition disconnect_send :: "close_env \<Rightarrow> u64 \<Rightarrow> scif_node \<Rightarrow> bool \<times> scif_node" where
  "disconnect_send env a st =
     (if a \<in> set (connected st) then
        let st1 = ep_upd a (\<lambda>e. e\<lparr>discon := 0\<rparr>) (st\<lparr>connected := remove1 a (connected st)\<rparr>)
        in case eps st1 a of
             None \<Rightarrow> (False, st1\<lparr>fault := True\<rparr>)
           | Some e \<Rightarrow>
               let msg = (cl_dmsg env)\<lparr>uop := SCIF_DISCNCT, msg_src := ep_port e, msg_dst := ep_peer e,
                           payload0 := a, payload1 := remote_ep e\<rparr>;
                   (err, st2) = ep_send (cl_send env) e msg st1
               in (err = 0, st2)
      else (False, st\<lparr>disconnected := remove1 a (disconnected st)\<rparr>))"

definition scif_disconnect_ep :: "close_env \<Rightarrow> u64 \<Rightarrow> scif_node \<Rightarrow> scif_node" where
  "scif_disconnect_ep env a st = (let (waits, st1) = disconnect_send env a st in if waits then cl_wait env st1 else st1)"

text \<open>The loop over the accepted endpoints that no file owns; \<open>close\<close> closes one of them.\<close>

fun close_accepts :: "(u64 \<Rightarrow> scif_node \<Rightarrow> scif_node) \<Rightarrow> nat \<Rightarrow> u64 \<Rightarrow> scif_node \<Rightarrow> scif_node" where
  "close_accepts close 0 a st = st"
| "close_accepts close (Suc n) a st =
     (case eps st a of
        None \<Rightarrow> st\<lparr>fault := True\<rparr>
      | Some e \<Rightarrow>
          if acceptcnt e = 0 then st
          else case li_accept e of
            [] \<Rightarrow> st\<lparr>fault := True\<rparr>
          | b # bs \<Rightarrow>
              let st1 = ep_upd a (\<lambda>e. e\<lparr>li_accept := bs\<rparr>) st;
                  st2 = close b (st1\<lparr>uaccept := remove1 b (uaccept st1)\<rparr>)
              in close_accepts close n a (ep_upd a (\<lambda>e. e\<lparr>acceptcnt := acceptcnt e - 1\<rparr>) st2))"

definition close_listener :: "(u64 \<Rightarrow> scif_node \<Rightarrow> scif_node) \<Rightarrow> u64 \<Rightarrow> scif_node \<Rightarrow> scif_node" where
  "close_listener close a st =
     (case eps st a of
        None \<Rightarrow> st\<lparr>fault := True\<rparr>
      | Some e \<Rightarrow>
          ep_upd a (\<lambda>e. e\<lparr>conlist := drop (nat (conreqcnt e)) (conlist e), conreqcnt := 0\<rparr>)
            (close_accepts close (nat (acceptcnt e)) a (st\<lparr>listen := filter (\<lambda>b. b \<noteq> a) (listen st)\<rparr>)))"

definition close_end :: "scif_epd_state \<Rightarrow> u64 \<Rightarrow> scif_node \<Rightarrow> scif_node" where
  "close_end oldstate a st =
     scif_add_epd_to_zombie_list a (scif_teardown_ep a (ep_upd a (\<lambda>e. e\<lparr>anon := False\<rparr>)
       (if oldstate \<noteq> SCIFEP_DISCONNECTED then ep_put_port a st else st)))"

text \<open>
  \<open>scif_close\<close>; \<open>n\<close> bounds the depth of the recursion over accepted endpoints. An accepted endpoint
  never listens, so that a depth of 2 is enough.
\<close>

fun scif_close :: "nat \<Rightarrow> (u64 \<Rightarrow> close_env) \<Rightarrow> u64 \<Rightarrow> scif_node \<Rightarrow> scif_node" where
  "scif_close 0 envs a st = st\<lparr>fault := True\<rparr>"
| "scif_close (Suc n) envs a st =
     (case eps st a of
        None \<Rightarrow> st\<lparr>fault := True\<rparr>
      | Some e0 \<Rightarrow>
          let env = envs a;
              st0 = (if conn_async_state e0 = ASYNC_CONN_INPROGRESS then cl_flush env st else st)
          in case eps st0 a of
               None \<Rightarrow> st0\<lparr>fault := True\<rparr>
             | Some e \<Rightarrow>
                 let oldstate = ep_state e; st1 = set_state a SCIFEP_CLOSING st0;
                     unregistered = (\<lambda>s. snd (scif_unregister_all_windows (cl_qs env) (cl_umsg env) a s));
                     st2 = (if oldstate = SCIFEP_ZOMBIE \<or> oldstate = SCIFEP_DISCONNECTED then
                              (let s = unregistered st1 in s\<lparr>disconnected := remove1 a (disconnected s)\<rparr>)
                            else if oldstate = SCIFEP_MAPPING \<or> oldstate = SCIFEP_CONNECTED \<or> oldstate = SCIFEP_CLOSING then
                              scif_disconnect_ep env a (unregistered st1)
                            else if oldstate = SCIFEP_LISTENING \<or> oldstate = SCIFEP_CLLISTEN then
                              close_listener (scif_close n envs) a st1
                            else st1)
                 in close_end oldstate a st2)"

section \<open>Queries\<close>

definition scif_verify_epd :: "scif_endpt \<Rightarrow> scif_node \<Rightarrow> int" where
  "scif_verify_epd e st =
     (if ep_state e = SCIFEP_DISCONNECTED then - ECONNRESET
      else if ep_state e \<noteq> SCIFEP_CONNECTED then - ENOTCONN
      else if \<not> scifdev_alive e st then - ENODEV
      else 0)"

end
