(* ===== verification/Scif_Stream.thy ===== *)
theory Scif_Stream
  imports Scif_Api
begin

text \<open>
  Messages between connected endpoints (\<open>scif_send\<close>, \<open>scif_recv\<close> and \<open>scif_poll\<close> of
  \<open>scif_api.c\<close>). The loops of the two transfers may wait; they take what happens in each wait as
  \<open>ws i\<close> (whether a signal arrives, and the change of the state) and a number of rounds, and are
  \<open>None\<close> if they still run after them. An endpoint sends through the outbound ring of its queue
  pair, which the peer empties, and receives from the inbound ring, which the peer fills.
\<close>

section \<open>Transfers\<close>

abbreviation (input) SCIF_SEND_BLOCK :: int where "SCIF_SEND_BLOCK \<equiv> 1"
abbreviation (input) SCIF_RECV_BLOCK :: int where "SCIF_RECV_BLOCK \<equiv> 1"

definition scif_msg_param_check :: "int \<Rightarrow> int \<Rightarrow> int" where
  "scif_msg_param_check len flags =
     (if len < 0 then - EINVAL
      else if flags \<noteq> 0 \<and> flags AND SCIF_RECV_BLOCK = 0 then - EINVAL
      else 0)"

definition notification :: "scifmsg \<Rightarrow> u32 \<Rightarrow> scif_endpt \<Rightarrow> scifmsg" where
  "notification nm op e = nm\<lparr>msg_src := ep_port e, uop := op, payload0 := remote_ep e\<rparr>"

text \<open>
  The loop of \<open>_scif_send\<close>: \<open>msg\<close> are the bytes that are not sent yet. The result is the value of
  \<open>ret\<close>, of \<open>sent_len\<close>, and the state.
\<close>

fun send_loop :: "nat \<Rightarrow> (nat \<Rightarrow> nodeqp_env) \<Rightarrow> (nat \<Rightarrow> bool \<times> (scif_node \<Rightarrow> scif_node)) \<Rightarrow> scifmsg \<Rightarrow> bool \<Rightarrow> u64
    \<Rightarrow> u8 list \<Rightarrow> nat \<Rightarrow> int \<Rightarrow> scif_node \<Rightarrow> (int \<times> nat \<times> scif_node) option" where
  "send_loop 0 qs ws nm blocking a msg sent ret st = None"
| "send_loop (Suc n) qs ws nm blocking a msg sent ret st =
     (case eps st a of
        None \<Rightarrow> Some (0, sent, st\<lparr>fault := True\<rparr>)
      | Some e \<Rightarrow>
          if msg = [] \<or> ep_state e \<noteq> SCIFEP_CONNECTED then Some (ret, sent, st)
          else case qp e of
            None \<Rightarrow> Some (0, sent, st\<lparr>fault := True\<rparr>)
          | Some p \<Rightarrow>
              let write_count = unat (scif_rb_space (outbound_q p) (outbound_mem p))
              in if write_count \<noteq> 0 then
                   let cnt = min (length msg) write_count
                   in (case scif_rb_write (outbound_q p) (outbound_mem p) (take cnt msg) (of_nat cnt) of
                         None \<Rightarrow> Some (0, sent, st\<lparr>fault := True\<rparr>)
                       | Some (r, rb, m) \<Rightarrow>
                           if r < 0 then Some (r, sent, st)
                           else
                             let st1 = ep_upd a (\<lambda>e. e\<lparr>qp := Some (p\<lparr>outbound_q := rb,
                                         outbound_mem := scif_rb_commit rb m\<rparr>)\<rparr>) st;
                                 (r2, st2) = ep_raw_send (qs 0) e (notification nm SCIF_CLIENT_SENT e) st1
                             in if r2 \<noteq> 0 then Some (r2, sent, st2)
                                else send_loop n (\<lambda>i. qs (Suc i)) ws nm blocking a (drop cnt msg) (sent + cnt) 0 st2)
                 else if \<not> blocking then Some (ret, sent, st)
                 else let st' = snd (ws 0) st
                      in if fst (ws 0) then Some (- EINTR, sent, st')
                         else send_loop n qs (\<lambda>i. ws (Suc i)) nm blocking a msg sent 0 st')"

declare send_loop.simps(2) [simp del]

text \<open>What a transfer returns: the bytes moved, or else the error.\<close>

definition xfer_result :: "nat \<Rightarrow> int \<Rightarrow> u64 \<Rightarrow> scif_node \<Rightarrow> int" where
  "xfer_result moved ret a st =
     (if moved \<noteq> 0 then int moved
      else if ret = 0 \<and> \<not> ep_in a SCIFEP_CONNECTED st then
        (if ep_in a SCIFEP_DISCONNECTED st then - ECONNRESET else - ENOTCONN)
      else ret)"

definition raw_scif_send :: "nat \<Rightarrow> (nat \<Rightarrow> nodeqp_env) \<Rightarrow> (nat \<Rightarrow> bool \<times> (scif_node \<Rightarrow> scif_node)) \<Rightarrow> scifmsg \<Rightarrow> u64
    \<Rightarrow> u8 list \<Rightarrow> int \<Rightarrow> scif_node \<Rightarrow> (int \<times> scif_node) option" where
  "raw_scif_send n qs ws nm a msg flags st =
     map_option (\<lambda>(ret, sent, st'). (xfer_result sent ret a st', st'))
       (send_loop n qs ws nm (flags AND SCIF_SEND_BLOCK \<noteq> 0) a msg 0 0 st)"

text \<open>
  The loop of \<open>_scif_recv\<close>: \<open>got\<close> are the bytes counted as received. After a failed notification
  the bytes taken from the ring are not counted.
\<close>

fun recv_loop :: "nat \<Rightarrow> (nat \<Rightarrow> nodeqp_env) \<Rightarrow> (nat \<Rightarrow> bool \<times> (scif_node \<Rightarrow> scif_node)) \<Rightarrow> scifmsg \<Rightarrow> bool \<Rightarrow> u64
    \<Rightarrow> nat \<Rightarrow> u8 list \<Rightarrow> int \<Rightarrow> scif_node \<Rightarrow> (int \<times> u8 list \<times> scif_node) option" where
  "recv_loop 0 qs ws nm blocking a remaining got ret st = None"
| "recv_loop (Suc n) qs ws nm blocking a remaining got ret st =
     (case eps st a of
        None \<Rightarrow> Some (0, got, st\<lparr>fault := True\<rparr>)
      | Some e \<Rightarrow>
          if remaining = 0 \<or> (ep_state e \<noteq> SCIFEP_CONNECTED \<and> ep_state e \<noteq> SCIFEP_DISCONNECTED)
          then Some (ret, got, st)
          else case qp e of
            None \<Rightarrow> Some (0, got, st\<lparr>fault := True\<rparr>)
          | Some p \<Rightarrow>
              let read_count = unat (scif_rb_count (inbound_q p) (inbound_mem p))
              in if read_count \<noteq> 0 then
                   let cnt = min remaining read_count
                   in (case scif_rb_get_next (inbound_q p) (inbound_mem p) (of_nat cnt) of
                         None \<Rightarrow> Some (0, got, st\<lparr>fault := True\<rparr>)
                       | Some (sz, bytes, rb) \<Rightarrow>
                           if ep_state e = SCIFEP_CONNECTED then
                             let st1 = ep_upd a (\<lambda>e. e\<lparr>qp := Some (p\<lparr>inbound_q := rb,
                                         inbound_mem := scif_rb_update_read_ptr rb (inbound_mem p)\<rparr>)\<rparr>) st;
                                 (r2, st2) = ep_raw_send (qs 0) e (notification nm SCIF_CLIENT_RCVD e) st1
                             in if r2 \<noteq> 0 then Some (r2, got, st2)
                                else recv_loop n (\<lambda>i. qs (Suc i)) ws nm blocking a (remaining - cnt) (got @ bytes) 0 st2
                           else recv_loop n qs ws nm blocking a (remaining - cnt) (got @ bytes) ret
                                  (ep_upd a (\<lambda>e. e\<lparr>qp := Some (p\<lparr>inbound_q := rb\<rparr>)\<rparr>) st))
                 else if ep_state e = SCIFEP_DISCONNECTED \<or> \<not> blocking then Some (ret, got, st)
                 else let st' = snd (ws 0) st
                      in if fst (ws 0) then Some (- EINTR, got, st')
                         else recv_loop n qs (\<lambda>i. ws (Suc i)) nm blocking a remaining got 0 st')"

declare recv_loop.simps(2) [simp del]

definition raw_scif_recv :: "nat \<Rightarrow> (nat \<Rightarrow> nodeqp_env) \<Rightarrow> (nat \<Rightarrow> bool \<times> (scif_node \<Rightarrow> scif_node)) \<Rightarrow> scifmsg \<Rightarrow> u64
    \<Rightarrow> nat \<Rightarrow> int \<Rightarrow> scif_node \<Rightarrow> (int \<times> u8 list \<times> scif_node) option" where
  "raw_scif_recv n qs ws nm a len flags st =
     map_option (\<lambda>(ret, got, st'). (xfer_result (length got) ret a st', got, st'))
       (recv_loop n qs ws nm (flags AND SCIF_RECV_BLOCK \<noteq> 0) a len [] 0 st)"

definition scif_send :: "nat \<Rightarrow> (nat \<Rightarrow> nodeqp_env) \<Rightarrow> (nat \<Rightarrow> bool \<times> (scif_node \<Rightarrow> scif_node)) \<Rightarrow> scifmsg \<Rightarrow> u64
    \<Rightarrow> u8 list \<Rightarrow> int \<Rightarrow> int \<Rightarrow> scif_node \<Rightarrow> (int \<times> scif_node) option" where
  "scif_send n qs ws nm a msg len flags st =
     (if len = 0 then Some (0, st)
      else if scif_msg_param_check len flags \<noteq> 0 then Some (scif_msg_param_check len flags, st)
      else case eps st a of
        None \<Rightarrow> Some (0, st\<lparr>fault := True\<rparr>)
      | Some e \<Rightarrow>
          if remote_dev e = None then Some (- ENOTCONN, st)
          else raw_scif_send n qs ws nm a (take (nat len) msg) flags st)"

definition scif_recv :: "nat \<Rightarrow> (nat \<Rightarrow> nodeqp_env) \<Rightarrow> (nat \<Rightarrow> bool \<times> (scif_node \<Rightarrow> scif_node)) \<Rightarrow> scifmsg \<Rightarrow> u64
    \<Rightarrow> int \<Rightarrow> int \<Rightarrow> scif_node \<Rightarrow> (int \<times> u8 list \<times> scif_node) option" where
  "scif_recv n qs ws nm a len flags st =
     (if len = 0 then Some (0, [], st)
      else if scif_msg_param_check len flags \<noteq> 0 then Some (scif_msg_param_check len flags, [], st)
      else raw_scif_recv n qs ws nm a (nat len) flags st)"

text \<open>
  The transfers of a user process, in chunks through a kernel buffer. \<open>snd1 i\<close> performs the i-th
  \<open>_scif_send\<close>, \<open>copy i\<close> tells whether the i-th copy from or to the process succeeds.
\<close>

abbreviation (input) CHUNK_MAX :: nat where "CHUNK_MAX \<equiv> 2 ^ 22"

function user_send_loop :: "nat \<Rightarrow> (nat \<Rightarrow> u8 list \<Rightarrow> scif_node \<Rightarrow> (int \<times> scif_node) option) \<Rightarrow> (nat \<Rightarrow> bool) \<Rightarrow> nat \<Rightarrow> u8 list
    \<Rightarrow> nat \<Rightarrow> int \<Rightarrow> scif_node \<Rightarrow> (int \<times> nat \<times> scif_node) option" where
  "user_send_loop i snd1 copy chunk msg sent err st =
     (if msg = [] then Some (err, sent, st)
      else let loop_len = min chunk (length msg)
           in if \<not> copy i then Some (- EFAULT, sent, st)
              else case snd1 i (take loop_len msg) st of
                None \<Rightarrow> None
              | Some (r, st') \<Rightarrow>
                  if r < 0 then Some (r, sent, st')
                  else if nat r \<noteq> loop_len \<or> loop_len = 0 then Some (r, sent + nat r, st')
                  else user_send_loop (Suc i) snd1 copy chunk (drop loop_len msg) (sent + nat r) r st')"
  by pat_completeness auto
termination
  by (relation "measure (\<lambda>(i, snd1, copy, chunk, msg, sent, err, st). length msg)") auto

declare user_send_loop.simps [simp del]

definition scif_user_send :: "(nat \<Rightarrow> u8 list \<Rightarrow> scif_node \<Rightarrow> (int \<times> scif_node) option) \<Rightarrow> (nat \<Rightarrow> bool) \<Rightarrow> bool \<Rightarrow> u8 list
    \<Rightarrow> int \<Rightarrow> int \<Rightarrow> scif_node \<Rightarrow> (int \<times> scif_node) option" where
  "scif_user_send snd1 copy alloc msg len flags st =
     (if len = 0 then Some (0, st)
      else if scif_msg_param_check len flags \<noteq> 0 then Some (scif_msg_param_check len flags, st)
      else if \<not> alloc then Some (- ENOMEM, st)
      else map_option (\<lambda>(err, sent, st'). (if err < 0 then err else int sent, st'))
             (user_send_loop 0 snd1 copy (min (nat len) CHUNK_MAX) (take (nat len) msg) 0 0 st))"

function user_recv_loop :: "nat \<Rightarrow> (nat \<Rightarrow> nat \<Rightarrow> scif_node \<Rightarrow> (int \<times> u8 list \<times> scif_node) option) \<Rightarrow> (nat \<Rightarrow> bool) \<Rightarrow> nat
    \<Rightarrow> nat \<Rightarrow> u8 list \<Rightarrow> int \<Rightarrow> scif_node \<Rightarrow> (int \<times> u8 list \<times> scif_node) option" where
  "user_recv_loop i recv1 copy chunk remaining got err st =
     (if remaining = 0 then Some (err, got, st)
      else let loop_len = min chunk remaining
           in case recv1 i loop_len st of
                None \<Rightarrow> None
              | Some (r, bytes, st') \<Rightarrow>
                  if r < 0 then Some (r, got, st')
                  else if \<not> copy i then Some (- EFAULT, got, st')
                  else if nat r \<noteq> loop_len \<or> loop_len = 0 then Some (r, got @ bytes, st')
                  else user_recv_loop (Suc i) recv1 copy chunk (remaining - loop_len) (got @ bytes) r st')"
  by pat_completeness auto
termination
  by (relation "measure (\<lambda>(i, recv1, copy, chunk, remaining, got, err, st). remaining)") auto

declare user_recv_loop.simps [simp del]

definition scif_user_recv :: "(nat \<Rightarrow> nat \<Rightarrow> scif_node \<Rightarrow> (int \<times> u8 list \<times> scif_node) option) \<Rightarrow> (nat \<Rightarrow> bool) \<Rightarrow> bool
    \<Rightarrow> int \<Rightarrow> int \<Rightarrow> scif_node \<Rightarrow> (int \<times> u8 list \<times> scif_node) option" where
  "scif_user_recv recv1 copy alloc len flags st =
     (if len = 0 then Some (0, [], st)
      else if scif_msg_param_check len flags \<noteq> 0 then Some (scif_msg_param_check len flags, [], st)
      else if \<not> alloc then Some (- ENOMEM, [], st)
      else map_option (\<lambda>(err, got, st'). (if err < 0 then err else int (length got), got, st'))
             (user_recv_loop 0 recv1 copy (min (nat len) CHUNK_MAX) (nat len) [] 0 st))"

section \<open>Polling\<close>

abbreviation (input) POLLIN :: int where "POLLIN \<equiv> 1"
abbreviation (input) POLLOUT :: int where "POLLOUT \<equiv> 4"
abbreviation (input) POLLERR :: int where "POLLERR \<equiv> 8"
abbreviation (input) POLLHUP :: int where "POLLHUP \<equiv> 16"

text \<open>
  \<open>__scif_pollfd\<close> gives up the lock of the endpoint where it registers with a wait queue; \<open>pw i\<close> is
  what happens then. \<open>events\<close> are the requested events.
\<close>

definition poll_pending :: "scif_endpt \<Rightarrow> int" where
  "poll_pending e =
     (if ep_state e = SCIFEP_CONNECTED \<or> ep_state e = SCIFEP_DISCONNECTED \<or> conn_err e \<noteq> 0 then POLLOUT else 0)"

definition poll_data :: "scif_endpt \<Rightarrow> scif_qp \<Rightarrow> int" where
  "poll_data e p =
     (if scif_rb_count (inbound_q p) (inbound_mem p) \<noteq> 0 then POLLIN else 0) OR
     (if scif_rb_space (outbound_q p) (outbound_mem p) \<noteq> 0 then POLLOUT else 0) OR
     (if ep_state e = SCIFEP_DISCONNECTED then POLLHUP else 0)"

definition ep_of :: "u64 \<Rightarrow> scif_node \<Rightarrow> scif_endpt" where
  "ep_of a st = (case eps st a of None \<Rightarrow> zero_ep | Some e \<Rightarrow> e)"

definition poll_connected :: "(nat \<Rightarrow> scif_node \<Rightarrow> scif_node) \<Rightarrow> int \<Rightarrow> u64 \<Rightarrow> scif_node \<Rightarrow> int \<times> scif_node" where
  "poll_connected pw events a st =
     (if ep_state (ep_of a st) = SCIFEP_CONNECTED \<or> ep_state (ep_of a st) = SCIFEP_DISCONNECTED then
        let st1 = (if events AND POLLIN \<noteq> 0 then pw 2 st else st);
            st2 = (if events AND POLLOUT \<noteq> 0 then pw 3 st1 else st1); e = ep_of a st2
        in if ep_state e = SCIFEP_CONNECTED \<or> ep_state e = SCIFEP_DISCONNECTED then
             (case qp e of None \<Rightarrow> (0, st2\<lparr>fault := True\<rparr>) | Some p \<Rightarrow> (poll_data e p, st2))
           else (POLLERR, st2)
      else (POLLERR, st))"

definition poll_listening :: "(nat \<Rightarrow> scif_node \<Rightarrow> scif_node) \<Rightarrow> int \<Rightarrow> u64 \<Rightarrow> scif_node \<Rightarrow> int \<times> scif_node" where
  "poll_listening pw events a st =
     (if ep_state (ep_of a st) = SCIFEP_LISTENING then
        let st1 = pw 1 st
        in if ep_state (ep_of a st1) = SCIFEP_LISTENING
           then (if conreqcnt (ep_of a st1) \<noteq> 0 then POLLIN else 0, st1)
           else poll_connected pw events a st1
      else poll_connected pw events a st)"

definition scif_pollfd :: "(nat \<Rightarrow> scif_node \<Rightarrow> scif_node) \<Rightarrow> int \<Rightarrow> u64 \<Rightarrow> scif_node \<Rightarrow> int \<times> scif_node" where
  "scif_pollfd pw events a st =
     (if conn_async_state (ep_of a st) = ASYNC_CONN_INPROGRESS then
        let st1 = pw 0 st
        in if conn_async_state (ep_of a st1) = ASYNC_CONN_INPROGRESS then (poll_pending (ep_of a st1), st1)
           else poll_listening pw events a st1
      else poll_listening pw events a st)"

text \<open>
  One pass of \<open>scif_poll\<close> over the endpoints, with the events found, and the loop that sleeps
  between passes: \<open>timed_out\<close>, the error of the poll table, a pending signal, and the change of
  the state during the sleep with whether it ran to its end are given for each round.
\<close>

fun poll_pass :: "(nat \<Rightarrow> scif_node \<Rightarrow> scif_node) \<Rightarrow> (u64 \<times> int) list \<Rightarrow> scif_node \<Rightarrow> int list \<times> scif_node" where
  "poll_pass pw [] st = ([], st)"
| "poll_pass pw ((a, events) # fds) st =
     (let (mask, st1) = scif_pollfd pw (events OR POLLERR OR POLLHUP) a st;
          (ms, st2) = poll_pass pw fds st1
      in ((mask AND (events OR POLLERR OR POLLHUP)) # ms, st2))"

fun poll_loop :: "nat \<Rightarrow> (nat \<Rightarrow> nat \<Rightarrow> scif_node \<Rightarrow> scif_node) \<Rightarrow> (nat \<Rightarrow> int \<times> bool \<times> bool \<times> (scif_node \<Rightarrow> scif_node))
    \<Rightarrow> bool \<Rightarrow> (u64 \<times> int) list \<Rightarrow> scif_node \<Rightarrow> (int \<times> int list \<times> scif_node) option" where
  "poll_loop 0 pws ws timed_out fds st = None"
| "poll_loop (Suc n) pws ws timed_out fds st =
     (let (ms, st1) = poll_pass (pws 0) fds st;
          (terr, signal, expired, w) = ws 0;
          found = int (length (filter (\<lambda>m. m \<noteq> 0) ms));
          cnt = (if found \<noteq> 0 then found else if signal then - EINTR else terr)
      in if cnt \<noteq> 0 \<or> timed_out then Some (cnt, ms, st1)
         else poll_loop n (\<lambda>i. pws (Suc i)) (\<lambda>i. ws (Suc i)) expired fds (w st1))"

definition scif_poll :: "nat \<Rightarrow> (nat \<Rightarrow> nat \<Rightarrow> scif_node \<Rightarrow> scif_node) \<Rightarrow> (nat \<Rightarrow> int \<times> bool \<times> bool \<times> (scif_node \<Rightarrow> scif_node))
    \<Rightarrow> (u64 \<times> int) list \<Rightarrow> int \<Rightarrow> scif_node \<Rightarrow> (int \<times> int list \<times> scif_node) option" where
  "scif_poll n pws ws fds timeout_msecs st = poll_loop n pws ws (timeout_msecs = 0) fds st"

section \<open>One transfer over a ring\<close>

text \<open>A link whose notifications succeed and that stays up, as seen from endpoint \<open>a\<close>.\<close>

definition notify_up :: "(scif_node \<Rightarrow> bool) \<Rightarrow> u64 \<Rightarrow> (nat \<Rightarrow> nodeqp_env) \<Rightarrow> bool" where
  "notify_up up a qs \<longleftrightarrow>
     (\<forall>st e i m. up st \<longrightarrow> eps st a = Some e \<longrightarrow>
        fst (ep_raw_send (qs i) e m st) = 0 \<and> up (snd (ep_raw_send (qs i) e m st))) \<and>
     (\<forall>st f. up st \<longrightarrow> up (ep_upd a (\<lambda>e. e\<lparr>qp := f e\<rparr>) st))"

lemma ep_raw_send_eps [simp]: "eps (snd (ep_raw_send q e m st)) = eps st"
  by (simp add: ep_raw_send_def split: option.split)

lemma ep_upd_eps: "eps st a = Some e \<Longrightarrow> eps (ep_upd a f st) = (eps st)(a \<mapsto> f e)"
  by (simp add: ep_upd_def)

text \<open>Writing as much as there is room for, and committing it.\<close>

lemma ring_send:
  assumes inv: "chan_inv k (link p r)" and pend: "pending (link p r) = []"
    and cnt: "cnt \<le> length msg" "cnt \<le> unat (scif_rb_space (outbound_q p) (outbound_mem p))"
  obtains t m where "scif_rb_write (outbound_q p) (outbound_mem p) (take cnt msg) (of_nat cnt) = Some (0, t, m)"
    "chan_inv k (link (p\<lparr>outbound_q := t, outbound_mem := scif_rb_commit t m\<rparr>) r)"
    "pending (link (p\<lparr>outbound_q := t, outbound_mem := scif_rb_commit t m\<rparr>) r) = []"
    "held (link (p\<lparr>outbound_q := t, outbound_mem := scif_rb_commit t m\<rparr>) r) = held (link p r)"
    "unread (link (p\<lparr>outbound_q := t, outbound_mem := scif_rb_commit t m\<rparr>) r) = unread (link p r) @ take cnt msg"
proof -
  let ?c = "link p r"
  have sp: "unat (scif_rb_space (outbound_q p) (outbound_mem p)) = 2 ^ k - 1 - (held ?c + unread_len ?c + pending_len ?c)"
    using scif_rb_space_chan [OF inv] by (simp add: link_def)
  have "held ?c + unread_len ?c + pending_len ?c < 2 ^ k" using inv by (simp add: chan_inv_def)
  with sp cnt(2) have room: "held ?c + unread_len ?c + pending_len ?c + cnt < 2 ^ k" by linarith
  then have n: "unat (of_nat cnt :: u32) = cnt"
    using chan_inv_size [OF inv] by (intro unat_of_nat_u32) linarith
  obtain t m where w: "scif_rb_write (tx ?c) (mem ?c) (take cnt msg) (of_nat cnt) = Some (0, t, m)"
    "chan_inv k (?c\<lparr>tx := t, mem := m\<rparr>)" "held (?c\<lparr>tx := t, mem := m\<rparr>) = held ?c"
    "unread (?c\<lparr>tx := t, mem := m\<rparr>) = unread ?c"
    "pending (?c\<lparr>tx := t, mem := m\<rparr>) = pending ?c @ take (unat (of_nat cnt :: u32)) (take cnt msg)"
    by (rule scif_rb_write_chan [OF inv, of "of_nat cnt" "take cnt msg"]) (use room n cnt(1) in auto)
  have e: "link (p\<lparr>outbound_q := t, outbound_mem := scif_rb_commit t m\<rparr>) r =
      (?c\<lparr>tx := t, mem := m\<rparr>)\<lparr>mem := scif_rb_commit (tx (?c\<lparr>tx := t, mem := m\<rparr>)) (mem (?c\<lparr>tx := t, mem := m\<rparr>))\<rparr>"
    by (simp add: link_def)
  show thesis
  proof (rule that [of t m])
    show "scif_rb_write (outbound_q p) (outbound_mem p) (take cnt msg) (of_nat cnt) = Some (0, t, m)"
      using w(1) by (simp add: link_def)
  qed (use scif_rb_commit_chan [OF w(2)] w(3-5) pend n in \<open>simp_all add: e\<close>)
qed

text \<open>Taking as much as there is, and releasing it. \<open>c\<close> is the channel that ends in \<open>p\<close>.\<close>

definition rlink :: "scif_rb \<Rightarrow> scif_qp \<Rightarrow> rb_chan" where
  "rlink t p = \<lparr>mem = inbound_mem p, tx = t, rx = inbound_q p\<rparr>"

lemma ring_recv:
  assumes inv: "chan_inv k (rlink t p)" and cnt: "cnt \<le> unread_len (rlink t p)"
  obtains rb where "scif_rb_get_next (inbound_q p) (inbound_mem p) (of_nat cnt) =
      Some (of_nat cnt, take cnt (unread (rlink t p)), rb)"
    "chan_inv k (rlink t (p\<lparr>inbound_q := rb\<rparr>))"
    "unread (rlink t (p\<lparr>inbound_q := rb\<rparr>)) = drop cnt (unread (rlink t p))"
    "pending (rlink t (p\<lparr>inbound_q := rb\<rparr>)) = pending (rlink t p)"
    "chan_inv k (rlink t (p\<lparr>inbound_q := rb, inbound_mem := scif_rb_update_read_ptr rb (inbound_mem p)\<rparr>))"
    "unread (rlink t (p\<lparr>inbound_q := rb, inbound_mem := scif_rb_update_read_ptr rb (inbound_mem p)\<rparr>)) =
      drop cnt (unread (rlink t p))"
    "pending (rlink t (p\<lparr>inbound_q := rb, inbound_mem := scif_rb_update_read_ptr rb (inbound_mem p)\<rparr>)) =
      pending (rlink t p)"
    "held (rlink t (p\<lparr>inbound_q := rb, inbound_mem := scif_rb_update_read_ptr rb (inbound_mem p)\<rparr>)) = 0"
proof -
  let ?c = "rlink t p"
  have "unread_len ?c < 2 ^ k" using inv by (simp add: chan_inv_def)
  then have n: "unat (of_nat cnt :: u32) = cnt"
    using cnt chan_inv_size [OF inv] by (intro unat_of_nat_u32) linarith
  obtain rb where w: "scif_rb_get_next (rx ?c) (mem ?c) (of_nat cnt) =
      Some (of_nat cnt, take (unat (of_nat cnt :: u32)) (unread ?c), rb)"
    "chan_inv k (?c\<lparr>rx := rb\<rparr>)" "unread (?c\<lparr>rx := rb\<rparr>) = drop (unat (of_nat cnt :: u32)) (unread ?c)"
    "pending (?c\<lparr>rx := rb\<rparr>) = pending ?c"
    by (rule scif_rb_get_next_chan [OF inv, of "of_nat cnt"]) (use n cnt in auto)
  have e1: "rlink t (p\<lparr>inbound_q := rb\<rparr>) = ?c\<lparr>rx := rb\<rparr>" by (simp add: rlink_def)
  have e2: "rlink t (p\<lparr>inbound_q := rb, inbound_mem := scif_rb_update_read_ptr rb (inbound_mem p)\<rparr>) =
      (?c\<lparr>rx := rb\<rparr>)\<lparr>mem := scif_rb_update_read_ptr (rx (?c\<lparr>rx := rb\<rparr>)) (mem (?c\<lparr>rx := rb\<rparr>))\<rparr>"
    by (simp add: rlink_def)
  show thesis
  proof (rule that [of rb])
    show "scif_rb_get_next (inbound_q p) (inbound_mem p) (of_nat cnt) = Some (of_nat cnt, take cnt (unread ?c), rb)"
      using w(1) n by (simp add: rlink_def)
  qed (use w(2-4) n scif_rb_update_read_ptr_chan [OF w(2)] in \<open>simp_all add: e1 e2\<close>)
qed

text \<open>
  A send that does not block moves as many bytes as there is room for, in two rounds of its loop.
\<close>

lemma send_step:
  assumes "eps st a = Some e" "ep_state e = SCIFEP_CONNECTED" "qp e = Some p" "msg \<noteq> []"
    "unat (scif_rb_space (outbound_q p) (outbound_mem p)) = wc" "wc \<noteq> 0" "cnt = min (length msg) wc"
    "scif_rb_write (outbound_q p) (outbound_mem p) (take cnt msg) (of_nat cnt) = Some (0, t, m)"
    "st1 = ep_upd a (\<lambda>e. e\<lparr>qp := Some (p\<lparr>outbound_q := t, outbound_mem := scif_rb_commit t m\<rparr>)\<rparr>) st"
    "fst (ep_raw_send (qs 0) e (notification nm SCIF_CLIENT_SENT e) st1) = 0"
  shows "send_loop (Suc n) qs ws nm blocking a msg sent ret st =
    send_loop n (\<lambda>i. qs (Suc i)) ws nm blocking a (drop cnt msg) (sent + cnt) 0
      (snd (ep_raw_send (qs 0) e (notification nm SCIF_CLIENT_SENT e) st1))"
  using assms by (simp add: send_loop.simps Let_def split_beta)

lemma send_stop:
  assumes "eps st a = Some e" "ep_state e = SCIFEP_CONNECTED" "qp e = Some p"
    "msg = [] \<or> unat (scif_rb_space (outbound_q p) (outbound_mem p)) = 0 \<and> \<not> blocking"
  shows "send_loop (Suc n) qs ws nm blocking a msg sent ret st = Some (ret, sent, st)"
  using assms by (auto simp: send_loop.simps Let_def)

lemma recv_step:
  assumes "eps st a = Some e" "ep_state e = SCIFEP_CONNECTED" "qp e = Some p" "rem \<noteq> 0"
    "unat (scif_rb_count (inbound_q p) (inbound_mem p)) = rc" "rc \<noteq> 0" "cnt = min rem rc"
    "scif_rb_get_next (inbound_q p) (inbound_mem p) (of_nat cnt) = Some (sz, bytes, rb)"
    "st1 = ep_upd a (\<lambda>e. e\<lparr>qp := Some (p\<lparr>inbound_q := rb, inbound_mem := scif_rb_update_read_ptr rb (inbound_mem p)\<rparr>)\<rparr>) st"
    "fst (ep_raw_send (qs 0) e (notification nm SCIF_CLIENT_RCVD e) st1) = 0"
  shows "recv_loop (Suc n) qs ws nm blocking a rem got ret st =
    recv_loop n (\<lambda>i. qs (Suc i)) ws nm blocking a (rem - cnt) (got @ bytes) 0
      (snd (ep_raw_send (qs 0) e (notification nm SCIF_CLIENT_RCVD e) st1))"
  using assms by (simp add: recv_loop.simps Let_def split_beta)

lemma recv_step_disconnected:
  assumes "eps st a = Some e" "ep_state e = SCIFEP_DISCONNECTED" "qp e = Some p" "rem \<noteq> 0"
    "unat (scif_rb_count (inbound_q p) (inbound_mem p)) = rc" "rc \<noteq> 0" "cnt = min rem rc"
    "scif_rb_get_next (inbound_q p) (inbound_mem p) (of_nat cnt) = Some (sz, bytes, rb)"
  shows "recv_loop (Suc n) qs ws nm blocking a rem got ret st =
    recv_loop n qs ws nm blocking a (rem - cnt) (got @ bytes) ret (ep_upd a (\<lambda>e. e\<lparr>qp := Some (p\<lparr>inbound_q := rb\<rparr>)\<rparr>) st)"
  using assms by (simp add: recv_loop.simps Let_def)

lemma recv_stop:
  assumes "eps st a = Some e" "ep_state e = SCIFEP_CONNECTED \<and> \<not> blocking \<or> ep_state e = SCIFEP_DISCONNECTED" "qp e = Some p"
    "rem = 0 \<or> unat (scif_rb_count (inbound_q p) (inbound_mem p)) = 0"
  shows "recv_loop (Suc n) qs ws nm blocking a rem got ret st = Some (ret, got, st)"
  using assms by (auto simp: recv_loop.simps Let_def)

text \<open>The room of a ring.\<close>

definition room :: "nat \<Rightarrow> rb_chan \<Rightarrow> nat" where
  "room k c = 2 ^ k - 1 - (held c + unread_len c + pending_len c)"

lemma room_space: "chan_inv k (link p r) \<Longrightarrow> unat (scif_rb_space (outbound_q p) (outbound_mem p)) = room k (link p r)"
  using scif_rb_space_chan [of k "link p r"] by (simp add: link_def room_def)

lemma count_unread: "chan_inv k (rlink t p) \<Longrightarrow> unat (scif_rb_count (inbound_q p) (inbound_mem p)) = unread_len (rlink t p)"
  using scif_rb_count_chan [of k "rlink t p"] by (simp add: rlink_def)

text \<open>The endpoint after a send: the outbound half of its queue pair has changed.\<close>

definition sent_to :: "scif_qp \<Rightarrow> scif_qp \<Rightarrow> bool" where
  "sent_to p p' \<longleftrightarrow> p' = p\<lparr>outbound_q := outbound_q p', outbound_mem := outbound_mem p'\<rparr>"

lemma send_nonblocking:
  fixes msg :: "u8 list"
  assumes e: "eps st a = Some e" "ep_state e = SCIFEP_CONNECTED" "qp e = Some p"
    and inv: "chan_inv k (link p r)" "pending (link p r) = []" and up: "up st" "notify_up up a qs"
  defines "cnt \<equiv> min (length msg) (room k (link p r))"
  obtains p' st' where "send_loop (Suc (Suc n)) qs ws nm False a msg 0 0 st = Some (0, cnt, st')"
    "eps st' = (eps st)(a \<mapsto> e\<lparr>qp := Some p'\<rparr>)" "up st'" "chan_inv k (link p' r)" "pending (link p' r) = []"
    "held (link p' r) = held (link p r)" "unread (link p' r) = unread (link p r) @ take cnt msg" "sent_to p p'"
proof (cases "cnt = 0")
  case True
  then have "msg = [] \<or> unat (scif_rb_space (outbound_q p) (outbound_mem p)) = 0 \<and> \<not> False"
    using room_space [OF inv(1)] by (auto simp: cnt_def min_def split: if_splits)
  note stop = send_stop [OF e this]
  show thesis by (rule that [of st p]) (use True stop e up inv in \<open>auto simp: fun_upd_idem sent_to_def\<close>)
next
  case False
  then have ne: "msg \<noteq> []" "room k (link p r) \<noteq> 0" by (auto simp: cnt_def)
  have cnt: "cnt \<le> length msg" "cnt \<le> unat (scif_rb_space (outbound_q p) (outbound_mem p))"
    using room_space [OF inv(1)] by (auto simp: cnt_def)
  obtain t m where w: "scif_rb_write (outbound_q p) (outbound_mem p) (take cnt msg) (of_nat cnt) = Some (0, t, m)"
    and c': "chan_inv k (link (p\<lparr>outbound_q := t, outbound_mem := scif_rb_commit t m\<rparr>) r)"
      "pending (link (p\<lparr>outbound_q := t, outbound_mem := scif_rb_commit t m\<rparr>) r) = []"
      "held (link (p\<lparr>outbound_q := t, outbound_mem := scif_rb_commit t m\<rparr>) r) = held (link p r)"
      "unread (link (p\<lparr>outbound_q := t, outbound_mem := scif_rb_commit t m\<rparr>) r) = unread (link p r) @ take cnt msg"
    by (rule ring_send [OF inv cnt])
  define p' where "p' = p\<lparr>outbound_q := t, outbound_mem := scif_rb_commit t m\<rparr>"
  define st1 where "st1 = ep_upd a (\<lambda>e. e\<lparr>qp := Some p'\<rparr>) st"
  define s where "s = ep_raw_send (qs 0) e (notification nm SCIF_CLIENT_SENT e) st1"
  have eps1: "eps st1 = (eps st)(a \<mapsto> e\<lparr>qp := Some p'\<rparr>)" by (simp add: st1_def ep_upd_eps [OF e(1)])
  have up1: "up st1" using up by (auto simp: notify_up_def st1_def)
  have send_as: "ep_raw_send q e m = ep_raw_send q (e\<lparr>qp := Some p'\<rparr>) m" for q m
    by (simp add: ep_raw_send_def fun_eq_iff)
  have s: "fst s = 0" "up (snd s)" using up(2) up1 eps1 unfolding s_def send_as notify_up_def by auto
  have e': "eps (snd s) a = Some (e\<lparr>qp := Some p'\<rparr>)" using eps1 by (simp add: s_def)
  have step: "send_loop (Suc (Suc n)) qs ws nm False a msg 0 0 st =
      send_loop (Suc n) (\<lambda>i. qs (Suc i)) ws nm False a (drop cnt msg) (0 + cnt) 0 (snd s)"
    unfolding s_def
    by (rule send_step [OF e ne(1) room_space [OF inv(1)] ne(2) _ w]) (use s in \<open>simp_all add: cnt_def st1_def p'_def s_def\<close>)
  have "unread_len (link p' r) = unread_len (link p r) + cnt"
    using arg_cong [OF c'(4), of length] cnt(1) by (simp add: p'_def)
  moreover have "pending_len (link p' r) = 0" "pending_len (link p r) = 0"
    using arg_cong [OF c'(2), of length] arg_cong [OF inv(2), of length] by (simp_all add: p'_def)
  ultimately have "room k (link p' r) = room k (link p r) - cnt" using c'(3) by (simp add: room_def p'_def)
  then have "drop cnt msg = [] \<or> unat (scif_rb_space (outbound_q p') (outbound_mem p')) = 0 \<and> \<not> False"
    using room_space [OF c'(1) [folded p'_def]] by (auto simp: cnt_def)
  with send_stop [OF e' _ _ this, of n] e(2)
  have stop: "send_loop (Suc n) (\<lambda>i. qs (Suc i)) ws nm False a (drop cnt msg) (0 + cnt) 0 (snd s) = Some (0, cnt, snd s)"
    by simp
  show thesis
    by (rule that [of "snd s" p']) (use step stop s(2) eps1 c' in \<open>simp_all add: s_def p'_def sent_to_def\<close>)
qed

text \<open>A receive that does not block takes what is there, and frees its place in the ring.\<close>

definition received_from :: "scif_qp \<Rightarrow> scif_qp \<Rightarrow> bool" where
  "received_from p p' \<longleftrightarrow> p' = p\<lparr>inbound_q := inbound_q p', inbound_mem := inbound_mem p'\<rparr>"

lemma recv_nonblocking:
  fixes len :: nat
  assumes e: "eps st a = Some e" "ep_state e = SCIFEP_CONNECTED" "qp e = Some p"
    and inv: "chan_inv k (rlink t p)" and up: "up st" "notify_up up a qs"
  defines "cnt \<equiv> min len (unread_len (rlink t p))"
  obtains p' st' where "recv_loop (Suc (Suc n)) qs ws nm False a len [] 0 st = Some (0, take cnt (unread (rlink t p)), st')"
    "eps st' = (eps st)(a \<mapsto> e\<lparr>qp := Some p'\<rparr>)" "up st'" "chan_inv k (rlink t p')"
    "pending (rlink t p') = pending (rlink t p)" "unread (rlink t p') = drop cnt (unread (rlink t p))"
    "cnt = 0 \<longrightarrow> p' = p" "cnt \<noteq> 0 \<longrightarrow> held (rlink t p') = 0" "received_from p p'"
proof (cases "cnt = 0")
  case True
  then have "len = 0 \<or> unat (scif_rb_count (inbound_q p) (inbound_mem p)) = 0"
    using count_unread [OF inv] by (auto simp: cnt_def min_def split: if_splits)
  note stop = recv_stop [OF e(1) _ e(3) this, of False]
  show thesis by (rule that [of st p]) (use True stop e up inv in \<open>auto simp: fun_upd_idem received_from_def\<close>)
next
  case False
  then have ne: "len \<noteq> 0" "unread_len (rlink t p) \<noteq> 0" by (auto simp: cnt_def)
  have le: "cnt \<le> unread_len (rlink t p)" by (simp add: cnt_def)
  obtain rb where w: "scif_rb_get_next (inbound_q p) (inbound_mem p) (of_nat cnt) =
      Some (of_nat cnt, take cnt (unread (rlink t p)), rb)"
    and c': "chan_inv k (rlink t (p\<lparr>inbound_q := rb, inbound_mem := scif_rb_update_read_ptr rb (inbound_mem p)\<rparr>))"
      "unread (rlink t (p\<lparr>inbound_q := rb, inbound_mem := scif_rb_update_read_ptr rb (inbound_mem p)\<rparr>)) =
        drop cnt (unread (rlink t p))"
      "pending (rlink t (p\<lparr>inbound_q := rb, inbound_mem := scif_rb_update_read_ptr rb (inbound_mem p)\<rparr>)) = pending (rlink t p)"
      "held (rlink t (p\<lparr>inbound_q := rb, inbound_mem := scif_rb_update_read_ptr rb (inbound_mem p)\<rparr>)) = 0"
    by (rule ring_recv [OF inv le])
  define p' where "p' = p\<lparr>inbound_q := rb, inbound_mem := scif_rb_update_read_ptr rb (inbound_mem p)\<rparr>"
  define st1 where "st1 = ep_upd a (\<lambda>e. e\<lparr>qp := Some p'\<rparr>) st"
  define s where "s = ep_raw_send (qs 0) e (notification nm SCIF_CLIENT_RCVD e) st1"
  have eps1: "eps st1 = (eps st)(a \<mapsto> e\<lparr>qp := Some p'\<rparr>)" by (simp add: st1_def ep_upd_eps [OF e(1)])
  have up1: "up st1" using up by (auto simp: notify_up_def st1_def)
  have send_as: "ep_raw_send q e m = ep_raw_send q (e\<lparr>qp := Some p'\<rparr>) m" for q m
    by (simp add: ep_raw_send_def fun_eq_iff)
  have s: "fst s = 0" "up (snd s)" using up(2) up1 eps1 unfolding s_def send_as notify_up_def by auto
  have e': "eps (snd s) a = Some (e\<lparr>qp := Some p'\<rparr>)" using eps1 by (simp add: s_def)
  have step: "recv_loop (Suc (Suc n)) qs ws nm False a len [] 0 st =
      recv_loop (Suc n) (\<lambda>i. qs (Suc i)) ws nm False a (len - cnt) ([] @ take cnt (unread (rlink t p))) 0 (snd s)"
    unfolding s_def
    by (rule recv_step [OF e ne(1) count_unread [OF inv] ne(2) _ w]) (use s in \<open>simp_all add: cnt_def st1_def p'_def s_def\<close>)
  have "unread_len (rlink t p') = unread_len (rlink t p) - cnt"
    using arg_cong [OF c'(2), of length] by (simp add: p'_def)
  then have "len - cnt = 0 \<or> unat (scif_rb_count (inbound_q p') (inbound_mem p')) = 0"
    using count_unread [OF c'(1) [folded p'_def]] by (auto simp: cnt_def)
  with recv_stop [OF e' _ _ this, of False n] e(2)
  have stop: "recv_loop (Suc n) (\<lambda>i. qs (Suc i)) ws nm False a (len - cnt) ([] @ take cnt (unread (rlink t p))) 0 (snd s) =
      Some (0, take cnt (unread (rlink t p)), snd s)" by simp
  show thesis
    by (rule that [of "snd s" p']) (use step stop s(2) eps1 c' False in \<open>simp_all add: s_def p'_def received_from_def\<close>)
qed

lemma scif_send_nonblocking:
  assumes e: "eps st a = Some e" "ep_state e = SCIFEP_CONNECTED" "qp e = Some p" "remote_dev e = Some d"
    and inv: "chan_inv k (link p r)" "pending (link p r) = []" and up: "up st" "notify_up up a qs"
  obtains p' st' cnt where "scif_send (Suc (Suc n)) qs ws nm a msg (int (length msg)) 0 st = Some (int cnt, st')"
    "cnt = min (length msg) (room k (link p r))"
    "eps st' = (eps st)(a \<mapsto> e\<lparr>qp := Some p'\<rparr>)" "up st'" "chan_inv k (link p' r)" "pending (link p' r) = []"
    "held (link p' r) = held (link p r)" "unread (link p' r) = unread (link p r) @ take cnt msg" "sent_to p p'"
proof (cases "msg = []")
  case True
  then show thesis
    by (intro that [of 0 st p]) (use e inv up in \<open>simp_all add: scif_send_def fun_upd_idem sent_to_def\<close>)
next
  case False
  let ?cnt = "min (length msg) (room k (link p r))"
  obtain p' st' where r: "send_loop (Suc (Suc n)) qs ws nm False a msg 0 0 st = Some (0, ?cnt, st')"
    "eps st' = (eps st)(a \<mapsto> e\<lparr>qp := Some p'\<rparr>)" "up st'" "chan_inv k (link p' r)" "pending (link p' r) = []"
    "held (link p' r) = held (link p r)" "unread (link p' r) = unread (link p r) @ take ?cnt msg" "sent_to p p'"
    by (rule send_nonblocking [OF e(1-3) inv up])
  have "xfer_result ?cnt 0 a st' = int ?cnt" using r(2) e(2) by (auto simp: xfer_result_def ep_in_def)
  then have "scif_send (Suc (Suc n)) qs ws nm a msg (int (length msg)) 0 st = Some (int ?cnt, st')"
    using False e r(1) by (simp add: scif_send_def raw_scif_send_def scif_msg_param_check_def)
  then show thesis using r(2-8) by (rule that [OF _ refl])
qed

lemma scif_recv_nonblocking:
  assumes e: "eps st a = Some e" "ep_state e = SCIFEP_CONNECTED" "qp e = Some p"
    and inv: "chan_inv k (rlink t p)" and up: "up st" "notify_up up a qs"
  obtains p' st' cnt where
    "scif_recv (Suc (Suc n)) qs ws nm a (int len) 0 st = Some (int cnt, take cnt (unread (rlink t p)), st')"
    "cnt = min len (unread_len (rlink t p))"
    "eps st' = (eps st)(a \<mapsto> e\<lparr>qp := Some p'\<rparr>)" "up st'" "chan_inv k (rlink t p')"
    "pending (rlink t p') = pending (rlink t p)" "unread (rlink t p') = drop cnt (unread (rlink t p))"
    "cnt = 0 \<longrightarrow> p' = p" "cnt \<noteq> 0 \<longrightarrow> held (rlink t p') = 0" "received_from p p'"
proof (cases "len = 0")
  case True
  then show thesis
    by (intro that [of 0 st p]) (use e inv up in \<open>simp_all add: scif_recv_def fun_upd_idem received_from_def\<close>)
next
  case False
  let ?cnt = "min len (unread_len (rlink t p))"
  obtain p' st' where r: "recv_loop (Suc (Suc n)) qs ws nm False a len [] 0 st = Some (0, take ?cnt (unread (rlink t p)), st')"
    "eps st' = (eps st)(a \<mapsto> e\<lparr>qp := Some p'\<rparr>)" "up st'" "chan_inv k (rlink t p')"
    "pending (rlink t p') = pending (rlink t p)" "unread (rlink t p') = drop ?cnt (unread (rlink t p))"
    "?cnt = 0 \<longrightarrow> p' = p" "?cnt \<noteq> 0 \<longrightarrow> held (rlink t p') = 0" "received_from p p'"
    by (rule recv_nonblocking [OF e inv up])
  have "length (take ?cnt (unread (rlink t p))) = ?cnt" by simp
  then have "xfer_result (length (take ?cnt (unread (rlink t p)))) 0 a st' = int ?cnt"
    using r(2) e(2) by (simp add: xfer_result_def ep_in_def del: length_take)
  then have "scif_recv (Suc (Suc n)) qs ws nm a (int len) 0 st = Some (int ?cnt, take ?cnt (unread (rlink t p)), st')"
    using False e r(1) by (simp add: scif_recv_def raw_scif_recv_def scif_msg_param_check_def del: length_take)
  then show thesis using r(2-9) by (rule that [OF _ refl])
qed

section \<open>Two endpoints over shared memory\<close>

text \<open>
  What one node writes to a ring the other node sees: after a send the inbound memory of the
  receiver is the outbound memory of the sender, after a receive the other way round.
\<close>

definition ep_qp :: "u64 \<Rightarrow> scif_node \<Rightarrow> scif_qp" where
  "ep_qp a st = (case qp (ep_of a st) of None \<Rightarrow> zero_qp | Some p \<Rightarrow> p)"

definition see_inbound :: "rb_mem \<Rightarrow> u64 \<Rightarrow> scif_node \<Rightarrow> scif_node" where
  "see_inbound m b st = ep_upd b (\<lambda>e. e\<lparr>qp := map_option (\<lambda>p. p\<lparr>inbound_mem := m\<rparr>) (qp e)\<rparr>) st"

definition see_outbound :: "rb_mem \<Rightarrow> u64 \<Rightarrow> scif_node \<Rightarrow> scif_node" where
  "see_outbound m a st = ep_upd a (\<lambda>e. e\<lparr>qp := map_option (\<lambda>p. p\<lparr>outbound_mem := m\<rparr>) (qp e)\<rparr>) st"

datatype xfer = Send "u8 list" | Recv nat

record xfer_env =
  xf_qs :: "nat \<Rightarrow> nodeqp_env"
  xf_ws :: "nat \<Rightarrow> bool \<times> (scif_node \<Rightarrow> scif_node)"
  xf_nm :: scifmsg

text \<open>
  Non-blocking transfers in one direction, from endpoint \<open>a\<close> of one node to endpoint \<open>b\<close> of the
  other, with all bytes accepted and all bytes delivered.
\<close>

fun xfer_run :: "xfer_env \<Rightarrow> xfer_env \<Rightarrow> u64 \<Rightarrow> u64 \<Rightarrow> xfer list \<Rightarrow> u8 list \<times> u8 list \<times> scif_node \<times> scif_node
    \<Rightarrow> (u8 list \<times> u8 list \<times> scif_node \<times> scif_node) option" where
  "xfer_run envA envB a b [] s = Some s"
| "xfer_run envA envB a b (Send msg # ops) (sent, got, sA, sB) =
     (case scif_send 2 (xf_qs envA) (xf_ws envA) (xf_nm envA) a msg (int (length msg)) 0 sA of
        None \<Rightarrow> None
      | Some (r, sA') \<Rightarrow>
          xfer_run envA envB a b ops
            (sent @ take (nat r) msg, got, sA', see_inbound (outbound_mem (ep_qp a sA')) b sB))"
| "xfer_run envA envB a b (Recv len # ops) (sent, got, sA, sB) =
     (case scif_recv 2 (xf_qs envB) (xf_ws envB) (xf_nm envB) b (int len) 0 sB of
        None \<Rightarrow> None
      | Some (r, bytes, sB') \<Rightarrow>
          xfer_run envA envB a b ops
            (sent, got @ bytes, see_outbound (inbound_mem (ep_qp b sB')) a sA, sB'))"

definition linked :: "nat \<Rightarrow> u64 \<Rightarrow> u64 \<Rightarrow> scif_node \<Rightarrow> scif_node \<Rightarrow> u8 list \<Rightarrow> bool" where
  "linked k a b sA sB bytes \<longleftrightarrow>
     (\<exists>eA pA dA eB pB. eps sA a = Some eA \<and> ep_state eA = SCIFEP_CONNECTED \<and> qp eA = Some pA \<and> remote_dev eA = Some dA \<and>
        eps sB b = Some eB \<and> ep_state eB = SCIFEP_CONNECTED \<and> qp eB = Some pB \<and>
        inbound_mem pB = outbound_mem pA \<and> chan_inv k (channel pA pB) \<and> pending (channel pA pB) = [] \<and>
        unread (channel pA pB) = bytes)"

lemma channel_link: "channel p r = link p (inbound_q r)"
  by (simp add: channel_def link_def)

lemma channel_rlink: "inbound_mem r = outbound_mem p \<Longrightarrow> channel p r = rlink (outbound_q p) r"
  by (simp add: channel_def rlink_def)

lemma linked_send:
  assumes l: "linked k a b sA sB bytes" and up: "up sA" "notify_up up a qs"
  obtains cnt sA' where "scif_send 2 qs ws nm a msg (int (length msg)) 0 sA = Some (int cnt, sA')" "cnt \<le> length msg"
    "linked k a b sA' (see_inbound (outbound_mem (ep_qp a sA')) b sB) (bytes @ take cnt msg)" "up sA'"
proof -
  obtain eA pA dA eB pB where e: "eps sA a = Some eA" "ep_state eA = SCIFEP_CONNECTED" "qp eA = Some pA" "remote_dev eA = Some dA"
    "eps sB b = Some eB" "ep_state eB = SCIFEP_CONNECTED" "qp eB = Some pB" "inbound_mem pB = outbound_mem pA"
    "chan_inv k (link pA (inbound_q pB))" "pending (link pA (inbound_q pB)) = []" "unread (link pA (inbound_q pB)) = bytes"
    using l by (auto simp: linked_def channel_link)
  obtain p' sA' cnt where r: "scif_send (Suc (Suc 0)) qs ws nm a msg (int (length msg)) 0 sA = Some (int cnt, sA')"
    "cnt = min (length msg) (room k (link pA (inbound_q pB)))"
    "eps sA' = (eps sA)(a \<mapsto> eA\<lparr>qp := Some p'\<rparr>)" "up sA'" "chan_inv k (link p' (inbound_q pB))"
    "pending (link p' (inbound_q pB)) = []" "held (link p' (inbound_q pB)) = held (link pA (inbound_q pB))"
    "unread (link p' (inbound_q pB)) = unread (link pA (inbound_q pB)) @ take cnt msg" "sent_to pA p'"
    by (rule scif_send_nonblocking [OF e(1-4,9,10) up])
  have m: "ep_qp a sA' = p'" using r(3) by (simp add: ep_qp_def ep_of_def)
  have "linked k a b sA' (see_inbound (outbound_mem p') b sB) (bytes @ take cnt msg)"
    unfolding linked_def
    by (rule exI [of _ "eA\<lparr>qp := Some p'\<rparr>"], rule exI [of _ p'], rule exI [of _ dA],
        rule exI [of _ "eB\<lparr>qp := Some (pB\<lparr>inbound_mem := outbound_mem p'\<rparr>)\<rparr>"],
        rule exI [of _ "pB\<lparr>inbound_mem := outbound_mem p'\<rparr>"])
      (use e r in \<open>simp add: see_inbound_def ep_upd_eps channel_link\<close>)
  with r(1,2,4) m show thesis by (intro that [of cnt sA']) (simp_all add: numeral_2_eq_2)
qed

lemma linked_recv:
  assumes l: "linked k a b sA sB bytes" and up: "up sB" "notify_up up b qs"
  obtains cnt sB' where "scif_recv 2 qs ws nm b (int len) 0 sB = Some (int cnt, take cnt bytes, sB')"
    "cnt = min len (length bytes)"
    "linked k a b (see_outbound (inbound_mem (ep_qp b sB')) a sA) sB' (drop cnt bytes)" "up sB'"
proof -
  obtain eA pA dA eB pB where e: "eps sA a = Some eA" "ep_state eA = SCIFEP_CONNECTED" "qp eA = Some pA" "remote_dev eA = Some dA"
    "eps sB b = Some eB" "ep_state eB = SCIFEP_CONNECTED" "qp eB = Some pB" "inbound_mem pB = outbound_mem pA"
    "chan_inv k (rlink (outbound_q pA) pB)" "pending (rlink (outbound_q pA) pB) = []" "unread (rlink (outbound_q pA) pB) = bytes"
    using l by (auto simp: linked_def channel_rlink)
  obtain p' sB' cnt where r: "scif_recv (Suc (Suc 0)) qs ws nm b (int len) 0 sB =
      Some (int cnt, take cnt (unread (rlink (outbound_q pA) pB)), sB')"
    "cnt = min len (unread_len (rlink (outbound_q pA) pB))"
    "eps sB' = (eps sB)(b \<mapsto> eB\<lparr>qp := Some p'\<rparr>)" "up sB'" "chan_inv k (rlink (outbound_q pA) p')"
    "pending (rlink (outbound_q pA) p') = pending (rlink (outbound_q pA) pB)"
    "unread (rlink (outbound_q pA) p') = drop cnt (unread (rlink (outbound_q pA) pB))"
    by (rule scif_recv_nonblocking [OF e(5-7,9) up])
  have m: "ep_qp b sB' = p'" using r(3) by (simp add: ep_qp_def ep_of_def)
  have "linked k a b (see_outbound (inbound_mem p') a sA) sB' (drop cnt bytes)"
    unfolding linked_def
    by (rule exI [of _ "eA\<lparr>qp := Some (pA\<lparr>outbound_mem := inbound_mem p'\<rparr>)\<rparr>"],
        rule exI [of _ "pA\<lparr>outbound_mem := inbound_mem p'\<rparr>"], rule exI [of _ dA],
        rule exI [of _ "eB\<lparr>qp := Some p'\<rparr>"], rule exI [of _ p'])
      (use e r in \<open>simp add: see_outbound_def ep_upd_eps channel_rlink\<close>)
  moreover have "cnt = min len (length bytes)" using r(2) e(11) by auto
  ultimately show thesis using r(1,4) e(11) m by (intro that [of cnt sB']) (simp_all add: numeral_2_eq_2)
qed

lemma xfer_run_stream:
  assumes "linked k a b sA sB bytes" "sent = got @ bytes" "upA sA" "notify_up upA a (xf_qs envA)" "upB sB" "notify_up upB b (xf_qs envB)"
  shows "\<exists>sent' got' sA' sB' bytes'. xfer_run envA envB a b ops (sent, got, sA, sB) = Some (sent', got', sA', sB') \<and>
    linked k a b sA' sB' bytes' \<and> sent' = got' @ bytes' \<and> upA sA' \<and> upB sB'"
  using assms
proof (induction ops arbitrary: sA sB bytes sent got)
  case (Cons op ops)
  show ?case
  proof (cases op)
    case (Send msg)
    obtain cnt sA' where s: "scif_send 2 (xf_qs envA) (xf_ws envA) (xf_nm envA) a msg (int (length msg)) 0 sA = Some (int cnt, sA')"
      "cnt \<le> length msg" "linked k a b sA' (see_inbound (outbound_mem (ep_qp a sA')) b sB) (bytes @ take cnt msg)" "upA sA'"
      by (rule linked_send [OF Cons.prems(1,3,4)])
    have "upB (see_inbound (outbound_mem (ep_qp a sA')) b sB)"
      using Cons.prems(5,6) by (auto simp: notify_up_def see_inbound_def)
    from Cons.IH [OF s(3) _ s(4) Cons.prems(4) this Cons.prems(6), of "sent @ take cnt msg" got] s(1) Cons.prems(2) Send
    show ?thesis by simp
  next
    case (Recv len)
    obtain cnt sB' where s: "scif_recv 2 (xf_qs envB) (xf_ws envB) (xf_nm envB) b (int len) 0 sB = Some (int cnt, take cnt bytes, sB')"
      "linked k a b (see_outbound (inbound_mem (ep_qp b sB')) a sA) sB' (drop cnt bytes)" "upB sB'"
      by (rule linked_recv [OF Cons.prems(1,5,6)])
    have "upA (see_outbound (inbound_mem (ep_qp b sB')) a sA)"
      using Cons.prems(3,4) by (auto simp: notify_up_def see_outbound_def)
    from Cons.IH [OF s(2) _ this Cons.prems(4) s(3) Cons.prems(6), of sent "got @ take cnt bytes"] s(1) Cons.prems(2) Recv
    show ?thesis by simp
  qed
qed auto

section \<open>A send that waits for room\<close>

text \<open>
  What the peer promises a sender that waits: no signal arrives, the connection lives, and the
  peer takes some of the unread bytes, so that there is room.
\<close>

definition makes_room :: "nat \<Rightarrow> (scif_node \<Rightarrow> bool) \<Rightarrow> u64 \<Rightarrow> bool \<times> (scif_node \<Rightarrow> scif_node) \<Rightarrow> bool" where
  "makes_room k up a w \<longleftrightarrow> \<not> fst w \<and>
     (\<forall>st e p r. up st \<longrightarrow> eps st a = Some e \<longrightarrow> qp e = Some p \<longrightarrow> chan_inv k (link p r) \<longrightarrow> pending (link p r) = [] \<longrightarrow>
        (\<exists>p' r' j. eps (snd w st) a = Some (e\<lparr>qp := Some p'\<rparr>) \<and> up (snd w st) \<and> chan_inv k (link p' r') \<and>
           pending (link p' r') = [] \<and> room k (link p' r') \<noteq> 0 \<and> unread (link p' r') = drop j (unread (link p r))))"

lemma drop_again: "\<exists>i. drop j (drop j0 xs @ ys) = drop i (xs @ ys)"
proof -
  have "drop j (drop j0 xs @ ys) = drop j (drop (min j0 (length xs)) (xs @ ys))"
    by (simp add: min_def)
  then show ?thesis by (simp only: drop_drop) blast
qed

lemma send_wait:
  assumes "eps st a = Some e" "ep_state e = SCIFEP_CONNECTED" "qp e = Some p" "msg \<noteq> []"
    "unat (scif_rb_space (outbound_q p) (outbound_mem p)) = 0" "\<not> fst (ws 0)"
  shows "send_loop (Suc n) qs ws nm True a msg sent ret st =
    send_loop n qs (\<lambda>i. ws (Suc i)) nm True a msg sent 0 (snd (ws 0) st)"
  using assms by (simp add: send_loop.simps)

lemma send_blocking_step:
  assumes e: "eps st a = Some e" "ep_state e = SCIFEP_CONNECTED" "qp e = Some p"
    and inv: "chan_inv k (link p r)" "pending (link p r) = []" and up: "up st" "notify_up up a qs"
    and ne: "msg \<noteq> []" "room k (link p r) \<noteq> 0"
  obtains p' st' cnt where "0 < cnt" "cnt \<le> length msg"
    "send_loop (Suc n) qs ws nm True a msg sent ret st =
      send_loop n (\<lambda>i. qs (Suc i)) ws nm True a (drop cnt msg) (sent + cnt) 0 st'"
    "eps st' = (eps st)(a \<mapsto> e\<lparr>qp := Some p'\<rparr>)" "up st'" "chan_inv k (link p' r)" "pending (link p' r) = []"
    "unread (link p' r) = unread (link p r) @ take cnt msg"
proof -
  define cnt where "cnt = min (length msg) (room k (link p r))"
  have cnt: "cnt \<le> length msg" "cnt \<le> unat (scif_rb_space (outbound_q p) (outbound_mem p))" "0 < cnt"
    using room_space [OF inv(1)] ne by (auto simp: cnt_def)
  obtain t m where w: "scif_rb_write (outbound_q p) (outbound_mem p) (take cnt msg) (of_nat cnt) = Some (0, t, m)"
    and c': "chan_inv k (link (p\<lparr>outbound_q := t, outbound_mem := scif_rb_commit t m\<rparr>) r)"
      "pending (link (p\<lparr>outbound_q := t, outbound_mem := scif_rb_commit t m\<rparr>) r) = []"
      "unread (link (p\<lparr>outbound_q := t, outbound_mem := scif_rb_commit t m\<rparr>) r) = unread (link p r) @ take cnt msg"
    by (rule ring_send [OF inv cnt(1,2)])
  define p' where "p' = p\<lparr>outbound_q := t, outbound_mem := scif_rb_commit t m\<rparr>"
  define st1 where "st1 = ep_upd a (\<lambda>e. e\<lparr>qp := Some p'\<rparr>) st"
  define s where "s = ep_raw_send (qs 0) e (notification nm SCIF_CLIENT_SENT e) st1"
  have eps1: "eps st1 = (eps st)(a \<mapsto> e\<lparr>qp := Some p'\<rparr>)" by (simp add: st1_def ep_upd_eps [OF e(1)])
  have up1: "up st1" using up by (auto simp: notify_up_def st1_def)
  have send_as: "ep_raw_send q e m = ep_raw_send q (e\<lparr>qp := Some p'\<rparr>) m" for q m
    by (simp add: ep_raw_send_def fun_eq_iff)
  have s: "fst s = 0" "up (snd s)" using up(2) up1 eps1 unfolding s_def send_as notify_up_def by auto
  have "send_loop (Suc n) qs ws nm True a msg sent ret st =
      send_loop n (\<lambda>i. qs (Suc i)) ws nm True a (drop cnt msg) (sent + cnt) 0 (snd s)"
    unfolding s_def
    by (rule send_step [OF e ne(1) room_space [OF inv(1)] ne(2) _ w]) (use s in \<open>simp_all add: cnt_def st1_def p'_def s_def\<close>)
  then show thesis
    by (rule that [OF cnt(3,1)]) (use s(2) eps1 c' in \<open>simp_all add: s_def p'_def\<close>)
qed

lemma send_loop_completes:
  assumes "eps st a = Some e" "ep_state e = SCIFEP_CONNECTED" "qp e = Some p"
    and "chan_inv k (link p r)" "pending (link p r) = []" "up st" "notify_up up a qs" "\<And>i. makes_room k up a (ws i)"
    and "2 * length msg < n"
  shows "\<exists>p' r' j st'. send_loop n qs ws nm True a msg sent 0 st = Some (0, sent + length msg, st') \<and>
    eps st' a = Some (e\<lparr>qp := Some p'\<rparr>) \<and> chan_inv k (link p' r') \<and> pending (link p' r') = [] \<and>
    unread (link p' r') = drop j (unread (link p r) @ msg)"
  using assms
proof (induction "length msg" arbitrary: msg n st e p r qs ws sent rule: less_induct)
  case less
  obtain n' where n: "n = Suc n'" using less.prems(9) by (cases n) auto
  have progress: "\<exists>p' r' j st'. send_loop (Suc m) qs ws' nm True a msg sent 0 s = Some (0, sent + length msg, st') \<and>
      eps st' a = Some (e'\<lparr>qp := Some p'\<rparr>) \<and> chan_inv k (link p' r') \<and> pending (link p' r') = [] \<and>
      unread (link p' r') = drop j (unread (link q r0) @ msg)"
    if ne: "msg \<noteq> []" and q: "eps s a = Some e'" "ep_state e' = SCIFEP_CONNECTED" "qp e' = Some q"
      "chan_inv k (link q r0)" "pending (link q r0) = []" "room k (link q r0) \<noteq> 0" "up s"
      "2 * length msg < m + 2" "\<And>i. makes_room k up a (ws' i)" for m ws' s e' q r0
  proof -
    obtain p' st' cnt where st: "0 < cnt" "cnt \<le> length msg"
      "send_loop (Suc m) qs ws' nm True a msg sent 0 s =
        send_loop m (\<lambda>i. qs (Suc i)) ws' nm True a (drop cnt msg) (sent + cnt) 0 st'"
      "eps st' = (eps s)(a \<mapsto> e'\<lparr>qp := Some p'\<rparr>)" "up st'" "chan_inv k (link p' r0)" "pending (link p' r0) = []"
      "unread (link p' r0) = unread (link q r0) @ take cnt msg"
      by (rule send_blocking_step [OF q(1-5,7) less.prems(7) ne q(6)])
    have qs: "notify_up up a (\<lambda>i. qs (Suc i))" using less.prems(7) by (simp add: notify_up_def)
    have e1: "eps st' a = Some (e'\<lparr>qp := Some p'\<rparr>)" "ep_state (e'\<lparr>qp := Some p'\<rparr>) = SCIFEP_CONNECTED"
      "qp (e'\<lparr>qp := Some p'\<rparr>) = Some p'" using st(4) q(2) by simp_all
    have len: "length (drop cnt msg) < length msg" "2 * length (drop cnt msg) < m" using st(1,2) q(8) by auto
    obtain p2 r2 j st2 where h: "send_loop m (\<lambda>i. qs (Suc i)) ws' nm True a (drop cnt msg) (sent + cnt) 0 st' =
        Some (0, sent + cnt + length (drop cnt msg), st2)"
      "eps st2 a = Some (e'\<lparr>qp := Some p', qp := Some p2\<rparr>)" "chan_inv k (link p2 r2)" "pending (link p2 r2) = []"
      "unread (link p2 r2) = drop j (unread (link p' r0) @ drop cnt msg)"
      using less.hyps [OF len(1) e1 st(6,7,5) qs q(9) len(2), of "\<lambda>i. i" "sent + cnt"] by blast
    have "unread (link p2 r2) = drop j (unread (link q r0) @ msg)" using h(5) st(8) by simp
    then show ?thesis using h(1-4) st(2,3)
      by (intro exI [of _ p2] exI [of _ r2] exI [of _ j] exI [of _ st2]) simp
  qed
  show ?case
  proof (cases "msg = []")
    case True
    have "e\<lparr>qp := Some p\<rparr> = e" using less.prems(3) by simp
    with True show ?thesis
      using send_stop [OF less.prems(1-3), of msg True n'] less.prems(1,4,5) n
      by (intro exI [of _ p] exI [of _ r] exI [of _ 0] exI [of _ st]) simp
  next
    case False
    show ?thesis
    proof (cases "room k (link p r) = 0")
      case nz: False
      from progress [OF False less.prems(1-5) nz less.prems(6) _ less.prems(8), of n'] less.prems(9) n show ?thesis by simp
    next
      case True
      obtain m where m: "n' = Suc m" using less.prems(9) n False by (cases n'; cases msg) auto
      have w: "\<not> fst (ws 0)" using less.prems(8) [of 0] by (simp add: makes_room_def)
      have "\<exists>p' r' j. eps (snd (ws 0) st) a = Some (e\<lparr>qp := Some p'\<rparr>) \<and> up (snd (ws 0) st) \<and> chan_inv k (link p' r') \<and>
          pending (link p' r') = [] \<and> room k (link p' r') \<noteq> 0 \<and> unread (link p' r') = drop j (unread (link p r))"
        using less.prems(8) [of 0, unfolded makes_room_def] less.prems(1,3-6) by blast
      then obtain q r0 j0 where q: "eps (snd (ws 0) st) a = Some (e\<lparr>qp := Some q\<rparr>)" "up (snd (ws 0) st)" "chan_inv k (link q r0)"
        "pending (link q r0) = []" "room k (link q r0) \<noteq> 0" "unread (link q r0) = drop j0 (unread (link p r))" by blast
      have step: "send_loop n qs ws nm True a msg sent 0 st =
          send_loop (Suc m) qs (\<lambda>i. ws (Suc i)) nm True a msg sent 0 (snd (ws 0) st)"
        using send_wait [where ws = ws and n = n', OF less.prems(1-3) False _ w] room_space [OF less.prems(4)] True n m by simp
      obtain p2 r2 j st2 where h: "send_loop (Suc m) qs (\<lambda>i. ws (Suc i)) nm True a msg sent 0 (snd (ws 0) st) =
          Some (0, sent + length msg, st2)" "eps st2 a = Some (e\<lparr>qp := Some q, qp := Some p2\<rparr>)" "chan_inv k (link p2 r2)"
        "pending (link p2 r2) = []" "unread (link p2 r2) = drop j (unread (link q r0) @ msg)"
        using progress [OF False q(1) _ _ q(3,4,5,2), of m "\<lambda>i. ws (Suc i)"] less.prems(2,8,9) n m by auto
      obtain i where "drop j (unread (link q r0) @ msg) = drop i (unread (link p r) @ msg)"
        using drop_again [of j j0 "unread (link p r)" msg] unfolding q(6) by blast
      with h step show ?thesis by (intro exI [of _ p2] exI [of _ r2] exI [of _ i] exI [of _ st2]) simp
    qed
  qed
qed

lemma xfer_run_append:
  "xfer_run envA envB a b (xs @ ys) s = Option.bind (xfer_run envA envB a b xs s) (xfer_run envA envB a b ys)"
proof (induction xs arbitrary: s)
  case (Cons x xs)
  obtain sent got sA sB where s: "s = (sent, got, sA, sB)" by (cases s)
  show ?case by (cases x) (simp_all add: s Cons split: option.split)
qed simp

lemma linked_bound: "linked k a b sA sB bytes \<Longrightarrow> length bytes < 2 ^ k"
  by (auto simp: linked_def chan_inv_def)

text \<open>The connection of an endpoint to its own node is up.\<close>

definition loop_ep_up :: "u64 \<Rightarrow> scif_node \<Rightarrow> bool" where
  "loop_ep_up a st \<longleftrightarrow> nodeid st = 0 \<and> dev_node (devs st 0) = 0 \<and> (\<exists>e. eps st a = Some e \<and> remote_dev e = Some 0)"

lemma loop_notify_up: "notify_up (loop_ep_up a) a (\<lambda>_. idle_env)"
  unfolding notify_up_def loop_ep_up_def
proof (intro conjI allI impI)
  fix st :: scif_node and e i m
  assume up: "nodeid st = 0 \<and> dev_node (devs st 0) = 0 \<and> (\<exists>e. eps st a = Some e \<and> remote_dev e = Some 0)" and e: "eps st a = Some e"
  then have send: "ep_raw_send idle_env e m st = (0, st\<lparr>loopb_wq := loopb_wq st @ [m]\<rparr>)"
    by (auto simp: ep_raw_send_def raw_nodeqp_send_def scifdev_self_def scif_loopback_nodeqp_send_def idle_env_def)
  show "fst (ep_raw_send idle_env e m st) = 0" "nodeid (snd (ep_raw_send idle_env e m st)) = 0"
    "dev_node (devs (snd (ep_raw_send idle_env e m st)) 0) = 0"
    "\<exists>e'. eps (snd (ep_raw_send idle_env e m st)) a = Some e' \<and> remote_dev e' = Some 0"
    using up e by (simp_all add: send)
next
  fix st :: scif_node and f
  assume up: "nodeid st = 0 \<and> dev_node (devs st 0) = 0 \<and> (\<exists>e. eps st a = Some e \<and> remote_dev e = Some 0)"
  then obtain e where e: "eps st a = Some e" "remote_dev e = Some 0" by blast
  show "nodeid (ep_upd a (\<lambda>e. e\<lparr>qp := f e\<rparr>) st) = 0" "dev_node (devs (ep_upd a (\<lambda>e. e\<lparr>qp := f e\<rparr>) st) 0) = 0"
    "\<exists>e'. eps (ep_upd a (\<lambda>e. e\<lparr>qp := f e\<rparr>) st) a = Some e' \<and> remote_dev e' = Some 0"
    using up e by (simp_all add: ep_upd_def)
qed

section \<open>Properties\<close>


lemma none_unread: "unread_len c = 0 \<Longrightarrow> unread c = []"
  by (simp flip: length_unread)

lemma none_pending: "pending_len c = 0 \<Longrightarrow> pending c = []"
  by (simp flip: length_pending)

text \<open>Two endpoints 0x100 and 0x200, each on a node of its own, after the handshake.\<close>

definition example_sender :: scif_node where
  "example_sender = scif_init_state\<lparr>eps := [0x100 \<mapsto> zero_ep\<lparr>ep_state := SCIFEP_CONNECTED, remote_dev := Some 0,
     qp := Some (new_qp\<lparr>outbound_q := tx (rb_setup 12), outbound_mem := mem (rb_setup 12)\<rparr>)\<rparr>]\<rparr>"

definition example_receiver :: scif_node where
  "example_receiver = scif_init_state\<lparr>eps := [0x200 \<mapsto> zero_ep\<lparr>ep_state := SCIFEP_CONNECTED, remote_dev := Some 0,
     qp := Some (new_qp\<lparr>inbound_q := rx (rb_setup 12), inbound_mem := mem (rb_setup 12)\<rparr>)\<rparr>]\<rparr>"

definition example_xfer_env :: xfer_env where
  "example_xfer_env = \<lparr>xf_qs = (\<lambda>_. idle_env), xf_ws = (\<lambda>_. (False, \<lambda>s. s)), xf_nm = example_msg\<rparr>"

lemma example_up: "loop_ep_up 0x100 example_sender" "loop_ep_up 0x200 example_receiver"
  by (simp_all add: loop_ep_up_def example_sender_def example_receiver_def scif_init_state_def
      scif_setup_scifdev_def zero_dev_def)


text \<open>
  C9: a blocking send completes. While the peer keeps taking bytes, each wait ends with room in
  the ring, the connection stays up and no signal arrives: then \<open>scif_send\<close> of any message returns
  its full length after at most twice as many rounds of its loop as there are bytes, and the
  whole message is in the stream behind the bytes that were there, less what the peer has taken.
\<close>

theorem blocking_send_completes:
  assumes "eps st a = Some e" "ep_state e = SCIFEP_CONNECTED" "qp e = Some p" "remote_dev e = Some d" "msg \<noteq> []"
    and "chan_inv k (link p r)" "pending (link p r) = []" "up st" "notify_up up a qs" "\<And>i. makes_room k up a (ws i)"
    and "2 * length msg < n"
  shows "\<exists>p' r' j st'. scif_send n qs ws nm a msg (int (length msg)) SCIF_SEND_BLOCK st = Some (int (length msg), st') \<and>
    eps st' a = Some (e\<lparr>qp := Some p'\<rparr>) \<and> chan_inv k (link p' r') \<and> pending (link p' r') = [] \<and>
    unread (link p' r') = drop j (unread (link p r) @ msg)"
proof -
  obtain p' r' j st' where l: "send_loop n qs ws nm True a msg 0 0 st = Some (0, length msg, st')"
    "eps st' a = Some (e\<lparr>qp := Some p'\<rparr>)" "chan_inv k (link p' r')" "pending (link p' r') = []"
    "unread (link p' r') = drop j (unread (link p r) @ msg)"
    using send_loop_completes [where sent = 0 and nm = nm and ws = ws, OF assms(1-3,6-11)] by auto
  have "scif_send n qs ws nm a msg (int (length msg)) SCIF_SEND_BLOCK st = Some (int (length msg), st')"
    using assms(1,4,5) l(1) by (simp add: scif_send_def raw_scif_send_def scif_msg_param_check_def xfer_result_def)
  with l(2-5) show ?thesis by blast
qed

text \<open>A peer that empties the ring.\<close>

definition empty_ring :: "u64 \<Rightarrow> bool \<times> (scif_node \<Rightarrow> scif_node)" where
  "empty_ring a = (False, \<lambda>st. ep_upd a (\<lambda>e. e\<lparr>qp := map_option (\<lambda>p. p\<lparr>outbound_mem :=
     (outbound_mem p)\<lparr>read_ptr := write_ptr (outbound_mem p)\<rparr>\<rparr>) (qp e)\<rparr>) st)"

lemma empty_ring_makes_room: "makes_room 12 (loop_ep_up a) a (empty_ring a)"
  unfolding makes_room_def
proof (intro conjI allI impI)
  fix st e p r
  assume up: "loop_ep_up a st" and e: "eps st a = Some e" "qp e = Some p"
    and inv: "chan_inv 12 (link p r)" "pending (link p r) = []"
  let ?p = "p\<lparr>outbound_mem := (outbound_mem p)\<lparr>read_ptr := write_ptr (outbound_mem p)\<rparr>\<rparr>"
  let ?r = "r\<lparr>current_read_offset := write_ptr (outbound_mem p)\<rparr>" and ?c = "link p r"
  have pl: "pending_len ?c = 0" using arg_cong [OF inv(2), of length] by simp
  have lens: "held (link ?p ?r) = 0" "unread_len (link ?p ?r) = 0" "pending_len (link ?p ?r) = 0"
    using inv(1) pl by (simp_all add: chan_inv_def held_def unread_len_def pending_len_def chan_size_def link_def)
  have c: "chan_inv 12 (link ?p ?r)"
    using inv(1) lens by (simp add: chan_inv_def chan_size_def link_def)
  moreover have "pending (link ?p ?r) = []" "unread (link ?p ?r) = drop (unread_len ?c) (unread ?c)" "room 12 (link ?p ?r) \<noteq> 0"
    using lens none_pending [OF lens(3)] none_unread [OF lens(2)] by (simp_all add: room_def)
  moreover have "eps (snd (empty_ring a) st) a = Some (e\<lparr>qp := Some ?p\<rparr>)"
    using e by (simp add: empty_ring_def ep_upd_eps)
  moreover have "loop_ep_up a (snd (empty_ring a) st)"
    using up loop_notify_up [of a] by (simp add: empty_ring_def notify_up_def)
  ultimately show "\<exists>p' r' j. eps (snd (empty_ring a) st) a = Some (e\<lparr>qp := Some p'\<rparr>) \<and> loop_ep_up a (snd (empty_ring a) st) \<and>
      chan_inv 12 (link p' r') \<and> pending (link p' r') = [] \<and> room 12 (link p' r') \<noteq> 0 \<and> unread (link p' r') = drop j (unread ?c)"
    by (intro exI [of _ ?p] exI [of _ ?r] exI [of _ "unread_len ?c"]) simp
qed (simp add: empty_ring_def)

theorem blocking_send_completes_witness:
  "\<exists>st'. scif_send 20000 (\<lambda>_. idle_env) (\<lambda>_. empty_ring 0x100) example_msg 0x100 (replicate 9000 7) 9000 SCIF_SEND_BLOCK
     example_sender = Some (9000, st')"
proof -
  let ?p = "new_qp\<lparr>outbound_q := tx (rb_setup 12), outbound_mem := mem (rb_setup 12)\<rparr>"
  let ?e = "zero_ep\<lparr>ep_state := SCIFEP_CONNECTED, remote_dev := Some 0, qp := Some ?p\<rparr>"
  have l: "link ?p (rx (rb_setup 12)) = rb_setup 12" by (simp add: link_def)
  have inv: "chan_inv 12 (link ?p (rx (rb_setup 12)))" "pending (link ?p (rx (rb_setup 12))) = []"
    using rb_setup_inv [of 12] rb_setup_empty(2) [of 12] by (simp_all add: l)
  have e: "eps example_sender 0x100 = Some ?e" "ep_state ?e = SCIFEP_CONNECTED" "qp ?e = Some ?p" "remote_dev ?e = Some 0"
    by (simp_all add: example_sender_def)
  have "2 * length (replicate 9000 (7 :: u8)) < 20000" "replicate 9000 (7 :: u8) \<noteq> []" by simp_all
  from blocking_send_completes [OF e this(2) inv example_up(1) loop_notify_up empty_ring_makes_room this(1), of example_msg]
  show ?thesis by auto
qed

text \<open>
  C27: data survives the end of a connection. On a disconnected endpoint \<open>scif_recv\<close>, blocking or
  not, returns the bytes that are still in the ring, in order, without touching the memory of the
  peer; when there are none left it returns \<open>-ECONNRESET\<close>.
\<close>

theorem recv_after_disconnect:
  assumes "eps st a = Some e" "ep_state e = SCIFEP_DISCONNECTED" "qp e = Some p" "chan_inv k (rlink t p)" "0 < len"
    and "flags = 0 \<or> flags = SCIF_RECV_BLOCK"
  shows "\<exists>p' st'. scif_recv 2 qs ws nm a (int len) flags st =
      Some (if unread (rlink t p) = [] then - ECONNRESET else int (min len (length (unread (rlink t p)))),
            take len (unread (rlink t p)), st') \<and>
    eps st' a = Some (e\<lparr>qp := Some p'\<rparr>) \<and> inbound_mem p' = inbound_mem p \<and>
    unread (rlink t p') = drop len (unread (rlink t p)) \<and> loopb_wq st' = loopb_wq st \<and> devs st' = devs st"
proof -
  let ?u = "unread (rlink t p)" and ?b = "flags AND SCIF_RECV_BLOCK \<noteq> 0"
  have chk: "scif_msg_param_check (int len) flags = 0" using assms(5,6) by (auto simp: scif_msg_param_check_def)
  have run: "scif_recv 2 qs ws nm a (int len) flags st =
      map_option (\<lambda>(ret, got, st'). (xfer_result (length got) ret a st', got, st')) (recv_loop (Suc (Suc 0)) qs ws nm ?b a len [] 0 st)"
    using assms(5) chk by (simp add: scif_recv_def raw_scif_recv_def numeral_2_eq_2)
  show ?thesis
  proof (cases "unread_len (rlink t p) = 0")
    case True
    then have u: "?u = []" by (rule none_unread)
    have "recv_loop (Suc (Suc 0)) qs ws nm ?b a len [] 0 st = Some (0, [], st)"
      using recv_stop [OF assms(1) _ assms(3), of ?b len] count_unread [OF assms(4)] True assms(2) by simp
    with run u assms(1-3) show ?thesis
      by (intro exI [of _ p] exI [of _ st]) (simp add: xfer_result_def ep_in_def)
  next
    case False
    define cnt where "cnt = min len (unread_len (rlink t p))"
    have cnt: "cnt \<le> unread_len (rlink t p)" "cnt \<noteq> 0" using False assms(5) by (auto simp: cnt_def)
    obtain rb where w: "scif_rb_get_next (inbound_q p) (inbound_mem p) (of_nat cnt) = Some (of_nat cnt, take cnt ?u, rb)"
      "chan_inv k (rlink t (p\<lparr>inbound_q := rb\<rparr>))" "unread (rlink t (p\<lparr>inbound_q := rb\<rparr>)) = drop cnt ?u"
      by (rule ring_recv [OF assms(4) cnt(1)])
    define p' where "p' = p\<lparr>inbound_q := rb\<rparr>"
    define st' where "st' = ep_upd a (\<lambda>e. e\<lparr>qp := Some p'\<rparr>) st"
    have e': "eps st' a = Some (e\<lparr>qp := Some p'\<rparr>)" by (simp add: st'_def ep_upd_eps [OF assms(1)])
    have "unread_len (rlink t p') = unread_len (rlink t p) - cnt"
      using arg_cong [OF w(3), of length] by (simp add: p'_def)
    then have "len - cnt = 0 \<or> unat (scif_rb_count (inbound_q p') (inbound_mem p')) = 0"
      using count_unread [OF w(2) [folded p'_def]] by (auto simp: cnt_def)
    from recv_stop [OF e' _ _ this, of ?b 0 qs ws nm "take cnt ?u" 0] assms(2)
    have stop: "recv_loop (Suc 0) qs ws nm ?b a (len - cnt) (take cnt ?u) 0 st' = Some (0, take cnt ?u, st')" by simp
    have "recv_loop (Suc (Suc 0)) qs ws nm ?b a len [] 0 st = Some (0, take cnt ?u, st')"
      using recv_step_disconnected [OF assms(1-3) _ count_unread [OF assms(4)] False cnt_def w(1), of "Suc 0" qs ws nm ?b "[]" 0]
        stop assms(5) by (simp add: st'_def p'_def)
    moreover have "?u \<noteq> []" using False length_unread [of "rlink t p"] by fastforce
    moreover have "take cnt ?u = take len ?u" "drop cnt ?u = drop len ?u" "length (take cnt ?u) = cnt"
      using cnt(1) by (auto simp: cnt_def min_def)
    moreover have "cnt = min len (length ?u)" by (simp add: cnt_def)
    ultimately show ?thesis using run e' w(3) cnt(2)
      by (intro exI [of _ p'] exI [of _ st']) (simp add: xfer_result_def p'_def st'_def ep_upd_def assms(1))
  qed
qed

theorem recv_after_disconnect_witness:
  "\<exists>st'. scif_recv 2 (\<lambda>_. idle_env) (\<lambda>_. (False, \<lambda>s. s)) example_msg 0x200 16 0
     (set_state 0x200 SCIFEP_DISCONNECTED example_receiver) = Some (- ECONNRESET, [], st')"
proof -
  let ?p = "new_qp\<lparr>inbound_q := rx (rb_setup 12), inbound_mem := mem (rb_setup 12)\<rparr>"
  let ?e = "zero_ep\<lparr>ep_state := SCIFEP_DISCONNECTED, remote_dev := Some 0, qp := Some ?p\<rparr>"
  have l: "rlink (tx (rb_setup 12)) ?p = rb_setup 12" by (simp add: rlink_def)
  have inv: "chan_inv 12 (rlink (tx (rb_setup 12)) ?p)" "unread (rlink (tx (rb_setup 12)) ?p) = []"
    using rb_setup_inv [of 12] rb_setup_empty(1) [of 12] by (simp_all add: l)
  have e: "eps (set_state 0x200 SCIFEP_DISCONNECTED example_receiver) 0x200 = Some ?e" "ep_state ?e = SCIFEP_DISCONNECTED" "qp ?e = Some ?p"
    by (simp_all add: set_state_def ep_upd_def example_receiver_def)
  from recv_after_disconnect [OF e inv(1), of 16 0 "\<lambda>_. idle_env" "\<lambda>_. (False, \<lambda>s. s)" example_msg] inv(2)
  show ?thesis by auto
qed

end
