(* ===== verification/Scif_Conn.thy ===== *)
theory Scif_Conn
  imports Scif_Stream
begin

text \<open>
  Connections as a whole. The first part follows the four messages of a connection through the
  functions of both nodes and shows that \<open>scif_connect\<close> and \<open>scif_accept\<close> together leave two
  connected endpoints that know each other and share two empty rings. The second part describes
  the results of the interface in every state of an endpoint, the third the steps of a node under
  any interleaving of its threads and handlers, with the invariants that hold in every state.
\<close>

section \<open>Room on the link to a node\<close>

lemma ep_upd_fault: "eps st a = Some e \<Longrightarrow> fault (ep_upd a f st) = fault st"
  by (simp add: ep_upd_def)

lemma put_peer_refs: "peer_refs (devs (scif_put_peer_dev True d st) b) = peer_refs (devs st b) - (if b = d then 1 else 0)"
  by (simp add: scif_put_peer_dev_def dev_upd_def)

lemma ep_upd_frame [simp]:
  "nodeid (ep_upd a f st) = nodeid st" "maxid (ep_upd a f st) = maxid st" "total (ep_upd a f st) = total st"
  "nr_zombies (ep_upd a f st) = nr_zombies st" "ports (ep_upd a f st) = ports st"
  "uaccept (ep_upd a f st) = uaccept st" "listen (ep_upd a f st) = listen st" "zombie (ep_upd a f st) = zombie st"
  "connected (ep_upd a f st) = connected st" "disconnected (ep_upd a f st) = disconnected st"
  "nb_connect_list (ep_upd a f st) = nb_connect_list st" "p2p_enable (ep_upd a f st) = p2p_enable st"
  "card_initiated_exit (ep_upd a f st) = card_initiated_exit st" "rma_free (ep_upd a f st) = rma_free st"
  "rma_tc (ep_upd a f st) = rma_tc st" "mmu_notif_cleanup (ep_upd a f st) = mmu_notif_cleanup st"
  "fence (ep_upd a f st) = fence st" "rma_tc_limit (ep_upd a f st) = rma_tc_limit st"
  "loopb_wq (ep_upd a f st) = loopb_wq st" "devs (ep_upd a f st) = devs st" "wins (ep_upd a f st) = wins st"
  "pins (ep_upd a f st) = pins st" "mmns (ep_upd a f st) = mmns st" "pinned_vm (ep_upd a f st) = pinned_vm st"
  "live (ep_upd a f st) = live st"
  by (simp_all add: ep_upd_def split: option.split)

lemma kzalloc_frame [simp]:
  "nodeid (kzalloc p st) = nodeid st" "maxid (kzalloc p st) = maxid st" "total (kzalloc p st) = total st"
  "nr_zombies (kzalloc p st) = nr_zombies st" "ports (kzalloc p st) = ports st" "uaccept (kzalloc p st) = uaccept st"
  "listen (kzalloc p st) = listen st" "zombie (kzalloc p st) = zombie st" "connected (kzalloc p st) = connected st"
  "disconnected (kzalloc p st) = disconnected st" "nb_connect_list (kzalloc p st) = nb_connect_list st"
  "p2p_enable (kzalloc p st) = p2p_enable st" "card_initiated_exit (kzalloc p st) = card_initiated_exit st"
  "rma_free (kzalloc p st) = rma_free st" "rma_tc (kzalloc p st) = rma_tc st"
  "mmu_notif_cleanup (kzalloc p st) = mmu_notif_cleanup st" "fence (kzalloc p st) = fence st"
  "rma_tc_limit (kzalloc p st) = rma_tc_limit st" "loopb_wq (kzalloc p st) = loopb_wq st"
  "devs (kzalloc p st) = devs st" "eps (kzalloc p st) = eps st" "wins (kzalloc p st) = wins st"
  "pins (kzalloc p st) = pins st" "mmns (kzalloc p st) = mmns st" "pinned_vm (kzalloc p st) = pinned_vm st"
  "fault (kzalloc p st) = fault st"
  by (simp_all add: kzalloc_def)

lemma kfree_frame [simp]:
  "nodeid (kfree p st) = nodeid st" "maxid (kfree p st) = maxid st" "total (kfree p st) = total st"
  "nr_zombies (kfree p st) = nr_zombies st" "ports (kfree p st) = ports st" "uaccept (kfree p st) = uaccept st"
  "listen (kfree p st) = listen st" "zombie (kfree p st) = zombie st" "connected (kfree p st) = connected st"
  "disconnected (kfree p st) = disconnected st" "nb_connect_list (kfree p st) = nb_connect_list st"
  "p2p_enable (kfree p st) = p2p_enable st" "card_initiated_exit (kfree p st) = card_initiated_exit st"
  "rma_free (kfree p st) = rma_free st" "rma_tc (kfree p st) = rma_tc st"
  "mmu_notif_cleanup (kfree p st) = mmu_notif_cleanup st" "fence (kfree p st) = fence st"
  "rma_tc_limit (kfree p st) = rma_tc_limit st" "loopb_wq (kfree p st) = loopb_wq st" "devs (kfree p st) = devs st"
  "eps (kfree p st) = eps st" "wins (kfree p st) = wins st" "pins (kfree p st) = pins st"
  "mmns (kfree p st) = mmns st" "pinned_vm (kfree p st) = pinned_vm st"
  by (simp_all add: kfree_def)

text \<open>
  The link to node \<open>d\<close> is up, holds the messages \<open>ms\<close>, and has room for \<open>n\<close> more.
\<close>

definition net :: "u16 \<Rightarrow> scifmsg list \<Rightarrow> nat \<Rightarrow> scif_node \<Rightarrow> bool" where
  "net d ms n st \<longleftrightarrow> peer_dev (devs st d) \<and> \<not> scifdev_self d st \<and>
     (\<exists>p r k. qpairs (devs st d) = Some p \<and> chan_inv k (link p r) \<and> queued ms (link p r) \<and>
        held (link p r) + MSG_SIZE * (length ms + n) < 2 ^ k)"

lemma length_queue [simp]: "length (concat (map msg_bytes ms)) = MSG_SIZE * length ms"
  by (induction ms) auto

lemma net_write:
  assumes inv: "chan_inv k (link p r)" and q: "queued ms (link p r)"
    and room: "held (link p r) + MSG_SIZE * Suc (length ms) < 2 ^ k"
  obtains t m where "nodeqp_write reads n (outbound_q p) (outbound_mem p) (msg_bytes msg) = Some (0, t, m)"
    "chan_inv k (link (p\<lparr>outbound_q := t, outbound_mem := scif_rb_commit t m\<rparr>) r)"
    "queued (ms @ [msg]) (link (p\<lparr>outbound_q := t, outbound_mem := scif_rb_commit t m\<rparr>) r)"
    "held (link (p\<lparr>outbound_q := t, outbound_mem := scif_rb_commit t m\<rparr>) r) = held (link p r)"
proof -
  let ?c = "link p r"
  have len: "unread_len ?c = MSG_SIZE * length ms" "pending_len ?c = 0"
    using q length_unread [of ?c] length_pending [of ?c] by (simp_all add: queued_def)
  have sz: "unat (of_nat MSG_SIZE :: u32) = MSG_SIZE" by simp
  have fits: "held ?c + unread_len ?c + pending_len ?c + unat (of_nat MSG_SIZE :: u32) < 2 ^ k"
    using room len by simp
  obtain t m where w: "scif_rb_write (tx ?c) (mem ?c) (msg_bytes msg) (of_nat MSG_SIZE) = Some (0, t, m)"
    "chan_inv k (?c\<lparr>tx := t, mem := m\<rparr>)" "held (?c\<lparr>tx := t, mem := m\<rparr>) = held ?c"
    "unread (?c\<lparr>tx := t, mem := m\<rparr>) = unread ?c"
    "pending (?c\<lparr>tx := t, mem := m\<rparr>) = pending ?c @ take (unat (of_nat MSG_SIZE :: u32)) (msg_bytes msg)"
    by (rule scif_rb_write_chan [OF inv fits, of "msg_bytes msg"]) auto
  have e: "link (p\<lparr>outbound_q := t, outbound_mem := scif_rb_commit t m\<rparr>) r =
      (?c\<lparr>tx := t, mem := m\<rparr>)\<lparr>mem := scif_rb_commit (tx (?c\<lparr>tx := t, mem := m\<rparr>)) (mem (?c\<lparr>tx := t, mem := m\<rparr>))\<rparr>"
    by (simp add: link_def)
  have "nodeqp_write reads n (outbound_q p) (outbound_mem p) (msg_bytes msg) = Some (0, t, m)"
    using w(1) by (simp add: nodeqp_write.simps link_def)
  then show thesis
    using that [of t m] scif_rb_commit_chan [OF w(2)] w(3-5) q by (simp add: e queued_def)
qed

lemma net_send:
  assumes "net d ms (Suc n) st"
  obtains st' where "raw_nodeqp_send q d msg st = (0, st')" "net d (ms @ [msg]) n st'"
    "fault st' = fault st" "\<And>b. peer_refs (devs st' b) = peer_refs (devs st b)"
    "eps st' = eps st" "connected st' = connected st" "ports st' = ports st" "listen st' = listen st"
proof -
  from assms obtain p r k where p: "peer_dev (devs st d)" "\<not> scifdev_self d st" "qpairs (devs st d) = Some p"
    "chan_inv k (link p r)" "queued ms (link p r)" "held (link p r) + MSG_SIZE * (length ms + Suc n) < 2 ^ k"
    by (auto simp: net_def)
  from p(6) have room: "held (link p r) + MSG_SIZE * Suc (length ms) < 2 ^ k" by simp
  obtain t m where w: "nodeqp_write (peer_reads q) (Suc NODEQP_DELAY_LOOPS) (outbound_q p) (outbound_mem p) (msg_bytes msg) = Some (0, t, m)"
    "chan_inv k (link (p\<lparr>outbound_q := t, outbound_mem := scif_rb_commit t m\<rparr>) r)"
    "queued (ms @ [msg]) (link (p\<lparr>outbound_q := t, outbound_mem := scif_rb_commit t m\<rparr>) r)"
    "held (link (p\<lparr>outbound_q := t, outbound_mem := scif_rb_commit t m\<rparr>) r) = held (link p r)"
    by (rule net_write [OF p(4,5) room])
  let ?p = "p\<lparr>outbound_q := t, outbound_mem := scif_rb_commit t m\<rparr>"
  let ?st = "dev_upd d (\<lambda>v. v\<lparr>qpairs := Some ?p, intrs := Suc (intrs v)\<rparr>) st"
  have "raw_nodeqp_send q d msg st = (0, ?st)" using p(2,3) w(1) by (simp add: raw_nodeqp_send_def)
  moreover have "net d (ms @ [msg]) n ?st"
    unfolding net_def using p(1,2,6) w(2-4)
    by (auto simp: dev_upd_def scifdev_self_def intro!: exI [of _ ?p] exI [of _ r] exI [of _ k])
  ultimately show thesis by (rule that) (simp_all add: dev_upd_def)
qed

lemma net_less: "net d ms n st \<Longrightarrow> m \<le> n \<Longrightarrow> net d ms m st"
  unfolding net_def by (meson add_left_mono le_less_trans mult_le_mono2)

lemma net_dev_upd:
  "(\<And>v. qpairs (f v) = qpairs v \<and> peer_dev (f v) = peer_dev v \<and> dev_node (f v) = dev_node v) \<Longrightarrow>
   net d ms n (dev_upd b f st) = net d ms n st"
  by (simp add: net_def scifdev_self_def dev_upd_def)

lemma net_simps [simp]:
  "net d ms n (ep_upd a f st) = net d ms n st" "net d ms n (kzalloc p st) = net d ms n st"
  "net d ms n (st\<lparr>connected := xs\<rparr>) = net d ms n st" "net d ms n (st\<lparr>eps := E\<rparr>) = net d ms n st"
  "net d ms n (st\<lparr>ports := P\<rparr>) = net d ms n st" "net d ms n (scif_put_peer_dev b c st) = net d ms n st"
  "net d ms n (snd (scif_get_peer_dev c st)) = net d ms n st"
  by (simp_all add: net_def scifdev_self_def kzalloc_def scif_put_peer_dev_def scif_get_peer_dev_def dev_upd_def)

text \<open>A node has a DMA channel for the connection to \<open>d\<close>.\<close>

definition dma_ready :: "u16 \<Rightarrow> scif_node \<Rightarrow> bool" where
  "dma_ready d st \<longleftrightarrow> num_dma_ch (devs st (if nodeid st \<noteq> 0 then 0 else d)) > 0"

lemma reserve_ok:
  assumes "eps st a = Some e" "remote_dev e = Some d" "dma_ready d st" "\<not> scifdev_self d st"
  obtains st' r where "scif_reserve_dma_chan a st = (0, st')" "eps st' = (eps st)(a \<mapsto> e\<lparr>rma_info := r\<rparr>)"
    "\<And>ms n. net d ms n st' = net d ms n st" "connected st' = connected st" "fault st' = fault st" "ports st' = ports st"
    "\<And>b. peer_refs (devs st' b) = peer_refs (devs st b)" "live st' = live st" "listen st' = listen st"
proof -
  let ?sd = "if nodeid st \<noteq> 0 then 0 else d"
  let ?s = "dev_upd ?sd (\<lambda>v. v\<lparr>dma_ch_idx := (dma_ch_idx v + 1) mod num_dma_ch v\<rparr>) st"
  let ?st = "rma_upd a (\<lambda>r. r\<lparr>dma_chan := Some (dma_ch_idx (devs st ?sd))\<rparr>) ?s"
  have "num_dma_ch (devs st ?sd) \<noteq> 0" using assms(3) by (simp add: dma_ready_def)
  then have "scif_reserve_dma_chan a st = (0, ?st)"
    using assms(1,2,4) by (auto simp: scif_reserve_dma_chan_def Let_def)
  moreover have "eps ?st = (eps st)(a \<mapsto> e\<lparr>rma_info := (rma_info e)\<lparr>dma_chan := Some (dma_ch_idx (devs st ?sd))\<rparr>\<rparr>)"
    using assms(1) by (simp add: rma_upd_def ep_upd_def)
  moreover have "net d ms n ?st = net d ms n st" for ms n by (simp add: rma_upd_def net_dev_upd)
  ultimately show thesis
    by (rule that) (use assms(1) in \<open>simp_all add: rma_upd_def ep_upd_def dev_upd_def\<close>)
qed

section \<open>The queue pairs of the three steps\<close>

text \<open>The services of a step succeed.\<close>

definition maps_ok :: "qp_env \<Rightarrow> bool" where
  "maps_ok env \<longleftrightarrow> q_alloc env \<noteq> 0 \<and> map_buf env \<noteq> None \<and> map_qp env \<noteq> None"

definition remaps_ok :: "qp_env \<Rightarrow> bool" where
  "remaps_ok env \<longleftrightarrow> remap_qp env \<noteq> 0 \<and> remap_buf env \<noteq> 0"

definition conn_qp :: "qp_env \<Rightarrow> scif_qp" where
  "conn_qp env = fst (snd (snd (scif_setup_qp_connect env SCIF_ENDPT_QP_SIZE new_qp 0 scif_init_state)))"

definition acc_qp :: "qp_env \<Rightarrow> scif_qp" where
  "acc_qp env = fst (snd (snd (scif_setup_qp_accept env SCIF_ENDPT_QP_SIZE new_qp 0 scif_init_state)))"

definition acc_rqp :: "qp_env \<Rightarrow> scif_qp" where
  "acc_rqp env = fst (snd (snd (snd (scif_setup_qp_accept env SCIF_ENDPT_QP_SIZE new_qp 0 scif_init_state))))"

lemma connect_run:
  "maps_ok env \<Longrightarrow> scif_setup_qp_connect env SCIF_ENDPT_QP_SIZE new_qp off st =
     (0, the (map_qp env), conn_qp env, kzalloc (q_alloc env) st)"
  by (auto simp: maps_ok_def conn_qp_def scif_setup_qp_connect_def Let_def)

lemma conn_qp_magic: "maps_ok env \<Longrightarrow> magic (conn_qp env) = SCIFEP_MAGIC"
  using connect_ok(1) [OF connect_run] by blast

lemma accept_run:
  "maps_ok env \<Longrightarrow> remaps_ok env \<Longrightarrow> magic (rqp env) = SCIFEP_MAGIC \<Longrightarrow>
   scif_setup_qp_accept env SCIF_ENDPT_QP_SIZE new_qp off st =
     (0, the (map_qp env), acc_qp env, acc_rqp env, kzalloc (q_alloc env) st)"
  by (auto simp: maps_ok_def remaps_ok_def acc_qp_def acc_rqp_def scif_setup_qp_accept_def Let_def)

lemma acc_qp_magic: "maps_ok env \<Longrightarrow> remaps_ok env \<Longrightarrow> magic (rqp env) = SCIFEP_MAGIC \<Longrightarrow> magic (acc_qp env) = SCIFEP_MAGIC"
  using accept_ok(1) [OF accept_run] by blast

lemma response_run:
  "remaps_ok env \<Longrightarrow> magic (rqp env) = SCIFEP_MAGIC \<Longrightarrow> fst (scif_setup_qp_connect_response env p) = 0"
  by (simp add: remaps_ok_def scif_setup_qp_connect_response_def Let_def)

section \<open>The client\<close>

definition req_msg :: "conn_env \<Rightarrow> u64 \<Rightarrow> scif_endpt \<Rightarrow> scif_port_id \<Rightarrow> scifmsg" where
  "req_msg env a e dst = (cn_msg env)\<lparr>msg_src := ep_port e, msg_dst := dst, uop := SCIF_CNCT_REQ, payload0 := a,
     payload1 := the (map_qp (cn_qp env))\<rparr>"

lemma conn_request_ok:
  assumes e: "eps st a = Some e" "qp e = Some new_qp" "remote_dev e = Some d"
    and ok: "dma_ready d st" "net d ms (Suc n) st" "maps_ok (cn_qp env)"
  obtains st' r where "conn_request env a st = Inr (d, req_msg env a e (conn_port e), st')" "net d (ms @ [req_msg env a e (conn_port e)]) n st'"
    "eps st' = (eps st)(a \<mapsto> e\<lparr>rma_info := r, qp := Some (conn_qp (cn_qp env)), qp_offset := the (map_qp (cn_qp env))\<rparr>)"
    "connected st' = connected st" "fault st' = fault st"
    "\<And>b. peer_refs (devs st' b) = peer_refs (devs st b) + (if b = d then 1 else 0)"
proof -
  have "\<not> scifdev_self d st" using ok(2) by (simp add: net_def)
  then obtain st1 r where 1: "scif_reserve_dma_chan a st = (0, st1)" "eps st1 = (eps st)(a \<mapsto> e\<lparr>rma_info := r\<rparr>)"
    "\<And>ms n. net d ms n st1 = net d ms n st" "connected st1 = connected st" "fault st1 = fault st"
    "\<And>b. peer_refs (devs st1 b) = peer_refs (devs st b)"
    using reserve_ok [OF e(1,3) ok(1)] by metis
  let ?off = "the (map_qp (cn_qp env))"
  define st3 where "st3 = ep_upd a (\<lambda>e. e\<lparr>qp := Some (conn_qp (cn_qp env)), qp_offset := ?off\<rparr>) (kzalloc (q_alloc (cn_qp env)) st1)"
  have 3: "net d ms (Suc n) st3" "connected st3 = connected st" "fault st3 = fault st"
    "eps st3 = (eps st)(a \<mapsto> e\<lparr>rma_info := r, qp := Some (conn_qp (cn_qp env)), qp_offset := ?off\<rparr>)"
    "\<And>b. peer_refs (devs st3 b) = peer_refs (devs st b)"
    using ok(2) 1 e(1) by (simp_all add: st3_def ep_upd_def)
  have pd: "peer_dev (devs st3 d)" using 3(1) by (simp add: net_def)
  define st4 where "st4 = snd (scif_get_peer_dev d st3)"
  have 4: "scif_get_peer_dev d st3 = (True, st4)" "net d ms (Suc n) st4" "eps st4 = eps st3" "connected st4 = connected st3"
    "fault st4 = fault st3" "\<And>b. peer_refs (devs st4 b) = peer_refs (devs st3 b) + (if b = d then 1 else 0)"
    using pd 3(1) by (simp_all add: st4_def scif_get_peer_dev_def dev_upd_def net_dev_upd [unfolded dev_upd_def])
  obtain st5 where 5: "raw_nodeqp_send (cn_req env) d (req_msg env a e (conn_port e)) st4 = (0, st5)"
    "net d (ms @ [req_msg env a e (conn_port e)]) n st5" "fault st5 = fault st4"
    "\<And>b. peer_refs (devs st5 b) = peer_refs (devs st4 b)" "eps st5 = eps st4" "connected st5 = connected st4"
    using net_send [OF 4(2)] by metis
  have "conn_request env a st = Inr (d, req_msg env a e (conn_port e), st5)"
    using 1(1,2) e connect_run [OF ok(3)] 4(1) 5(1)
    by (simp add: conn_request_def req_msg_def st3_def Let_def)
  then show thesis using that 3 4 5 by metis
qed

definition ack_msg :: "scifmsg \<Rightarrow> u64 \<Rightarrow> scifmsg" where
  "ack_msg req rem = req\<lparr>uop := SCIF_CNCT_GNTACK, payload0 := rem\<rparr>"

lemma conn_finish_ok:
  assumes e: "eps st a = Some e" "ep_state e = SCIFEP_MAPPING" "qp e = Some p" "remote_dev e = Some d"
    and ok: "err \<noteq> 0" "net d ms (Suc n) st" "remaps_ok (cn_rqp env)" "magic (rqp (cn_rqp env)) = SCIFEP_MAGIC"
    and put: "\<And>r s. cn_put env r s = s"
  obtains st' where "conn_finish env a d msg err st = (0, st')" "net d (ms @ [ack_msg msg (remote_ep e)]) n st'"
    "eps st' = (eps st)(a \<mapsto> e\<lparr>qp := Some (fst (snd (scif_setup_qp_connect_response (cn_rqp env) p))),
       ep_state := SCIFEP_CONNECTED\<rparr>)"
    "connected st' = connected st @ [a]" "fault st' = fault st"
    "\<And>b. peer_refs (devs st' b) = peer_refs (devs st b) - (if b = d then 1 else 0)"
proof -
  obtain p' r' where r: "scif_setup_qp_connect_response (cn_rqp env) p = (0, p', r')"
    using response_run [OF ok(3,4), of p] by (cases "scif_setup_qp_connect_response (cn_rqp env) p") auto
  define st1 where "st1 = ep_upd a (\<lambda>e. e\<lparr>qp := Some p'\<rparr>) st"
  have 1: "net d ms (Suc n) st1" "eps st1 = (eps st)(a \<mapsto> e\<lparr>qp := Some p'\<rparr>)" "fault st1 = fault st"
    using ok(2) e(1) by (simp_all add: st1_def ep_upd_def)
  obtain st2 where 2: "raw_nodeqp_send (cn_ack env) d (ack_msg msg (remote_ep e)) st1 = (0, st2)"
    "net d (ms @ [ack_msg msg (remote_ep e)]) n st2" "fault st2 = fault st1" "\<And>b. peer_refs (devs st2 b) = peer_refs (devs st1 b)"
    "eps st2 = eps st1" "connected st2 = connected st1"
    using net_send [OF 1(1)] by metis
  let ?st3 = "set_state a SCIFEP_CONNECTED st2"
  have 3: "conn_finish env a d msg err st = (0, scif_put_peer_dev True d (?st3\<lparr>connected := connected ?st3 @ [a]\<rparr>))"
    using e ok(1) r put 2(1) by (simp add: conn_finish_def conn_mapped_def ack_msg_def st1_def Let_def)
  have 4: "net d (ms @ [ack_msg msg (remote_ep e)]) n (scif_put_peer_dev True d (?st3\<lparr>connected := connected ?st3 @ [a]\<rparr>))"
    using 2(2) by (simp add: set_state_def)
  show thesis
    by (rule that [OF 3 4])
      (use 1 2 e(1) r in \<open>simp_all add: set_state_def ep_upd_def scif_put_peer_dev_def dev_upd_def st1_def\<close>)
qed

text \<open>
  A blocking connect whose request is granted: while it waits the peer stores into the queue
  pair, and the grant arrives.
\<close>

lemma connect_granted:
  assumes e: "eps st a = Some e" "ep_state e = SCIFEP_BOUND" "conn_async_state e = ASYNC_CONN_IDLE" "qp e = Some zero_qp"
    and dst: "pid_node dst = d" "d \<le> ucast (maxid st)" "pid_port dst \<noteq> 0"
    and ok: "dma_ready d st" "net d ms 2 st" "maps_ok (cn_qp env)" "remaps_ok (cn_rqp env)"
      "magic (rqp (cn_rqp env)) = SCIFEP_MAGIC" "\<And>r s. cn_put env r s = s"
    and w: "cn_wait env = (\<lambda>s. scif_cnctgnt gnt (ep_upd a (\<lambda>e. e\<lparr>qp := Some p2\<rparr>) s))" "payload0 gnt = a"
  obtains st' e' where "scif_connect pick alloc env flush a dst st = (0, st')" "eps st' = (eps st)(a \<mapsto> e')"
    "ep_state e' = SCIFEP_CONNECTED" "qp e' = Some (fst (snd (scif_setup_qp_connect_response (cn_rqp env) p2)))"
    "remote_dev e' = Some d" "ep_port e' = ep_port e" "ep_peer e' = msg_src gnt" "remote_ep e' = payload2 gnt"
    "net d (ms @ [req_msg env a e dst, ack_msg (req_msg env a e dst) (payload2 gnt)]) 0 st'"
    "connected st' = connected st @ [a]" "fault st' = fault st"
    "\<And>b. peer_refs (devs st' b) = peer_refs (devs st b)"
proof -
  let ?q = "new_qp" and ?off = "the (map_qp (cn_qp env))"
  have pd: "peer_dev (devs st d)" using ok(2) by (simp add: net_def)
  let ?e1 = "e\<lparr>conn_port := dst, conn_async_state := 0, ep_state := SCIFEP_CONNECTING, remote_dev := Some d, qp := Some ?q\<rparr>"
  define st1 where "st1 = scif_put_peer_dev True d (ep_upd a (\<lambda>_. ?e1) ((snd (scif_get_peer_dev d st))\<lparr>ports := ports st\<rparr>))"
  have start: "scif_connect pick alloc env flush a dst st = scif_conn_func env a st1"
    using e dst pd leD [OF dst(2)]
    by (simp add: scif_connect_def scif_connect_nb_def connect_begin_def connect_switch_def connect_bound_def Let_def st1_def
        scif_get_peer_dev_def new_qp_def ep_upd_def)
  have 1: "eps st1 = (eps st)(a \<mapsto> ?e1)" "net d ms 2 st1" "dma_ready d st1" "connected st1 = connected st" "fault st1 = fault st"
    "\<And>b. peer_refs (devs st1 b) = peer_refs (devs st b)"
    using ok(1,2) e(1) pd by (simp_all add: st1_def ep_upd_def scif_get_peer_dev_def scif_put_peer_dev_def dma_ready_def dev_upd_def
        net_dev_upd [unfolded dev_upd_def])
  have e1: "eps st1 a = Some ?e1" "qp ?e1 = Some new_qp" "remote_dev ?e1 = Some d" "net d ms (Suc 1) st1"
    using 1 by (simp_all add: numeral_2_eq_2)
  obtain st2 r where 2: "conn_request env a st1 = Inr (d, req_msg env a ?e1 (conn_port ?e1), st2)" "net d (ms @ [req_msg env a ?e1 (conn_port ?e1)]) 1 st2"
    "eps st2 = (eps st1)(a \<mapsto> ?e1\<lparr>rma_info := r, qp := Some (conn_qp (cn_qp env)), qp_offset := ?off\<rparr>)"
    "connected st2 = connected st1" "fault st2 = fault st1"
    "\<And>b. peer_refs (devs st2 b) = peer_refs (devs st1 b) + (if b = d then 1 else 0)"
    using conn_request_ok [OF e1(1-3) 1(3) e1(4) ok(3)] by metis
  have rq: "req_msg env a ?e1 dst = req_msg env a e dst" by (simp add: req_msg_def)
  let ?e3 = "?e1\<lparr>rma_info := r, qp_offset := ?off, qp := Some p2, ep_peer := msg_src gnt, gnt_pld := payload1 gnt,
    remote_ep := payload2 gnt, ep_state := SCIFEP_MAPPING\<rparr>"
  define st3 where "st3 = cn_wait env st2"
  have 3: "eps st3 = (eps st)(a \<mapsto> ?e3)" "net d (ms @ [req_msg env a e dst]) (Suc 0) st3" "connected st3 = connected st"
    "fault st3 = fault st" "\<And>b. peer_refs (devs st3 b) = peer_refs (devs st b) + (if b = d then 1 else 0)"
    using 1 2 by (simp_all add: st3_def w scif_cnctgnt_def ep_upd_def rq)
  have wt: "wait_event_timeout (cn_wait env) (cn_left env) (\<lambda>s. \<not> ep_in a SCIFEP_CONNECTING s) st2 = (max 1 (cn_left env), st3)"
    using 3(1) by (simp add: wait_event_timeout_def Let_def st3_def [symmetric] ep_in_def)
  have e3: "eps st3 a = Some ?e3" "ep_state ?e3 = SCIFEP_MAPPING" "qp ?e3 = Some p2" "remote_dev ?e3 = Some d"
    "max 1 (cn_left env) \<noteq> 0" using 3(1) by simp_all
  obtain st4 where 4: "conn_finish env a d (req_msg env a e dst) (max 1 (cn_left env)) st3 = (0, st4)"
    "net d ((ms @ [req_msg env a e dst]) @ [ack_msg (req_msg env a e dst) (payload2 gnt)]) 0 st4"
    "eps st4 = (eps st3)(a \<mapsto> ?e3\<lparr>qp := Some (fst (snd (scif_setup_qp_connect_response (cn_rqp env) p2))),
       ep_state := SCIFEP_CONNECTED\<rparr>)"
    "connected st4 = connected st3 @ [a]" "fault st4 = fault st3"
    "\<And>b. peer_refs (devs st4 b) = peer_refs (devs st3 b) - (if b = d then 1 else 0)"
    using conn_finish_ok [OF e3 3(2) ok(4-6)] by (simp del: fun_upd_apply) metis
  have "scif_connect pick alloc env flush a dst st = (0, st4)"
    using start 2(1) wt 4(1) by (simp add: scif_conn_func_def rq)
  then show thesis
    by (rule that [where e' = "?e3\<lparr>qp := Some (fst (snd (scif_setup_qp_connect_response (cn_rqp env) p2))),
        ep_state := SCIFEP_CONNECTED\<rparr>"]) (use 3 4 in simp_all)
qed

section \<open>The server\<close>

definition gnt_msg :: "acc_env \<Rightarrow> scif_endpt \<Rightarrow> scifmsg \<Rightarrow> scifmsg" where
  "gnt_msg env l req = (ac_msg env)\<lparr>uop := SCIF_CNCT_GNT, msg_src := ep_port l, payload0 := payload0 req,
     payload1 := the (map_qp (ac_qenv env)), payload2 := ac_ep env\<rparr>"

lemma accept_grant_ok:
  assumes c: "ac_ep env \<noteq> 0" "ac_qp env" "ac_anon env = 0"
    and ok: "dma_ready d st" "net d ms (Suc n) st" "maps_ok (ac_qenv env)" "remaps_ok (ac_qenv env)"
      "magic (rqp (ac_qenv env)) = SCIFEP_MAGIC" "\<And>r s. ac_put env r s = s"
    and d: "pid_node (msg_src req) = d"
  obtains st' r where "accept_grant env l req st = Inr (gnt_msg env l req, st')" "net d (ms @ [gnt_msg env l req]) n st'"
    "eps st' = (eps st)(ac_ep env \<mapsto> zero_ep\<lparr>ep_state := SCIFEP_CONNECTING, remote_dev := Some d, remote_ep := payload0 req,
       rma_info := r, anon := True, qp := Some (acc_qp (ac_qenv env)), qp_offset := the (map_qp (ac_qenv env)),
       ep_port := ep_port l, ep_peer := msg_src req\<rparr>)"
    "connected st' = connected st" "fault st' = fault st" "ports st' = ports st"
    "\<And>b. peer_refs (devs st' b) = peer_refs (devs st b)"
proof -
  let ?c = "ac_ep env" and ?off = "the (map_qp (ac_qenv env))"
  let ?e1 = "scif_rma_ep_init (zero_ep\<lparr>ep_state := SCIFEP_CONNECTING, remote_dev := Some d, remote_ep := payload0 req\<rparr>)"
  define st1 where "st1 = st\<lparr>eps := (eps st)(?c \<mapsto> ?e1)\<rparr>"
  have 1: "eps st1 ?c = Some ?e1" "remote_dev ?e1 = Some d" "dma_ready d st1" "\<not> scifdev_self d st1"
    using ok(1,2) by (simp_all add: st1_def scif_rma_ep_init_def dma_ready_def net_def scifdev_self_def)
  obtain st2 r where 2: "scif_reserve_dma_chan ?c st1 = (0, st2)" "eps st2 = (eps st1)(?c \<mapsto> ?e1\<lparr>rma_info := r\<rparr>)"
    "\<And>ms n. net d ms n st2 = net d ms n st1" "connected st2 = connected st1" "fault st2 = fault st1" "ports st2 = ports st1"
    "\<And>b. peer_refs (devs st2 b) = peer_refs (devs st1 b)"
    using reserve_ok [OF 1] by metis
  define st4 where "st4 = ep_upd ?c (\<lambda>e. e\<lparr>qp := Some new_qp, anon := True\<rparr>) (ep_upd ?c (\<lambda>e. e\<lparr>qp := Some zero_qp\<rparr>) st2)"
  have 4: "eps st4 = (eps st)(?c \<mapsto> ?e1\<lparr>rma_info := r, qp := Some new_qp, anon := True\<rparr>)" "net d ms (Suc n) st4"
    "connected st4 = connected st" "fault st4 = fault st" "ports st4 = ports st" "\<And>b. peer_refs (devs st4 b) = peer_refs (devs st b)"
    using 2 ok(2) by (simp_all add: st4_def st1_def ep_upd_def)
  have pd: "peer_dev (devs st4 d)" "peer_dev (devs st2 d)" using 4(2) 2(3) ok(2) by (simp_all add: net_def st4_def)
  define st7 where "st7 = ep_upd ?c (\<lambda>e. e\<lparr>ep_port := ep_port l, ep_peer := msg_src req\<rparr>)
    (ep_upd ?c (\<lambda>e. e\<lparr>qp := Some (acc_qp (ac_qenv env)), qp_offset := ?off\<rparr>)
      (kzalloc (q_alloc (ac_qenv env)) (snd (scif_get_peer_dev d st4))))"
  have 7: "net d ms (Suc n) st7" "connected st7 = connected st" "fault st7 = fault st" "ports st7 = ports st"
    "eps st7 = (eps st)(?c \<mapsto> zero_ep\<lparr>ep_state := SCIFEP_CONNECTING, remote_dev := Some d, remote_ep := payload0 req,
       rma_info := r, anon := True, qp := Some (acc_qp (ac_qenv env)), qp_offset := ?off, ep_port := ep_port l, ep_peer := msg_src req\<rparr>)"
    "\<And>b. peer_refs (devs st7 b) = peer_refs (devs st b) + (if b = d then 1 else 0)"
    using 4 pd by (simp_all add: st7_def ep_upd_def scif_rma_ep_init_def) (simp_all add: scif_get_peer_dev_def dev_upd_def)
  obtain st9 where 9: "raw_nodeqp_send (ac_gnt env) d (gnt_msg env l req) st7 = (0, st9)" "net d (ms @ [gnt_msg env l req]) n st9"
    "fault st9 = fault st7" "\<And>b. peer_refs (devs st9 b) = peer_refs (devs st7 b)" "eps st9 = eps st7"
    "connected st9 = connected st7" "ports st9 = ports st7"
    using net_send [OF 7(1)] by metis
  have run: "accept_grant env l req st = Inr (gnt_msg env l req, scif_put_peer_dev True d st9)"
    using c d 2(1) pd accept_run [OF ok(3-5)] ok(6) 9(1)
    by (simp add: accept_grant_def Let_def st1_def [symmetric] st4_def [symmetric] new_qp_def [symmetric]
        scif_get_peer_dev_def st7_def gnt_msg_def)
  show thesis
    by (rule that [OF run, where r = r]) (use 7 9 in \<open>simp_all add: scif_put_peer_dev_def dev_upd_def net_dev_upd [unfolded dev_upd_def]\<close>)
qed

lemma ep_port_is_upd:
  "(\<And>e. ep_port (f e) = ep_port e) \<Longrightarrow> ep_port_is (ep_upd a f st) port = ep_port_is st port"
  by (auto simp: ep_port_is_def ep_upd_def fun_eq_iff split: option.split)

lemma find_listen_upd:
  "(\<And>e. ep_port (f e) = ep_port e) \<Longrightarrow> scif_find_listen_ep port (ep_upd a f st) = scif_find_listen_ep port st"
  by (simp add: scif_find_listen_ep_def ep_port_is_upd)

text \<open>
  A blocking accept: the request arrives while it waits, and the answer to its grant in the first
  period of the second wait, after the client has stored into the queue pair.
\<close>

lemma accept_acked:
  assumes e: "eps st l = Some e" "ep_state e = SCIFEP_LISTENING" "conreqcnt e = 0" "conlist e = []" "0 < backlog e"
      "scif_find_listen_ep (pid_port (msg_dst req)) st = Some l"
    and c: "ac_ep (envs 0) = c" "c \<noteq> 0" "c \<noteq> l" "ac_qp (envs 0)" "ac_anon (envs 0) = 0" "ac_rounds (envs 0) = Suc rounds"
    and ok: "dma_ready d st" "net d ms (Suc k) st" "maps_ok (ac_qenv (envs 0))" "remaps_ok (ac_qenv (envs 0))"
      "magic (rqp (ac_qenv (envs 0))) = SCIFEP_MAGIC" "\<And>r s. ac_put (envs 0) r s = s" "pid_node (msg_src req) = d"
    and w: "ws 0 0 = (False, scif_cnctreq q True req)" "payload0 ack = c"
      "ac_waits (envs 0) 0 = (\<lambda>s. scif_cnctgnt_ack ack (ep_upd c (\<lambda>e. e\<lparr>qp := Some p3\<rparr>) s))"
  obtains st' e' ec where "scif_accept (Suc n) envs ws (Suc m) SCIF_ACCEPT_SYNC True files l st = Some (0, c, msg_src req, st')"
    "eps st' = (eps st)(l \<mapsto> e', c \<mapsto> ec)" "ep_state ec = SCIFEP_CONNECTED" "qp ec = Some p3" "remote_dev ec = Some d"
    "ep_port ec = ep_port e" "ep_peer ec = msg_src req" "remote_ep ec = payload0 req"
    "e' = e\<lparr>ep_files := files\<rparr>" "connected st' = connected st @ [c]" "fault st' = fault st"
    "net d (ms @ [gnt_msg (envs 0) e req]) k st'" "ports st' = scif_get_port (pid_port (ep_port e)) (ports st)"
    "\<And>b. peer_refs (devs st' b) = peer_refs (devs st b)"
proof -
  let ?e1 = "e\<lparr>ep_files := files\<rparr>"
  define st0 where "st0 = ep_upd l (\<lambda>e. e\<lparr>ep_files := files\<rparr>) st"
  define st1 where "st1 = scif_cnctreq q True req st0"
  have 0: "eps st0 = (eps st)(l \<mapsto> ?e1)" "scif_find_listen_ep (pid_port (msg_dst req)) st0 = Some l" "fault st0 = fault st"
    using e(1,6) by (simp_all add: st0_def find_listen_upd) (simp_all add: ep_upd_def)
  then have st1: "st1 = ep_upd l (\<lambda>e. e\<lparr>conlist := conlist e @ [req], conreqcnt := conreqcnt e + 1\<rparr>) st0"
    using e by (simp add: st1_def scif_cnctreq_def)
  then have 1: "eps st1 = (eps st)(l \<mapsto> ?e1\<lparr>conlist := [req], conreqcnt := 1\<rparr>)"
    using 0(1) e by (simp add: ep_upd_def)
  have wait: "accept_wait (Suc m) (ws 0) l st0 = Some (0, st1)"
    using w(1) 1 e(2) by (simp add: st1_def [symmetric])
  define st2 where "st2 = ep_upd l (\<lambda>e. e\<lparr>conlist := [], conreqcnt := conreqcnt e - 1\<rparr>) st1"
  have e_id: "?e1\<lparr>conlist := [], conreqcnt := 0\<rparr> = ?e1" using e(3,4) by (cases e) simp
  have take: "accept_take l st1 = Some (?e1\<lparr>conlist := [req], conreqcnt := 1\<rparr>, req, st2)"
    using 1 by (simp add: accept_take_def st2_def)
  have 2: "eps st2 = (eps st)(l \<mapsto> ?e1)" "net d ms (Suc k) st2" "dma_ready d st2" "connected st2 = connected st"
    "fault st2 = fault st" "ports st2 = ports st" "\<And>b. peer_refs (devs st2 b) = peer_refs (devs st b)"
    using 1 0(3) e_id ok(1,2) e(1) by (simp_all add: st2_def st1 ep_upd_def st0_def dma_ready_def)
  let ?l = "?e1\<lparr>conlist := [req], conreqcnt := 1\<rparr>"
  have c': "ac_ep (envs 0) \<noteq> 0" using c by simp
  obtain st3 r where 3: "accept_grant (envs 0) ?l req st2 = Inr (gnt_msg (envs 0) ?l req, st3)"
    "net d (ms @ [gnt_msg (envs 0) ?l req]) k st3"
    "eps st3 = (eps st2)(ac_ep (envs 0) \<mapsto> zero_ep\<lparr>ep_state := SCIFEP_CONNECTING, remote_dev := Some d, remote_ep := payload0 req,
       rma_info := r, anon := True, qp := Some (acc_qp (ac_qenv (envs 0))), qp_offset := the (map_qp (ac_qenv (envs 0))),
       ep_port := ep_port ?l, ep_peer := msg_src req\<rparr>)"
    "connected st3 = connected st2" "fault st3 = fault st2" "ports st3 = ports st2"
    "\<And>b. peer_refs (devs st3 b) = peer_refs (devs st2 b)"
    using accept_grant_ok [OF c' c(4,5) 2(3,2) ok(3-7), of ?l] by metis
  have gnt: "gnt_msg (envs 0) ?l req = gnt_msg (envs 0) e req" by (simp add: gnt_msg_def)
  let ?ec = "zero_ep\<lparr>remote_dev := Some d, remote_ep := payload0 req, rma_info := r, anon := True,
    qp_offset := the (map_qp (ac_qenv (envs 0))), ep_port := ep_port e, ep_peer := msg_src req, qp := Some p3,
    ep_state := SCIFEP_CONNECTED\<rparr>"
  define st4 where "st4 = ac_waits (envs 0) 0 st3"
  have 4: "eps st4 = (eps st)(l \<mapsto> ?e1, c \<mapsto> ?ec)" "net d (ms @ [gnt_msg (envs 0) e req]) k st4"
    "connected st4 = connected st @ [c]" "fault st4 = fault st" "ports st4 = ports st" "\<And>b. peer_refs (devs st4 b) = peer_refs (devs st b)"
    using 2 3 c(1) w(2,3) by (simp_all add: st4_def scif_cnctgnt_ack_def ep_upd_def gnt Let_def)
  have answered: "wait_retry (ac_waits (envs 0)) (ac_rounds (envs 0)) (\<lambda>s. \<not> ep_in c SCIFEP_CONNECTING s)
      (scifdev_alive_dev (pid_node (msg_src req))) st3 = Some (True, st4)"
    using 4(1) c(6) by (simp add: st4_def [symmetric] ep_in_def)
  let ?st = "(ep_wake c st4)\<lparr>ports := scif_get_port (pid_port (ep_port e)) (ports st4)\<rparr>"
  have "accept_round (envs 0) l st1 = Some (Inl (0, c, msg_src req, ?st))"
    using take 3(1) answered 4(1) c(1) by (simp add: accept_round_def accept_answer_def ep_in_def)
  then have run: "scif_accept (Suc n) envs ws (Suc m) SCIF_ACCEPT_SYNC True files l st = Some (0, c, msg_src req, ?st)"
    using e(1,2) wait by (simp add: scif_accept_def st0_def [symmetric])
  show thesis
    by (rule that [OF run, of ?e1 ?ec]) (use 4 in \<open>simp_all add: ep_wake_def ep_upd_def fun_upd_idem\<close>)
qed

section \<open>A connection is refused\<close>

lemma net_nodeqp_send:
  assumes "net d ms (Suc n) st" "dev_exit (devs st d) = OP_IDLE" "uop msg > SCIF_EXIT_ACK"
  obtains st' where "scif_nodeqp_send q d msg st = (0, st')" "net d (ms @ [msg]) n st'" "fault st' = fault st"
    "\<And>b. peer_refs (devs st' b) = peer_refs (devs st b)" "eps st' = eps st"
proof -
  have pd: "peer_dev (devs st d)" using assms(1) by (simp add: net_def)
  define st1 where "st1 = snd (scif_get_peer_dev d st)"
  have 1: "net d ms (Suc n) st1" "fault st1 = fault st" "eps st1 = eps st"
    "\<And>b. peer_refs (devs st1 b) = peer_refs (devs st b) + (if b = d then 1 else 0)"
    using assms(1) pd by (simp_all add: st1_def) (simp_all add: scif_get_peer_dev_def dev_upd_def)
  obtain st2 where 2: "raw_nodeqp_send q d msg st1 = (0, st2)" "net d (ms @ [msg]) n st2" "fault st2 = fault st1"
    "\<And>b. peer_refs (devs st2 b) = peer_refs (devs st1 b)" "eps st2 = eps st1"
    using net_send [OF 1(1)] by metis
  have run: "scif_nodeqp_send q d msg st = (0, scif_put_peer_dev True d st2)"
    using assms(2,3) pd 2(1) by (simp add: scif_nodeqp_send_def st1_def scif_get_peer_dev_def)
  have "net d (ms @ [msg]) n (scif_put_peer_dev True d st2)" using 2(2) by simp
  then show thesis
    by (rule that [OF run]) (use 1 2 in \<open>simp_all add: scif_put_peer_dev_def dev_upd_def\<close>)
qed

text \<open>
  A blocking connect that is rejected, or gets no answer in time: \<open>w\<close> is what the wait does to the
  endpoint and nothing else.
\<close>

lemma connect_rejected:
  assumes e: "eps st a = Some e" "ep_state e = SCIFEP_BOUND" "conn_async_state e \<noteq> ASYNC_CONN_INPROGRESS"
      "conn_async_state e \<noteq> ASYNC_CONN_FLUSH_WORK" "qp e = Some zero_qp"
    and dst: "pid_node dst = d" "d \<le> ucast (maxid st)" "pid_port dst \<noteq> 0"
    and ok: "dma_ready d st" "net d ms 1 st" "maps_ok (cn_qp env)"
    and w: "cn_wait env = scif_cnctrej rej \<and> payload0 rej = a \<or> cn_wait env = (\<lambda>s. s)"
  obtains st' e' where "scif_connect pick alloc env flush a dst st = (- ECONNREFUSED, st')" "eps st' = (eps st)(a \<mapsto> e')"
    "ep_state e' = SCIFEP_BOUND" "ep_port e' = ep_port e" "conn_async_state e' = 0" "qp e' = Some (qp_cleaned (conn_qp (cn_qp env)))"
    "net d (ms @ [req_msg env a e dst]) 0 st'" "connected st' = connected st" "fault st' = fault st"
    "\<And>b. peer_refs (devs st' b) = peer_refs (devs st b)"
proof -
  let ?off = "the (map_qp (cn_qp env))"
  have pd: "peer_dev (devs st d)" using ok(2) by (simp add: net_def)
  let ?e1 = "e\<lparr>conn_port := dst, conn_async_state := 0, ep_state := SCIFEP_CONNECTING, remote_dev := Some d, qp := Some new_qp\<rparr>"
  define st1 where "st1 = scif_put_peer_dev True d (ep_upd a (\<lambda>_. ?e1) ((snd (scif_get_peer_dev d st))\<lparr>ports := ports st\<rparr>))"
  have start: "scif_connect pick alloc env flush a dst st = scif_conn_func env a st1"
    using e dst pd leD [OF dst(2)]
    by (simp add: scif_connect_def scif_connect_nb_def connect_begin_def connect_switch_def connect_bound_def Let_def st1_def
        scif_get_peer_dev_def new_qp_def ep_upd_def)
  have 1: "eps st1 = (eps st)(a \<mapsto> ?e1)" "net d ms (Suc 0) st1" "dma_ready d st1" "connected st1 = connected st" "fault st1 = fault st"
    "\<And>b. peer_refs (devs st1 b) = peer_refs (devs st b)"
    using ok(1,2) e(1) pd by (simp_all add: st1_def ep_upd_def scif_get_peer_dev_def scif_put_peer_dev_def dma_ready_def dev_upd_def
        net_dev_upd [unfolded dev_upd_def])
  have e1: "eps st1 a = Some ?e1" "qp ?e1 = Some new_qp" "remote_dev ?e1 = Some d" using 1 by simp_all
  obtain st2 r where 2: "conn_request env a st1 = Inr (d, req_msg env a ?e1 (conn_port ?e1), st2)" "net d (ms @ [req_msg env a ?e1 (conn_port ?e1)]) 0 st2"
    "eps st2 = (eps st1)(a \<mapsto> ?e1\<lparr>rma_info := r, qp := Some (conn_qp (cn_qp env)), qp_offset := ?off\<rparr>)"
    "connected st2 = connected st1" "fault st2 = fault st1"
    "\<And>b. peer_refs (devs st2 b) = peer_refs (devs st1 b) + (if b = d then 1 else 0)"
    using conn_request_ok [OF e1 1(3,2) ok(3)] by metis
  have rq: "req_msg env a ?e1 dst = req_msg env a e dst" by (simp add: req_msg_def)
  let ?e2 = "?e1\<lparr>rma_info := r, qp := Some (conn_qp (cn_qp env)), qp_offset := ?off\<rparr>" and ?w = "cn_wait env st2"
  let ?e3 = "?e2\<lparr>ep_state := SCIFEP_BOUND\<rparr>"
  obtain err where wt: "wait_event_timeout (cn_wait env) (cn_left env) (\<lambda>s. \<not> ep_in a SCIFEP_CONNECTING s) st2 = (err, ?w)"
    and err: "(if err = 0 then set_state a SCIFEP_BOUND ?w else ?w) = set_state a SCIFEP_BOUND st2"
    using w 1(1) 2(3) by (auto simp: wait_event_timeout_def Let_def scif_cnctrej_def set_state_def ep_in_def ep_upd_def)
  let ?st3 = "set_state a SCIFEP_BOUND st2"
  have 3: "eps ?st3 = (eps st)(a \<mapsto> ?e3)" "fault ?st3 = fault st" "net d (ms @ [req_msg env a e dst]) 0 ?st3"
    "connected ?st3 = connected st" "\<And>b. peer_refs (devs ?st3 b) = peer_refs (devs st b) + (if b = d then 1 else 0)"
    using 1 2 by (simp_all add: set_state_def ep_upd_def rq)
  have "scif_connect pick alloc env flush a dst st = (- ECONNREFUSED, scif_cleanup_ep_qp a (scif_put_peer_dev True d ?st3))"
    using start 2(1) wt err 3(1) by (simp add: scif_conn_func_def conn_finish_def conn_fail_def)
  then show thesis
    by (rule that [where e' = "?e3\<lparr>qp := Some (qp_cleaned (conn_qp (cn_qp env)))\<rparr>"])
      (use 3 in \<open>simp_all add: scif_cleanup_ep_qp_def ep_upd_eps ep_upd_fault put_peer_refs\<close>)
qed

section \<open>A connection is established\<close>

text \<open>
  C7: the connection protocol works. A bound endpoint \<open>a\<close> of one node connects to the port on
  which endpoint \<open>l\<close> of another node listens and accepts. Each node handles the message the other
  one sent, the stores of one into the queue pair of the other arrive before the message that
  follows them, and the allocations and mappings succeed. Then \<open>scif_connect\<close> returns 0 and
  \<open>scif_accept\<close> returns the new endpoint \<open>c\<close>; both are connected and on the list of connections,
  each has the port and the address of the other, and their queue pairs share two new rings, one
  in each direction, as \<open>scif_send\<close> and \<open>scif_recv\<close> need them. The client has sent the request
  and the acknowledgement, the server the grant, the listener is as before, the port has one more
  reference, and no reference to a peer device is left over.
\<close>

theorem connection_established:
  assumes client: "eps sA a = Some eA" "ep_state eA = SCIFEP_BOUND" "conn_async_state eA = ASYNC_CONN_IDLE"
      "qp eA = Some zero_qp" "pid_node dst = dB" "dB \<le> ucast (maxid sA)" "pid_port dst \<noteq> 0" "dma_ready dB sA" "net dB ms 2 sA"
    and server: "eps sB l = Some eL" "ep_state eL = SCIFEP_LISTENING" "conreqcnt eL = 0" "conlist eL = []" "0 < backlog eL"
      "scif_find_listen_ep (pid_port dst) sB = Some l" "dma_ready dA sB" "net dA ms' 1 sB" "pid_node (ep_port eA) = dA"
    and new: "ac_ep (envB 0) = c" "c \<noteq> 0" "c \<noteq> l" "ac_qp (envB 0)" "ac_anon (envB 0) = 0" "ac_rounds (envB 0) = Suc k"
    and services: "maps_ok (cn_qp envA)" "remaps_ok (cn_rqp envA)" "maps_ok (ac_qenv (envB 0))" "remaps_ok (ac_qenv (envB 0))"
    and memory: "rqp (ac_qenv (envB 0)) = conn_qp (cn_qp envA)" "rqp (cn_rqp envA) = acc_qp (ac_qenv (envB 0))"
      "scif_setup_qp_connect_response (cn_rqp envA) (acc_rqp (ac_qenv (envB 0))) = (0, pA, pB)"
      "\<And>r s. cn_put envA r s = s" "\<And>r s. ac_put (envB 0) r s = s"
    and messages: "req = req_msg envA a eA dst" "gnt = gnt_msg (envB 0) eL req"
      "ack = ack_msg req c"
      "ws 0 0 = (False, scif_cnctreq q True req)"
      "cn_wait envA = (\<lambda>s. scif_cnctgnt gnt (ep_upd a (\<lambda>e. e\<lparr>qp := Some (acc_rqp (ac_qenv (envB 0)))\<rparr>) s))"
      "ac_waits (envB 0) 0 = (\<lambda>s. scif_cnctgnt_ack ack (ep_upd c (\<lambda>e. e\<lparr>qp := Some pB\<rparr>) s))"
  shows "\<exists>sA' sB' eA' eC.
    scif_connect pick alloc envA flush a dst sA = (0, sA') \<and>
    scif_accept (Suc n) envB ws (Suc m) SCIF_ACCEPT_SYNC True files l sB = Some (0, c, ep_port eA, sB') \<and>
    eps sA' = (eps sA)(a \<mapsto> eA') \<and> eps sB' = (eps sB)(l \<mapsto> eL\<lparr>ep_files := files\<rparr>, c \<mapsto> eC) \<and>
    ep_state eA' = SCIFEP_CONNECTED \<and> ep_port eA' = ep_port eA \<and> ep_peer eA' = ep_port eL \<and>
      remote_dev eA' = Some dB \<and> remote_ep eA' = c \<and> qp eA' = Some pA \<and>
    ep_state eC = SCIFEP_CONNECTED \<and> ep_port eC = ep_port eL \<and> ep_peer eC = ep_port eA \<and>
      remote_dev eC = Some dA \<and> remote_ep eC = a \<and> qp eC = Some pB \<and>
    channel pA pB = rb_setup 12 \<and> channel pB pA = rb_setup 12 \<and>
    inbound_mem pB = outbound_mem pA \<and> inbound_mem pA = outbound_mem pB \<and>
    connected sA' = connected sA @ [a] \<and> connected sB' = connected sB @ [c] \<and>
    net dB (ms @ [req, ack]) 0 sA' \<and> net dA (ms' @ [gnt]) 0 sB' \<and>
    ports sB' = scif_get_port (pid_port (ep_port eL)) (ports sB) \<and> fault sA' = fault sA \<and> fault sB' = fault sB \<and>
    (\<forall>b. peer_refs (devs sA' b) = peer_refs (devs sA b) \<and> peer_refs (devs sB' b) = peer_refs (devs sB b))"
proof -
  let ?qB = "ac_qenv (envB 0)"
  have magic: "magic (rqp ?qB) = SCIFEP_MAGIC" using conn_qp_magic services(1) memory(1) by simp
  then have magic': "magic (rqp (cn_rqp envA)) = SCIFEP_MAGIC"
    using acc_qp_magic [OF services(3,4)] memory(2) by simp
  note rings = handshake_rings [OF connect_run [OF services(1)] memory(1) accept_run [OF services(3,4) magic] memory(2,3)]
  have rq: "pid_port (msg_dst req) = pid_port dst" "pid_node (msg_src req) = dA" "payload0 req = a" "msg_src req = ep_port eA"
    "payload0 gnt = a" "payload2 gnt = c" "msg_src gnt = ep_port eL" "payload0 ack = c"
    using server(9) new(1) by (simp_all add: messages(1-3) req_msg_def gnt_msg_def ack_msg_def)
  obtain sA' eA' where A: "scif_connect pick alloc envA flush a dst sA = (0, sA')" "eps sA' = (eps sA)(a \<mapsto> eA')"
    "ep_state eA' = SCIFEP_CONNECTED" "qp eA' = Some (fst (snd (scif_setup_qp_connect_response (cn_rqp envA) (acc_rqp ?qB))))"
    "remote_dev eA' = Some dB" "ep_port eA' = ep_port eA" "ep_peer eA' = msg_src gnt" "remote_ep eA' = payload2 gnt"
    "net dB (ms @ [req_msg envA a eA dst, ack_msg (req_msg envA a eA dst) (payload2 gnt)]) 0 sA'"
    "connected sA' = connected sA @ [a]" "fault sA' = fault sA" "\<And>b. peer_refs (devs sA' b) = peer_refs (devs sA b)"
    using connect_granted [OF client services(1,2) magic' memory(4) messages(5) rq(5), of pick alloc flush] by metis
  have find: "scif_find_listen_ep (pid_port (msg_dst req)) sB = Some l" "net dA ms' (Suc 0) sB"
    using server(6,8) rq(1) by simp_all
  obtain sB' e' eC where B: "scif_accept (Suc n) envB ws (Suc m) SCIF_ACCEPT_SYNC True files l sB = Some (0, c, msg_src req, sB')"
    "eps sB' = (eps sB)(l \<mapsto> e', c \<mapsto> eC)" "ep_state eC = SCIFEP_CONNECTED" "qp eC = Some pB" "remote_dev eC = Some dA"
    "ep_port eC = ep_port eL" "ep_peer eC = msg_src req" "remote_ep eC = payload0 req"
    "e' = eL\<lparr>ep_files := files\<rparr>" "connected sB' = connected sB @ [c]" "fault sB' = fault sB"
    "net dA (ms' @ [gnt_msg (envB 0) eL req]) 0 sB'" "ports sB' = scif_get_port (pid_port (ep_port eL)) (ports sB)"
    "\<And>b. peer_refs (devs sB' b) = peer_refs (devs sB b)"
    using accept_acked [where envs = envB and ws = ws, OF server(1-5) find(1) new server(7) find(2) services(3,4) magic memory(5) rq(2) messages(4) rq(8) messages(6),
        of n m files] by metis
  show ?thesis
    by (rule exI [of _ sA'], rule exI [of _ sB'], rule exI [of _ eA'], rule exI [of _ eC])
      (use A B rings rq memory(3) in \<open>simp add: messages(1-3)\<close>)
qed

text \<open>A card, node 1, connects to port 80 of the host, node 0.\<close>

definition example_peer :: "scif_dev \<Rightarrow> scif_dev" where
  "example_peer v = v\<lparr>peer_dev := True, num_dma_ch := 1,
     qpairs := Some (zero_qp\<lparr>outbound_q := tx (rb_setup 12), outbound_mem := mem (rb_setup 12)\<rparr>)\<rparr>"

definition example_client :: scif_node where
  "example_client = dev_upd 0 example_peer (scif_init_state\<lparr>nodeid := 1, maxid := 1,
     eps := [0x100 \<mapsto> zero_ep\<lparr>ep_state := SCIFEP_BOUND, ep_port := \<lparr>pid_node = 1, pid_port = 1100\<rparr>,
       conn_async_state := ASYNC_CONN_IDLE, qp := Some zero_qp\<rparr>]\<rparr>)"

definition example_server :: scif_node where
  "example_server = dev_upd 1 example_peer (scif_init_state\<lparr>maxid := 1, listen := [0x200],
     eps := [0x200 \<mapsto> zero_ep\<lparr>ep_state := SCIFEP_LISTENING, ep_port := \<lparr>pid_node = 0, pid_port = 80\<rparr>, backlog := 4\<rparr>]\<rparr>)"

definition example_conn_qp :: qp_env where
  "example_conn_qp = \<lparr>q_alloc = 0xa000, map_buf = Some 0x1a000, map_qp = Some 0x1b000, remap_qp = 0, remap_buf = 0, rqp = zero_qp\<rparr>"

definition example_acc_qp :: qp_env where
  "example_acc_qp = \<lparr>q_alloc = 0xc000, map_buf = Some 0x2a000, map_qp = Some 0x2b000, remap_qp = 0xd000, remap_buf = 0xd800,
     rqp = conn_qp example_conn_qp\<rparr>"

definition example_rsp_qp :: qp_env where
  "example_rsp_qp = example_conn_qp\<lparr>remap_qp := 0xe000, remap_buf := 0xe800, rqp := acc_qp example_acc_qp\<rparr>"

definition example_dst :: scif_port_id where
  "example_dst = \<lparr>pid_node = 0, pid_port = 80\<rparr>"

definition example_conn_env :: "(scif_node \<Rightarrow> scif_node) \<Rightarrow> conn_env" where
  "example_conn_env w = \<lparr>cn_req = idle_env, cn_ack = idle_env, cn_qp = example_conn_qp, cn_rqp = example_rsp_qp,
     cn_put = (\<lambda>_ s. s), cn_msg = example_msg, cn_wait = w, cn_left = 100\<rparr>"

definition example_acc_env :: "(scif_node \<Rightarrow> scif_node) \<Rightarrow> acc_env" where
  "example_acc_env w = \<lparr>ac_ep = 0x300, ac_qp = True, ac_anon = 0, ac_qenv = example_acc_qp, ac_put = (\<lambda>_ s. s),
     ac_gnt = idle_env, ac_rej = idle_env, ac_msg = example_msg, ac_waits = (\<lambda>_. w), ac_rounds = 1\<rparr>"

lemma example_net: "net 0 [] 2 example_client" "net 1 [] 1 example_server"
proof -
  let ?p = "zero_qp\<lparr>outbound_q := tx (rb_setup 12), outbound_mem := mem (rb_setup 12)\<rparr>"
  have l: "link ?p (rx (rb_setup 12)) = rb_setup 12" by (simp add: link_def)
  have h: "held (rb_setup 12) = 0"
    by (simp add: held_def rb_setup_def Let_def scif_rb_init_def ring_dist_def chan_size_def)
  have "chan_inv 12 (link ?p (rx (rb_setup 12)))" "queued [] (link ?p (rx (rb_setup 12)))" "held (link ?p (rx (rb_setup 12))) = 0"
    using rb_setup_inv [of 12] rb_setup_empty [of 12] h by (simp_all add: l queued_def)
  then have ex: "\<exists>r k. chan_inv k (link ?p r) \<and> queued [] (link ?p r) \<and> held (link ?p r) + MSG_SIZE * (length ([] :: scifmsg list) + n) < 2 ^ k"
    if "n \<le> 2" for n
    using that by (intro exI [of _ "rx (rb_setup 12)"] exI [of _ 12]) simp
  show "net 0 [] 2 example_client" "net 1 [] 1 example_server"
    using ex [of 1] ex [of 2] by (simp_all add: net_def example_client_def example_server_def example_peer_def dev_upd_def scifdev_self_def
        scif_init_state_def scif_setup_scifdev_def)
qed

theorem connection_established_witness:
  "\<exists>envA envB ws sA' sB' eA' eC.
    scif_connect (\<lambda>_ _ _. 0) True envA (\<lambda>s. s) 0x100 example_dst example_client = (0, sA') \<and>
    scif_accept 1 envB ws 1 SCIF_ACCEPT_SYNC True 7 0x200 example_server = Some (0, 0x300, \<lparr>pid_node = 1, pid_port = 1100\<rparr>, sB') \<and>
    eps sA' 0x100 = Some eA' \<and> eps sB' 0x300 = Some eC \<and> ep_state eA' = SCIFEP_CONNECTED \<and> ep_state eC = SCIFEP_CONNECTED \<and>
    ep_peer eA' = example_dst \<and> remote_ep eA' = 0x300 \<and> remote_ep eC = 0x100"
proof -
  let ?eA = "zero_ep\<lparr>ep_state := SCIFEP_BOUND, ep_port := \<lparr>pid_node = 1, pid_port = 1100\<rparr>,
    conn_async_state := ASYNC_CONN_IDLE, qp := Some zero_qp\<rparr>"
    and ?eL = "zero_ep\<lparr>ep_state := SCIFEP_LISTENING, ep_port := \<lparr>pid_node = 0, pid_port = 80\<rparr>, backlog := 4\<rparr>"
  have ok: "maps_ok example_conn_qp" "remaps_ok example_rsp_qp" "maps_ok example_acc_qp" "remaps_ok example_acc_qp"
    by (simp_all add: maps_ok_def remaps_ok_def example_conn_qp_def example_rsp_qp_def example_acc_qp_def)
  have rqps: "rqp example_acc_qp = conn_qp example_conn_qp" "rqp example_rsp_qp = acc_qp example_acc_qp"
    by (simp_all add: example_acc_qp_def example_rsp_qp_def)
  have "magic (rqp example_rsp_qp) = SCIFEP_MAGIC"
    using acc_qp_magic [OF ok(3,4)] conn_qp_magic [OF ok(1)] rqps by simp
  then obtain pA pB where rsp: "scif_setup_qp_connect_response example_rsp_qp (acc_rqp example_acc_qp) = (0, pA, pB)"
    using response_run [OF ok(2), of "acc_rqp example_acc_qp"]
    by (cases "scif_setup_qp_connect_response example_rsp_qp (acc_rqp example_acc_qp)") auto
  let ?E = "example_conn_env (\<lambda>s. s)" and ?F = "example_acc_env (\<lambda>s. s)"
  define req where "req = req_msg ?E 0x100 ?eA example_dst"
  define gnt where "gnt = gnt_msg ?F ?eL req"
  define ack where "ack = ack_msg req 0x300"
  let ?A = "example_conn_env (\<lambda>s. scif_cnctgnt gnt (ep_upd 0x100 (\<lambda>e. e\<lparr>qp := Some (acc_rqp example_acc_qp)\<rparr>) s))"
    and ?B = "example_acc_env (\<lambda>s. scif_cnctgnt_ack ack (ep_upd 0x300 (\<lambda>e. e\<lparr>qp := Some pB\<rparr>) s))"
  have msgs: "req = req_msg ?A 0x100 ?eA example_dst" "gnt = gnt_msg ?B ?eL req"
    "ack = ack_msg req 0x300"
    by (simp_all add: req_def gnt_def ack_def req_msg_def gnt_msg_def ack_msg_def example_conn_env_def example_acc_env_def)
  have A: "eps example_client 0x100 = Some ?eA" "ep_state ?eA = SCIFEP_BOUND" "conn_async_state ?eA = ASYNC_CONN_IDLE"
    "qp ?eA = Some zero_qp" "pid_node example_dst = 0" "0 \<le> (ucast (maxid example_client) :: u16)" "pid_port example_dst \<noteq> 0"
    "dma_ready 0 example_client"
    by (simp_all add: example_client_def example_dst_def dma_ready_def example_peer_def dev_upd_def)
  have B: "eps example_server 0x200 = Some ?eL" "ep_state ?eL = SCIFEP_LISTENING" "conreqcnt ?eL = 0" "conlist ?eL = []"
    "0 < backlog ?eL" "scif_find_listen_ep (pid_port example_dst) example_server = Some 0x200" "dma_ready 1 example_server"
    by (simp_all add: example_server_def example_dst_def dma_ready_def example_peer_def dev_upd_def zero_ep_def
        scif_find_listen_ep_def ep_port_is_def scif_init_state_def)
  have C: "pid_node (ep_port ?eA) = 1" "ac_ep ?B = 0x300" "(0x300 :: u64) \<noteq> 0" "(0x300 :: u64) \<noteq> 0x200" "ac_qp ?B" "ac_anon ?B = 0"
    "ac_rounds ?B = Suc 0" by (simp_all add: example_acc_env_def)
  have D: "maps_ok (cn_qp ?A)" "remaps_ok (cn_rqp ?A)" "maps_ok (ac_qenv ?B)" "remaps_ok (ac_qenv ?B)"
    "rqp (ac_qenv ?B) = conn_qp (cn_qp ?A)" "rqp (cn_rqp ?A) = acc_qp (ac_qenv ?B)"
    "scif_setup_qp_connect_response (cn_rqp ?A) (acc_rqp (ac_qenv ?B)) = (0, pA, pB)"
    "\<And>r s. cn_put ?A r s = s" "\<And>r s. ac_put ?B r s = s"
    using ok rqps rsp by (simp_all add: example_conn_env_def example_acc_env_def)
  have W: "cn_wait ?A = (\<lambda>s. scif_cnctgnt gnt (ep_upd 0x100 (\<lambda>e. e\<lparr>qp := Some (acc_rqp (ac_qenv ?B))\<rparr>) s))"
    "ac_waits ?B 0 = (\<lambda>s. scif_cnctgnt_ack ack (ep_upd 0x300 (\<lambda>e. e\<lparr>qp := Some pB\<rparr>) s))"
    by (simp_all add: example_conn_env_def example_acc_env_def)
  from connection_established [where envB = "\<lambda>_. ?B" and ws = "\<lambda>_ _. (False, scif_cnctreq idle_env True req)",
      OF A example_net(1) B(1-7) example_net(2) C D msgs refl W, of "\<lambda>_ _ _. 0" True "\<lambda>s. s" 0 0 7]
  show ?thesis
    by (elim exE conjE) (intro exI conjI, assumption, simp add: numeral_eq_Suc, auto simp: example_dst_def)
qed

text \<open>
  C30: a refused connection leaves the endpoint ready for another attempt. If nobody listens on
  the port, or the backlog of the listener is full, the node of the port answers the request with
  a rejection and keeps nothing of it. The rejection makes \<open>scif_connect\<close> return \<open>-ECONNREFUSED\<close>:
  the endpoint is bound to its port as before, is not on the list of connections and has no
  mapping of a queue pair left; no reference to the peer device is left over and no fault occurs.
\<close>

theorem connect_refused:
  assumes client: "eps sA a = Some eA" "ep_state eA = SCIFEP_BOUND" "conn_async_state eA \<noteq> ASYNC_CONN_INPROGRESS"
      "conn_async_state eA \<noteq> ASYNC_CONN_FLUSH_WORK" "qp eA = Some zero_qp"
      "pid_node dst = dB" "dB \<le> ucast (maxid sA)" "pid_port dst \<noteq> 0" "dma_ready dB sA" "net dB ms 1 sA" "maps_ok (cn_qp envA)"
    and server: "scif_find_listen_ep (pid_port dst) sB = None \<or>
        (\<exists>l eL. scif_find_listen_ep (pid_port dst) sB = Some l \<and> eps sB l = Some eL \<and> backlog eL \<le> conreqcnt eL)"
      "net dA ms' 1 sB" "dev_exit (devs sB dA) = OP_IDLE" "pid_node (ep_port eA) = dA"
    and messages: "req = req_msg envA a eA dst" "rej = req\<lparr>uop := SCIF_CNCT_REJ\<rparr>" "cn_wait envA = scif_cnctrej rej"
  shows "eps (scif_cnctreq q True req sB) = eps sB \<and> net dA (ms' @ [rej]) 0 (scif_cnctreq q True req sB) \<and>
    (\<exists>sA' eA'. scif_connect pick alloc envA flush a dst sA = (- ECONNREFUSED, sA') \<and> eps sA' = (eps sA)(a \<mapsto> eA') \<and>
      ep_state eA' = SCIFEP_BOUND \<and> ep_port eA' = ep_port eA \<and>
      (\<exists>p. qp eA' = Some p \<and> outbound_base p = 0 \<and> remote_qp p = 0 \<and> local_qp p = 0 \<and> local_buf p = 0) \<and>
      conn_async_state eA' = 0 \<and> connected sA' = connected sA \<and> fault sA' = fault sA \<and>
      (\<forall>b. peer_refs (devs sA' b) = peer_refs (devs sA b)))"
proof -
  have rq: "pid_port (msg_dst req) = pid_port dst" "pid_node (msg_src req) = dA" "payload0 rej = a" "uop rej > SCIF_EXIT_ACK"
    using server(4) by (simp_all add: messages(1,2) req_msg_def)
  have "net dA ms' (Suc 0) sB" using server(2) by simp
  then obtain sB' where B: "scif_nodeqp_send q dA rej sB = (0, sB')" "net dA (ms' @ [rej]) 0 sB'" "eps sB' = eps sB"
    using net_nodeqp_send [OF _ server(3) rq(4)] by metis
  have "scif_cnctreq q True req sB = conreq_sendrej q req sB"
    using server(1) by (auto simp: scif_cnctreq_def rq(1))
  then have B': "scif_cnctreq q True req sB = sB'" using B(1) by (simp add: conreq_sendrej_def rq(2) messages(2))
  have w: "cn_wait envA = scif_cnctrej rej \<and> payload0 rej = a \<or> cn_wait envA = (\<lambda>s. s)" using rq(3) messages(3) by simp
  obtain sA' eA' where A: "scif_connect pick alloc envA flush a dst sA = (- ECONNREFUSED, sA')" "eps sA' = (eps sA)(a \<mapsto> eA')"
    "ep_state eA' = SCIFEP_BOUND" "ep_port eA' = ep_port eA" "conn_async_state eA' = 0"
    "qp eA' = Some (qp_cleaned (conn_qp (cn_qp envA)))" "connected sA' = connected sA" "fault sA' = fault sA"
    "\<And>b. peer_refs (devs sA' b) = peer_refs (devs sA b)"
    using connect_rejected [OF client w] by metis
  have "\<exists>p. qp eA' = Some p \<and> outbound_base p = 0 \<and> remote_qp p = 0 \<and> local_qp p = 0 \<and> local_buf p = 0"
    using A(6) by (simp add: qp_cleaned_def)
  then show ?thesis using A B(2,3) B' by blast
qed

theorem connect_refused_witness:
  "\<exists>envA sA' eA'. scif_connect (\<lambda>_ _ _. 0) True envA (\<lambda>s. s) 0x100 \<lparr>pid_node = 0, pid_port = 81\<rparr> example_client = (- ECONNREFUSED, sA') \<and>
     eps sA' 0x100 = Some eA' \<and> ep_state eA' = SCIFEP_BOUND"
proof -
  let ?eA = "zero_ep\<lparr>ep_state := SCIFEP_BOUND, ep_port := \<lparr>pid_node = 1, pid_port = 1100\<rparr>,
    conn_async_state := ASYNC_CONN_IDLE, qp := Some zero_qp\<rparr>" and ?dst = "\<lparr>pid_node = 0, pid_port = 81\<rparr> :: scif_port_id"
  define req where "req = req_msg (example_conn_env (\<lambda>s. s)) 0x100 ?eA ?dst"
  let ?A = "example_conn_env (scif_cnctrej (req\<lparr>uop := SCIF_CNCT_REJ\<rparr>))"
  have A: "eps example_client 0x100 = Some ?eA" "ep_state ?eA = SCIFEP_BOUND" "conn_async_state ?eA \<noteq> ASYNC_CONN_INPROGRESS"
    "conn_async_state ?eA \<noteq> ASYNC_CONN_FLUSH_WORK"
    "qp ?eA = Some zero_qp" "pid_node ?dst = 0" "0 \<le> (ucast (maxid example_client) :: u16)" "pid_port ?dst \<noteq> 0"
    "dma_ready 0 example_client"
    by (simp_all add: example_client_def dma_ready_def example_peer_def dev_upd_def)
  have n: "net 0 [] 1 example_client" by (rule net_less [of _ _ 2]) (simp_all add: example_net(1))
  have B: "scif_find_listen_ep (pid_port ?dst) example_server = None" "dev_exit (devs example_server 1) = OP_IDLE"
    by (simp_all add: example_server_def example_peer_def dev_upd_def scif_find_listen_ep_def ep_port_is_def
        scif_init_state_def scif_setup_scifdev_def zero_dev_def)
  have C: "req = req_msg ?A 0x100 ?eA ?dst" "maps_ok (cn_qp ?A)" "cn_wait ?A = scif_cnctrej (req\<lparr>uop := SCIF_CNCT_REJ\<rparr>)"
    "pid_node (ep_port ?eA) = 1"
    by (simp_all add: req_def req_msg_def example_conn_env_def maps_ok_def example_conn_qp_def)
  from connect_refused [OF A n C(2) disjI1 [OF B(1)] example_net(2) B(2) C(4,1) refl C(3), of idle_env "\<lambda>_ _ _. 0" True "\<lambda>s. s"]
  show ?thesis by fastforce
qed

lemma teardown_frame:
  "ports (scif_teardown_ep a st) = ports st" "listen (scif_teardown_ep a st) = listen st"
  "b \<noteq> a \<Longrightarrow> eps (scif_teardown_ep a st) b = eps st b"
  by (auto simp: scif_teardown_ep_def scif_cleanup_ep_qp_def ep_upd_def split: option.splits)

lemma add_zombie_frame:
  "ports (scif_add_epd_to_zombie_list a st) = ports st" "listen (scif_add_epd_to_zombie_list a st) = listen st"
  "b \<noteq> a \<Longrightarrow> eps (scif_add_epd_to_zombie_list a st) b = eps st b"
  by (auto simp: scif_add_epd_to_zombie_list_def Let_def ep_upd_def split: option.splits)

text \<open>
  C31: closing an accepted connection releases its port twice. When a connected endpoint is closed
  and its peer acknowledges the disconnect, \<open>scif_discnt_ack\<close> puts the port, and \<open>scif_close\<close>,
  which remembers the state from before, puts it again. With a listener and one accepted endpoint
  on a port, which has two references then, the close of the accepted endpoint takes the port out
  of use although the listener is still listening on it.
\<close>

theorem close_releases_port_twice:
  assumes e: "eps st c = Some e" "ep_state e = SCIFEP_CONNECTED" "conn_async_state e \<noteq> ASYNC_CONN_INPROGRESS"
      "reg_list (rma_info e) = []" "mmn_list (rma_info e) = []" "remote_dev e = Some d" "c \<in> set (connected st)"
    and listener: "eps st l = Some eL" "ep_state eL = SCIFEP_LISTENING" "l \<in> set (listen st)" "ep_port eL = ep_port e" "l \<noteq> c"
    and port: "pid_port (ep_port e) \<noteq> 0" "ports st (uint (pid_port (ep_port e))) = Some port" "ref_cnt port = 2"
    and peer: "net d ms 1 st" "dev_exit (devs st d) = OP_IDLE" "cl_wait (envs c) = scif_discnt_ack ack" "payload0 ack = c"
  shows "ports (scif_close (Suc n) envs c st) (uint (pid_port (ep_port e))) = None \<and>
    eps (scif_close (Suc n) envs c st) l = Some eL \<and> l \<in> set (listen (scif_close (Suc n) envs c st))"
proof -
  let ?env = "envs c"
  define st1 where "st1 = set_state c SCIFEP_CLOSING st"
  define st2 where "st2 = ep_upd c (\<lambda>e. e\<lparr>discon := 0\<rparr>) (st1\<lparr>connected := remove1 c (connected st1)\<rparr>)"
  have 1: "eps st1 = (eps st)(c \<mapsto> e\<lparr>ep_state := SCIFEP_CLOSING\<rparr>)" "connected st1 = connected st"
    using e(1) by (simp_all add: st1_def set_state_def ep_upd_def)
  have un: "snd (scif_unregister_all_windows (cl_qs ?env) (cl_umsg ?env) c st1) = st1"
    using 1 e(4,5) by (simp add: scif_unregister_all_windows_def)
  have 2: "eps st2 = (eps st)(c \<mapsto> e\<lparr>ep_state := SCIFEP_CLOSING, discon := 0\<rparr>)" "ports st2 = ports st" "listen st2 = listen st"
    "net d ms (Suc 0) st2" "dev_exit (devs st2 d) = OP_IDLE"
    using 1 e(1) peer(1,2) by (simp_all add: st2_def st1_def set_state_def ep_upd_def)
  let ?msg = "(cl_dmsg ?env)\<lparr>uop := SCIF_DISCNCT, msg_src := ep_port e, msg_dst := ep_peer e, payload0 := c, payload1 := remote_ep e\<rparr>"
  have "uop ?msg > SCIF_EXIT_ACK" by simp
  then obtain st3 where 3: "scif_nodeqp_send (cl_send ?env) d ?msg st2 = (0, st3)" "eps st3 = eps st2"
    using net_nodeqp_send [OF 2(4,5)] by metis
  have "st3 = snd (scif_nodeqp_send (cl_send ?env) d ?msg st2)" using 3(1) by simp
  then have 4: "ports st3 = ports st" "listen st3 = listen st" using 2(2,3) by simp_all
  have "ep_upd c (\<lambda>e. e\<lparr>discon := 0\<rparr>) (st1\<lparr>connected := remove1 c (connected st)\<rparr>) = st2" by (simp add: st2_def 1(2))
  then have sent: "disconnect_send ?env c st1 = (True, st3)"
    using e(6,7) 1(2) 2(1) 3(1) by (simp add: disconnect_send_def ep_send_def Let_def)
  define st4 where "st4 = scif_discnt_ack ack st3"
  let ?p = "pid_port (ep_port e)" and ?e4 = "e\<lparr>ep_state := SCIFEP_DISCONNECTED, discon := 1\<rparr>"
  have 5: "eps st4 = (eps st)(c \<mapsto> ?e4)" "ports st4 = scif_put_port ?p (ports st)" "listen st4 = listen st"
    using 2(1) 3(2) 4 peer(4) by (simp_all add: st4_def scif_discnt_ack_def ep_upd_def ep_put_port_def)
  have run: "scif_close (Suc n) envs c st = close_end SCIFEP_CONNECTED c st4"
    using e(1-3) un sent peer(3) by (simp add: st1_def [symmetric] scif_disconnect_ep_def st4_def)
  let ?st5 = "ep_upd c (\<lambda>e. e\<lparr>anon := False\<rparr>) (ep_put_port c st4)"
  have 6: "eps ?st5 = (eps st)(c \<mapsto> ?e4\<lparr>anon := False\<rparr>)" "ports ?st5 = scif_put_port ?p (scif_put_port ?p (ports st))"
    "listen ?st5 = listen st"
    using 5 by (simp_all add: ep_put_port_def ep_upd_eps)
  have twice: "scif_put_port ?p (scif_put_port ?p (ports st)) (uint ?p) = None"
    using port by (simp add: scif_put_port_def Let_def)
  show ?thesis unfolding run
    using 6 twice listener by (simp add: close_end_def add_zombie_frame teardown_frame)
qed

definition example_accepted :: scif_node where
  "example_accepted = example_server\<lparr>connected := [0x300], ports := [80 \<mapsto> \<lparr>ref_cnt = 2\<rparr>],
     eps := (eps example_server)(0x300 \<mapsto> zero_ep\<lparr>ep_state := SCIFEP_CONNECTED, ep_port := \<lparr>pid_node = 0, pid_port = 80\<rparr>,
       remote_dev := Some 1\<rparr>)\<rparr>"

theorem close_releases_port_twice_witness:
  "\<exists>envs. ports example_accepted 80 \<noteq> None \<and> ports (scif_close 2 envs 0x300 example_accepted) 80 = None \<and>
     (\<exists>eL. eps (scif_close 2 envs 0x300 example_accepted) 0x200 = Some eL \<and> ep_state eL = SCIFEP_LISTENING)"
proof -
  let ?eL = "zero_ep\<lparr>ep_state := SCIFEP_LISTENING, ep_port := \<lparr>pid_node = 0, pid_port = 80\<rparr>, backlog := 4\<rparr>"
    and ?e = "zero_ep\<lparr>ep_state := SCIFEP_CONNECTED, ep_port := \<lparr>pid_node = 0, pid_port = 80\<rparr>, remote_dev := Some 1\<rparr>"
  define envs where "envs = (\<lambda>_ :: u64. \<lparr>cl_qs = loop_env, cl_umsg = example_msg, cl_send = idle_env, cl_dmsg = example_msg,
    cl_wait = scif_discnt_ack (example_msg\<lparr>payload0 := 0x300\<rparr>), cl_flush = (\<lambda>s. s)\<rparr>)"
  have A: "eps example_accepted 0x300 = Some ?e" "ep_state ?e = SCIFEP_CONNECTED" "conn_async_state ?e \<noteq> ASYNC_CONN_INPROGRESS"
    "reg_list (rma_info ?e) = []" "mmn_list (rma_info ?e) = []" "remote_dev ?e = Some 1" "0x300 \<in> set (connected example_accepted)"
    by (simp_all add: example_accepted_def zero_ep_def zero_rma_def)
  have B: "eps example_accepted 0x200 = Some ?eL" "ep_state ?eL = SCIFEP_LISTENING" "0x200 \<in> set (listen example_accepted)"
    "ep_port ?eL = ep_port ?e" "(0x200 :: u64) \<noteq> 0x300" "pid_port (ep_port ?e) \<noteq> 0"
    "ports example_accepted (uint (pid_port (ep_port ?e))) = Some \<lparr>ref_cnt = 2\<rparr>" "ref_cnt \<lparr>ref_cnt = 2\<rparr> = 2"
    by (simp_all add: example_accepted_def example_server_def)
  have n: "net 1 [] 1 example_accepted" using example_net(2) by (simp add: net_def example_accepted_def scifdev_self_def)
  have D: "dev_exit (devs example_accepted 1) = OP_IDLE" "cl_wait (envs 0x300) = scif_discnt_ack (example_msg\<lparr>payload0 := 0x300\<rparr>)"
    "payload0 (example_msg\<lparr>payload0 := 0x300\<rparr>) = 0x300"
    by (simp_all add: example_accepted_def example_server_def example_peer_def dev_upd_def scif_init_state_def
        scif_setup_scifdev_def zero_dev_def envs_def)
  have num: "Suc 1 = 2" "uint (pid_port (ep_port ?e)) = 80" by simp_all
  note r = close_releases_port_twice [where envs = envs and n = 1, OF A B n D, unfolded num]
  have "ports example_accepted 80 \<noteq> None" using B(7) [unfolded num] by simp
  with r B(2) show ?thesis by blast
qed

end
