(* ===== verification/Scif_Steps.thy ===== *)
theory Scif_Steps
  imports Scif_Conn
begin

text \<open>
  The node under any interleaving. The relation \<open>runs\<close> relates the states before and after an
  activity of a node: a message handler on any message, also one that no correct peer would send,
  or a call of the interface, in whose waits any further activity may take place. The theory shows
  what every activity keeps: the endpoints stay well formed, the node keeps its number, and every
  reference taken on a peer device is given back.
\<close>

section \<open>What an activity keeps\<close>

text \<open>
  A well-formed endpoint counts its waiting requests correctly and has no more of them than its
  backlog allows, which is never above the limit of the driver.
\<close>

definition ep_ok :: "scif_endpt \<Rightarrow> bool" where
  "ep_ok e \<longleftrightarrow> conreqcnt e = int (length (conlist e)) \<and> conreqcnt e \<le> backlog e \<and> backlog e \<le> SCIF_MAX_BACKLOG"

definition eps_ok :: "scif_node \<Rightarrow> bool" where
  "eps_ok st \<longleftrightarrow> (\<forall>a e. eps st a = Some e \<longrightarrow> ep_ok e)"

text \<open>
  \<open>keeps k st st'\<close>: from \<open>st\<close> to \<open>st'\<close> the endpoints stay well formed and \<open>k b\<close> references to
  device \<open>b\<close> are taken, unless the node has touched memory that it does not own.
\<close>

definition keeps :: "(u16 \<Rightarrow> int) \<Rightarrow> scif_node \<Rightarrow> scif_node \<Rightarrow> bool" where
  "keeps k st st' \<longleftrightarrow> (fault st \<longrightarrow> fault st') \<and> (eps_ok st \<longrightarrow> eps_ok st') \<and> nodeid st' = nodeid st \<and>
     (fault st' \<or> (\<forall>b. peer_refs (devs st' b) = peer_refs (devs st b) + k b))"

abbreviation none :: "u16 \<Rightarrow> int" where "none \<equiv> (\<lambda>_. 0)"

definition one :: "u16 \<Rightarrow> u16 \<Rightarrow> int" where
  "one d b = (if b = d then 1 else 0)"

named_theorems keeps_intros "steps that keep the node in order"

lemma keeps_refl [keeps_intros]: "keeps none st st"
  by (simp add: keeps_def)

lemma keeps_then: "keeps k st s \<Longrightarrow> keeps none s s' \<Longrightarrow> keeps k st s'"
  by (auto simp: keeps_def)

lemma keeps_fault_any: "keeps k st s \<Longrightarrow> keeps l st (s\<lparr>fault := True\<rparr>)"
  by (auto simp: keeps_def eps_ok_def)

lemma keeps_fault [keeps_intros]: "keeps k st s \<Longrightarrow> keeps k st (s\<lparr>fault := True\<rparr>)"
  by (rule keeps_fault_any)

lemma keeps_ep [keeps_intros]: "keeps k st s \<Longrightarrow> (\<And>e. ep_ok e \<Longrightarrow> ep_ok (f e)) \<Longrightarrow> keeps k st (ep_upd a f s)"
  by (auto simp: keeps_def eps_ok_def ep_upd_def split: option.split)

lemma keeps_ep_const: "keeps k st s \<Longrightarrow> ep_ok e \<Longrightarrow> keeps k st (ep_upd a (\<lambda>_. e) s)"
  by (rule keeps_ep)

lemma keeps_new [keeps_intros]: "keeps k st s \<Longrightarrow> ep_ok e \<Longrightarrow> keeps k st (s\<lparr>eps := (eps s)(a \<mapsto> e)\<rparr>)"
  by (auto simp: keeps_def eps_ok_def)

lemma keeps_ep_free [keeps_intros]: "keeps k st s \<Longrightarrow> keeps k st (ep_free a s)"
  by (auto simp: keeps_def eps_ok_def ep_free_def)

lemma keeps_fields [keeps_intros]:
  "keeps k st s \<Longrightarrow> keeps k st (s\<lparr>ports := P\<rparr>)" "keeps k st s \<Longrightarrow> keeps k st (s\<lparr>nb_connect_list := xs\<rparr>)"
  "keeps k st s \<Longrightarrow> keeps k st (s\<lparr>listen := xs\<rparr>)" "keeps k st s \<Longrightarrow> keeps k st (s\<lparr>connected := xs\<rparr>)"
  "keeps k st s \<Longrightarrow> keeps k st (s\<lparr>disconnected := xs\<rparr>)" "keeps k st s \<Longrightarrow> keeps k st (s\<lparr>uaccept := xs\<rparr>)"
  "keeps k st s \<Longrightarrow> keeps k st (s\<lparr>mmu_notif_cleanup := xs\<rparr>)" "keeps k st s \<Longrightarrow> keeps k st (s\<lparr>rma_free := xs\<rparr>)"
  "keeps k st s \<Longrightarrow> keeps k st (s\<lparr>wins := W\<rparr>)" "keeps k st s \<Longrightarrow> keeps k st (s\<lparr>pins := Q\<rparr>)"
  "keeps k st s \<Longrightarrow> keeps k st (s\<lparr>pinned_vm := V\<rparr>)" "keeps k st s \<Longrightarrow> keeps k st (s\<lparr>loopb_wq := ms\<rparr>)"
  "keeps k st s \<Longrightarrow> keeps k st (s\<lparr>zombie := xs, nr_zombies := n\<rparr>)"
  by (simp_all add: keeps_def eps_ok_def)

lemma keeps_dev [keeps_intros]:
  "keeps k st s \<Longrightarrow> (\<And>v. peer_refs (f v) = peer_refs v) \<Longrightarrow> keeps k st (dev_upd d f s)"
  by (auto simp: keeps_def eps_ok_def dev_upd_def)

lemma keeps_memory [keeps_intros]:
  "keeps k st s \<Longrightarrow> keeps k st (kzalloc p s)" "keeps k st s \<Longrightarrow> keeps k st (kfree p s)"
  by (auto simp: keeps_def eps_ok_def kzalloc_def kfree_def)

lemma keeps_win [keeps_intros]:
  "keeps k st s \<Longrightarrow> keeps k st (win_upd w g s)" "keeps k st s \<Longrightarrow> keeps k st (win_free w s)"
  "keeps k st s \<Longrightarrow> keeps k st (pin_upd p h s)"
  by (auto simp: keeps_def eps_ok_def win_upd_def win_free_def pin_upd_def split: option.split)

lemma keeps_get:
  "scif_get_peer_dev d s = (True, s') \<Longrightarrow> keeps none st s \<Longrightarrow> keeps (one d) st s'"
  "scif_get_peer_dev d s = (False, s') \<Longrightarrow> keeps k st s \<Longrightarrow> keeps k st s'"
  by (auto simp: keeps_def eps_ok_def scif_get_peer_dev_def dev_upd_def one_def split: if_splits)

lemma keeps_put [keeps_intros]: "keeps (one d) st s \<Longrightarrow> keeps none st (scif_put_peer_dev True d s)"
  by (auto simp: keeps_def eps_ok_def scif_put_peer_dev_def dev_upd_def one_def)

lemma keeps_raw_send [keeps_intros]: "keeps k st s \<Longrightarrow> keeps k st (snd (raw_nodeqp_send q d msg s))"
  by (rule keeps_then, assumption)
    (auto simp: raw_nodeqp_send_def scif_loopback_nodeqp_send_def split: option.split intro!: keeps_intros)

lemma keeps_send [keeps_intros]: "keeps k st s \<Longrightarrow> keeps k st (snd (scif_nodeqp_send q d msg s))"
proof (rule keeps_then, assumption)
  obtain spdev s1 where g: "scif_get_peer_dev d s = (spdev, s1)" by fastforce
  have "keeps none s (scif_put_peer_dev True d (snd (raw_nodeqp_send q d msg s1)))" if spdev
    using keeps_get(1) [of d s s1 s] g that by (auto intro!: keeps_intros)
  moreover have "keeps none s s1" if "\<not> spdev"
    using keeps_get(2) [of d s s1 none s] g that by (auto intro!: keeps_intros)
  moreover have "keeps none s (snd (raw_nodeqp_send q d msg s))" by (intro keeps_intros)
  ultimately show "keeps none s (snd (scif_nodeqp_send q d msg s))"
    by (auto simp: scif_nodeqp_send_def g split_beta keeps_refl)
qed

lemma keeps_ep_sends [keeps_intros]:
  "keeps k st s \<Longrightarrow> keeps k st (snd (ep_send q e msg s))" "keeps k st s \<Longrightarrow> keeps k st (snd (ep_raw_send q e msg s))"
  by (auto simp: ep_send_def ep_raw_send_def split: option.split intro!: keeps_intros)

text \<open>The same rules for sends whose result is a pair.\<close>

lemma keeps_sent:
  "raw_nodeqp_send q d msg s = (err, s') \<Longrightarrow> keeps k st s \<Longrightarrow> keeps k st s'"
  "scif_nodeqp_send q d msg s = (err, s') \<Longrightarrow> keeps k st s \<Longrightarrow> keeps k st s'"
  "ep_send q e msg s = (err, s') \<Longrightarrow> keeps k st s \<Longrightarrow> keeps k st s'"
  "ep_raw_send q e msg s = (err, s') \<Longrightarrow> keeps k st s \<Longrightarrow> keeps k st s'"
  using keeps_raw_send [of k st s q d msg] keeps_send [of k st s q d msg] keeps_ep_sends [of k st s q e msg] by simp_all

section \<open>Handlers\<close>

lemma ep_ok_upd [simp]:
  "ep_ok (e\<lparr>ep_state := s\<rparr>) = ep_ok e" "ep_ok (e\<lparr>qp := q\<rparr>) = ep_ok e" "ep_ok (e\<lparr>rma_info := r\<rparr>) = ep_ok e"
  "ep_ok (e\<lparr>qp_offset := off\<rparr>) = ep_ok e" "ep_ok (e\<lparr>ep_port := p\<rparr>) = ep_ok e" "ep_ok (e\<lparr>ep_peer := p\<rparr>) = ep_ok e"
  "ep_ok (e\<lparr>gnt_pld := g\<rparr>) = ep_ok e" "ep_ok (e\<lparr>remote_ep := a\<rparr>) = ep_ok e" "ep_ok (e\<lparr>remote_dev := d\<rparr>) = ep_ok e"
  "ep_ok (e\<lparr>discon := n\<rparr>) = ep_ok e" "ep_ok (e\<lparr>anon := b\<rparr>) = ep_ok e" "ep_ok (e\<lparr>ep_files := f\<rparr>) = ep_ok e"
  "ep_ok (e\<lparr>conn_err := i\<rparr>) = ep_ok e" "ep_ok (e\<lparr>conn_async_state := i\<rparr>) = ep_ok e" "ep_ok (e\<lparr>conn_port := p\<rparr>) = ep_ok e"
  "ep_ok (e\<lparr>li_accept := xs\<rparr>) = ep_ok e" "ep_ok (e\<lparr>acceptcnt := i\<rparr>) = ep_ok e"
  by (simp_all add: ep_ok_def)

lemma ep_ok_zero [simp]: "ep_ok zero_ep" "ep_ok (scif_rma_ep_init e) = ep_ok e"
  by (simp_all add: ep_ok_def zero_ep_def scif_rma_ep_init_def)

lemma keeps_splits:
  "(b \<Longrightarrow> keeps k st x) \<Longrightarrow> (\<not> b \<Longrightarrow> keeps k st y) \<Longrightarrow> keeps k st (if b then x else y)"
  "(u = None \<Longrightarrow> keeps k st x) \<Longrightarrow> (\<And>v. u = Some v \<Longrightarrow> keeps k st (f v)) \<Longrightarrow> keeps k st (case u of None \<Rightarrow> x | Some v \<Rightarrow> f v)"
  "(\<And>v w. p = (v, w) \<Longrightarrow> keeps k st (g v w)) \<Longrightarrow> keeps k st (case p of (v, w) \<Rightarrow> g v w)"
  by (simp, cases u, simp_all split: prod.split)

text \<open>An update that is allowed because of the endpoint found before it.\<close>

lemma keeps_ep_at: "eps s a = Some e \<Longrightarrow> (ep_ok e \<Longrightarrow> ep_ok (f e)) \<Longrightarrow> keeps k st s \<Longrightarrow> keeps k st (ep_upd a f s)"
  by (auto simp: keeps_def eps_ok_def ep_upd_def)

lemma keeps_release [keeps_intros]:
  "keeps k st s \<Longrightarrow> keeps k st (scif_cleanup_ep_qp a s)" "keeps k st s \<Longrightarrow> keeps k st (set_state a x s)"
  "keeps k st s \<Longrightarrow> keeps k st (ep_wake a s)" "keeps k st s \<Longrightarrow> keeps k st (ep_put_port a s)"
  "keeps k st s \<Longrightarrow> keeps k st (rma_upd a h s)" "keeps k st s \<Longrightarrow> keeps k st (scif_add_epd_to_zombie_list a s)"
  unfolding scif_cleanup_ep_qp_def set_state_def ep_wake_def ep_put_port_def rma_upd_def scif_add_epd_to_zombie_list_def Let_def
  by (intro keeps_intros keeps_splits; simp)+

lemma keeps_teardown [keeps_intros]: "keeps k st s \<Longrightarrow> keeps k st (scif_teardown_ep a s)"
  unfolding scif_teardown_ep_def by (intro keeps_intros keeps_splits) simp_all

lemma keeps_cnctreq: "keeps none st (scif_cnctreq q alloc msg st)"
  unfolding scif_cnctreq_def conreq_sendrej_def
proof (intro keeps_splits keeps_send keeps_fault keeps_refl)
  fix a e assume "eps st a = Some e" "\<not> backlog e \<le> conreqcnt e"
  then show "keeps none st (ep_upd a (\<lambda>e. e\<lparr>conlist := conlist e @ [msg], conreqcnt := conreqcnt e + 1\<rparr>) st)"
    by (intro keeps_ep_at keeps_refl) (auto simp: ep_ok_def)
qed

lemma keeps_conn_handlers:
  "keeps none st (scif_cnctgnt msg st)" "keeps none st (scif_cnctgnt_ack msg st)"
  "keeps none st (scif_cnctgnt_nack msg st)" "keeps none st (scif_cnctrej msg st)" "keeps none st (scif_discnct q msg st)"
  "keeps none st (scif_discnt_ack msg st)" "keeps none st (scif_clientsend msg st)" "keeps none st (scif_clientrcvd msg st)"
  unfolding scif_cnctgnt_def scif_cnctgnt_ack_def scif_cnctgnt_nack_def scif_cnctrej_def scif_discnct_def scif_discnt_ack_def
    scif_clientsend_def scif_clientrcvd_def Let_def
  by (intro keeps_intros keeps_splits; simp)+

lemma zombie_walk_keeps: "keeps k st s \<Longrightarrow> keeps k st (zombie_walk as s)"
proof (induction as arbitrary: s)
  case (Cons a as)
  show ?case unfolding zombie_walk.simps by (rule Cons.IH) (intro keeps_intros keeps_splits Cons.prems)
qed simp

lemma keeps_unlink [keeps_intros]: "keeps k st s \<Longrightarrow> keeps k st (win_unlink w s)"
  by (auto simp: keeps_def eps_ok_def win_unlink_def)

lemma keeps_queue [keeps_intros]: "keeps k st s \<Longrightarrow> keeps k st (scif_queue_for_cleanup w s)"
  unfolding scif_queue_for_cleanup_def Let_def by (intro keeps_intros)

lemma keeps_remote_window [keeps_intros]: "keeps k st s \<Longrightarrow> keeps k st (scif_destroy_remote_window w s)"
  unfolding scif_destroy_remote_window_def by (intro keeps_intros)

lemma keeps_win_release [keeps_intros]:
  "keeps k st s \<Longrightarrow> keeps k st (win_drop_pid has_mm w s)" "keeps k st s \<Longrightarrow> keeps k st (free_offset rb a w s)"
  "keeps k st s \<Longrightarrow> keeps k st (win_lock w s)"
  unfolding win_drop_pid_def free_offset_def win_lock_def scif_dec_pinned_vm_def Let_def prod.case
  by (intro keeps_intros keeps_splits; simp)+

lemma keeps_create_remote: "keeps none st (snd (scif_create_remote_window wa env nr st))"
  by (auto simp: scif_create_remote_window_def Let_def split: option.split intro!: keeps_intros)

lemma keeps_alloc_req: "keeps none st (scif_alloc_req q wa env d msg st)"
  unfolding scif_alloc_req_def Let_def
proof (intro keeps_splits keeps_remote_window)
  fix w s1 err s2
  assume "scif_create_remote_window wa env (sint (ucast (payload1 msg) :: u32)) st = (w, s1)"
  then have 1: "keeps none st s1" using keeps_create_remote [of st wa env] by (metis snd_conv)
  then show "keeps none st (snd (scif_nodeqp_send q d (msg\<lparr>uop := SCIF_ALLOC_REJ\<rparr>) s1))" by (intro keeps_intros)
  assume "scif_nodeqp_send q d (msg\<lparr>uop := SCIF_ALLOC_GNT, payload0 := w, payload1 := mapped_offset (win_at s1 w)\<rparr>) s1 = (err, s2)"
  then show "keeps none st s2" "keeps none st s2" using 1 by (rule keeps_sent)+
qed

lemma keeps_rma_handlers:
  "keeps none st (scif_alloc_gnt_rej msg st)" "keeps none st (scif_free_virt msg st)"
  "keeps none st (scif_recv_reg q msg st)" "keeps none st (scif_recv_reg_ack msg st)"
  "keeps none st (scif_recv_reg_nack msg st)" "keeps none st (scif_recv_used_window msg st)"
  unfolding scif_alloc_gnt_rej_def scif_free_virt_def scif_recv_reg_def scif_recv_reg_ack_def scif_recv_reg_nack_def
    scif_recv_used_window_def Let_def
  by (intro keeps_intros keeps_splits; simp)+

lemma keeps_recv_unreg: "keeps none st (scif_recv_unreg q msg st)" "keeps none st (scif_recv_del_window rb has_mm msg st)"
  unfolding scif_recv_unreg_def scif_recv_del_window_def Let_def by (intro keeps_intros keeps_splits; simp)+

section \<open>Calls\<close>

lemma keeps_open: "keeps none st (snd (scif_open ea qp_ok anon_err st))"
  by (auto simp: scif_open_def intro!: keeps_intros)

lemma keeps_bind: "keeps none st (snd (scif_bind pick alloc cap a pn st))"
  by (auto simp: scif_bind_def Let_def split_beta split: option.split intro!: keeps_intros)

lemma keeps_listen: "keeps none st (snd (scif_listen a bl st))"
proof (cases "0 < bl \<and> (\<exists>e. eps st a = Some e \<and> ep_state e = SCIFEP_BOUND)")
  case True
  let ?f = "\<lambda>e. e\<lparr>ep_state := SCIFEP_LISTENING, backlog := min bl SCIF_MAX_BACKLOG, conreqcnt := 0, conlist := [],
    li_accept := [], acceptcnt := 0\<rparr>"
  have "keeps none st (scif_teardown_ep a (ep_upd a ?f st))"
    using True by (intro keeps_intros) (auto simp: ep_ok_def)
  with True show ?thesis by (auto simp: scif_listen_def Let_def intro!: keeps_fields)
next
  case False
  then show ?thesis
    by (auto simp: scif_listen_def keeps_fault keeps_refl split: option.split scif_epd_state.split)
qed

lemma keeps_flush: "keeps none st (snd (scif_flush a st))"
  by (auto simp: scif_flush_def intro!: keeps_intros)

lemma keeps_reserve: "keeps none st (snd (scif_reserve_dma_chan a st))"
  unfolding scif_reserve_dma_chan_def Let_def
  by (auto split: option.split intro!: keeps_intros)

lemma keeps_setup_qp:
  "scif_setup_qp_connect env n p off s = (err, off', p', s') \<Longrightarrow> keeps k st s \<Longrightarrow> keeps k st s'"
  "scif_setup_qp_accept env n p off s = (err, off', p', r', s') \<Longrightarrow> keeps k st s \<Longrightarrow> keeps k st s'"
  by (auto simp: scif_setup_qp_connect_def scif_setup_qp_accept_def Let_def split: if_splits option.splits intro!: keeps_intros)

lemma keeps_conn_request:
  "case conn_request env a st of Inl (r, s) \<Rightarrow> keeps none st s | Inr (d, msg, s) \<Rightarrow> keeps (one d) st s"
proof -
  obtain err s1 where 1: "scif_reserve_dma_chan a st = (err, s1)" by fastforce
  then have k1: "keeps none st s1" using keeps_reserve [of st a] by simp
  show ?thesis
  proof (cases "err = 0 \<and> (\<exists>e p d. eps s1 a = Some e \<and> qp e = Some p \<and> remote_dev e = Some d)")
    case False
    then show ?thesis
      using k1 by (auto simp: conn_request_def 1 split: option.split intro: keeps_release keeps_fault)
  next
    case True
    then obtain e p d where e: "err = 0" "eps s1 a = Some e" "qp e = Some p" "remote_dev e = Some d" by blast
    obtain err2 off p' s2 where 2: "scif_setup_qp_connect (cn_qp env) SCIF_ENDPT_QP_SIZE p (qp_offset e) s1 = (err2, off, p', s2)"
      by (metis surj_pair)
    let ?s3 = "ep_upd a (\<lambda>e. e\<lparr>qp := Some p', qp_offset := off\<rparr>) s2"
    have k3: "keeps none st ?s3" using keeps_setup_qp(1) [OF 2 k1] by (intro keeps_ep) simp_all
    obtain sp s4 where 4: "scif_get_peer_dev d ?s3 = (sp, s4)" by fastforce
    let ?msg = "(cn_msg env)\<lparr>msg_src := ep_port e, msg_dst := conn_port e, uop := SCIF_CNCT_REQ, payload0 := a, payload1 := off\<rparr>"
    obtain err5 s5 where 5: "raw_nodeqp_send (cn_req env) d ?msg s4 = (err5, s5)" by fastforce
    have "keeps (one d) st s5" if sp using that keeps_get(1) [of d ?s3 s4 st] 4 k3 keeps_sent(1) [OF 5] by simp
    moreover have "keeps none st s4" if "\<not> sp" using that keeps_get(2) [of d ?s3 s4 none st] 4 k3 by simp
    ultimately show ?thesis using k3
      by (auto simp: conn_request_def Let_def 1 2 4 5 e intro!: keeps_release keeps_put)
  qed
qed

text \<open>The store into the queue pair of the peer and the wait are activities of their own.\<close>

lemma keeps_conn_finish:
  assumes s: "keeps (one d) st s" and put: "\<And>r s. keeps none s (cn_put env r s)"
  shows "keeps none st (snd (conn_finish env a d msg err s))"
proof -
  define s1 where "s1 = (if err = 0 then set_state a SCIFEP_BOUND s else s)"
  have k1: "keeps (one d) st s1" using s by (simp add: s1_def keeps_release)
  have mapped: "keeps none st (snd (conn_mapped env a d msg e p d' s1))" for e p d'
  proof -
    obtain err2 p' r' where 2: "scif_setup_qp_connect_response (cn_rqp env) p = (err2, p', r')" by (metis surj_pair)
    let ?s2 = "ep_upd a (\<lambda>e. e\<lparr>qp := Some p'\<rparr>) (cn_put env r' s1)"
    have "keeps (one d) st ?s2" using keeps_then [OF k1 put] by (intro keeps_ep) simp_all
    then have sent: "keeps (one d) st (snd (raw_nodeqp_send q d' m ?s2))" for q m by (rule keeps_raw_send)
    show ?thesis
      unfolding conn_mapped_def 2 Let_def prod.case conn_fail_def
      by (auto simp: split_beta intro!: keeps_release keeps_put keeps_fields sent)
  qed
  show ?thesis
    unfolding conn_finish_def Let_def s1_def [symmetric] conn_fail_def
    using k1 mapped by (auto split: option.split intro!: keeps_release keeps_put keeps_fault_any)
qed

lemma keeps_conn_func:
  assumes "\<And>s. keeps none s (cn_wait env s)" "\<And>r s. keeps none s (cn_put env r s)"
  shows "keeps none st (snd (scif_conn_func env a st))"
proof (cases "conn_request env a st")
  case (Inl r)
  with keeps_conn_request [of st env a] show ?thesis by (auto simp: scif_conn_func_def)
next
  case (Inr r)
  obtain d msg s where r: "r = (d, msg, s)" by (metis surj_pair)
  then have "keeps (one d) st (cn_wait env s)"
    using keeps_conn_request [of st env a] Inr keeps_then assms(1) by fastforce
  then show ?thesis
    using keeps_conn_finish [OF _ assms(2)] by (simp add: scif_conn_func_def Inr r wait_event_timeout_def Let_def)
qed

lemma ep_ok_connect_switch:
  "connect_switch pick alloc own dst non_block e pts = (err, e', pts') \<Longrightarrow> ep_ok e' = ep_ok e"
  by (auto simp: connect_switch_def connect_bound_def Let_def split: scif_epd_state.splits if_splits prod.splits)

lemma keeps_connect_begin: "keeps none st (snd (connect_begin pick alloc a dst non_block st))"
proof -
  let ?d = "pid_node dst"
  obtain sp s1 where 1: "scif_get_peer_dev ?d st = (sp, s1)" by fastforce
  show ?thesis
  proof (cases "sp \<and> (\<exists>e. eps s1 a = Some e)")
    case False
    have "keeps none st s1" if "\<not> sp" using that keeps_get(2) [of ?d st s1 none st] 1 keeps_refl by simp
    moreover have "keeps (one ?d) st s1" if sp using that keeps_get(1) [of ?d st s1 st] 1 keeps_refl by simp
    ultimately show ?thesis using False
      by (auto simp: connect_begin_def 1 Let_def split: option.split intro: keeps_refl keeps_fault_any)
  next
    case True
    then obtain e where e: "eps s1 a = Some e" by blast
    have k1: "keeps (one ?d) st s1" using True keeps_get(1) [of ?d st s1 st] 1 keeps_refl by simp
    obtain err e1 P where sw: "connect_switch pick alloc (nodeid st) dst non_block e (ports s1) = (err, e1, P)"
      by (metis surj_pair)
    let ?s2 = "ep_upd a (\<lambda>_. e1) (s1\<lparr>ports := P\<rparr>)"
    have k2: "keeps (one ?d) st ?s2"
      using k1 e ep_ok_connect_switch [OF sw] by (intro keeps_ep_at keeps_fields) auto
    define s2 where "s2 = ?s2"
    have k2': "keeps (one ?d) st s2" using k2 by (simp add: s2_def)
    show ?thesis
      unfolding connect_begin_def Let_def 1 prod.case e option.case sw s2_def [symmetric]
      using True k2' keeps_fault_any [OF k2'] by (auto split: option.split intro!: keeps_refl keeps_put keeps_fields keeps_ep)
  qed
qed

lemma keeps_connect:
  assumes "\<And>s. keeps none s (cn_wait env s)" "\<And>r s. keeps none s (cn_put env r s)" "\<And>s. keeps none s (flush s)"
  shows "keeps none st (snd (scif_connect_nb pick alloc env flush a dst non_block st))"
proof -
  obtain c s where c: "connect_begin pick alloc a dst non_block st = (c, s)" by fastforce
  then have k: "keeps none st s" using keeps_connect_begin [of st pick alloc a dst non_block] by simp
  have "keeps none st (snd (connect_collect a (flush s)))"
    using keeps_then [OF k assms(3)] by (auto simp: connect_collect_def split: option.split intro!: keeps_fault keeps_ep)
  moreover have "keeps none st (snd (scif_conn_func env a s))"
    using keeps_then [OF k] keeps_conn_func [OF assms(1,2)] by blast
  ultimately show ?thesis using k by (simp add: scif_connect_nb_def c split: conn_next.split)
qed

lemma keeps_conn_handler:
  assumes "\<And>a s. keeps none s (cn_wait (envs a) s)" "\<And>a r s. keeps none s (cn_put (envs a) r s)"
  shows "keeps none st s \<Longrightarrow> scif_conn_handler envs n s = Some s' \<Longrightarrow> keeps none st s'"
proof (induction n arbitrary: s)
  case (Suc n)
  show ?case
  proof (cases "nb_connect_list s")
    case (Cons a as)
    obtain err s1 where 1: "scif_conn_func (envs a) a (s\<lparr>nb_connect_list := as\<rparr>) = (err, s1)" by fastforce
    have "keeps none st (s\<lparr>nb_connect_list := as\<rparr>)" using Suc.prems(1) by (rule keeps_fields)
    then have "keeps none st s1"
      using keeps_then keeps_conn_func [of "envs a" "s\<lparr>nb_connect_list := as\<rparr>" a, OF assms] 1 by (metis snd_conv)
    then have "keeps none st (ep_upd a (\<lambda>e. e\<lparr>conn_err := err\<rparr>) s1)" by (rule keeps_ep) simp
    then show ?thesis using Suc.IH Suc.prems(2) Cons 1 by simp
  qed (use Suc.prems in simp)
qed (simp split: if_splits)

lemma keeps_reject [keeps_intros]:
  "keeps k st s \<Longrightarrow> keeps k st (accept_reject env msg req s)" "keeps k st s \<Longrightarrow> keeps k st (accept_undo env msg req s)"
  unfolding accept_reject_def accept_undo_def Let_def by (intro keeps_intros; simp)+

lemma keeps_accept_grant:
  assumes put: "\<And>r s. keeps none s (ac_put env r s)"
  shows "case accept_grant env l req st of Inl (r, s) \<Rightarrow> keeps none st s | Inr (msg, s) \<Rightarrow> keeps none st s"
proof -
  let ?c = "ac_ep env" and ?d = "pid_node (msg_src req)"
  let ?s1 = "st\<lparr>eps := (eps st)(?c \<mapsto> scif_rma_ep_init (zero_ep\<lparr>ep_state := SCIFEP_CONNECTING, remote_dev := Some ?d,
    remote_ep := payload0 req\<rparr>))\<rparr>"
  obtain err2 s2 where 2: "scif_reserve_dma_chan ?c ?s1 = (err2, s2)" by fastforce
  have "keeps none st ?s1" by (rule keeps_new) (simp_all add: keeps_refl)
  then have k2: "keeps none st s2" using keeps_then keeps_reserve [of ?s1 ?c] 2 by (metis snd_conv)
  let ?p = "zero_qp\<lparr>magic := SCIFEP_MAGIC\<rparr>" and ?s3 = "ep_upd ?c (\<lambda>e. e\<lparr>qp := Some zero_qp\<rparr>) s2"
  let ?s4 = "ep_upd ?c (\<lambda>e. e\<lparr>qp := Some ?p, anon := True\<rparr>) ?s3"
  have k3: "keeps none st ?s3" "keeps none st ?s4" using k2 by (simp_all add: keeps_ep)
  obtain sp s5 where 5: "scif_get_peer_dev ?d ?s4 = (sp, s5)" by fastforce
  have k5: "\<not> sp \<Longrightarrow> keeps none st s5" "sp \<Longrightarrow> keeps (one ?d) st s5"
    using keeps_get(2) [of ?d ?s4 s5 none st] keeps_get(1) [of ?d ?s4 s5 st] 5 k3(2) by simp_all
  obtain err6 off p' r' s6 where 6: "scif_setup_qp_accept (ac_qenv env) SCIF_ENDPT_QP_SIZE ?p 0 s5 = (err6, off, p', r', s6)"
    by (metis surj_pair)
  let ?s7 = "ac_put env r' (ep_upd ?c (\<lambda>e. e\<lparr>qp := Some p', qp_offset := off\<rparr>) s6)"
  have k7: "sp \<Longrightarrow> keeps (one ?d) st ?s7"
    by (rule keeps_then [OF keeps_ep [OF keeps_setup_qp(2) [OF 6 k5(2)]] put]) simp_all
  let ?s8 = "ep_upd ?c (\<lambda>e. e\<lparr>ep_port := ep_port l, ep_peer := msg_src req\<rparr>) ?s7"
  have k8: "sp \<Longrightarrow> keeps (one ?d) st (snd (raw_nodeqp_send q ?d m ?s8))" for q m
    by (rule keeps_raw_send [OF keeps_ep [OF k7]]) simp_all
  show ?thesis
    unfolding accept_grant_def Let_def 2 5 6 prod.case
    using k2 k3 k5 k7 k8 by (auto simp: split_beta intro!: keeps_reject keeps_ep_free keeps_teardown keeps_put keeps_refl)
qed

lemma keeps_wait_retry:
  "(\<And>i s. keeps none s (ws i s)) \<Longrightarrow> keeps k st s \<Longrightarrow> wait_retry ws n c alive s = Some (b, s') \<Longrightarrow> keeps k st s'"
proof (induction n arbitrary: ws s)
  case (Suc n)
  have k: "keeps k st (ws 0 s)" by (rule keeps_then [OF Suc.prems(2,1)])
  from Suc.prems(3) k Suc.IH [where ws = "\<lambda>i. ws (Suc i)", OF Suc.prems(1) k] show ?case
    by (auto simp: Let_def split: if_splits)
qed simp

lemma keeps_accept_wait:
  "(\<And>i s. keeps none s (snd (ws i) s)) \<Longrightarrow> keeps k st s \<Longrightarrow> accept_wait n ws a s = Some (r, s') \<Longrightarrow> keeps k st s'"
proof (induction n arbitrary: ws s)
  case (Suc n)
  have k: "keeps k st (snd (ws 0) s)" by (rule keeps_then [OF Suc.prems(2,1)])
  from Suc.prems(3) k Suc.IH [where ws = "\<lambda>i. ws (Suc i)", OF Suc.prems(1) k] show ?case
    by (auto simp: Let_def split: option.splits if_splits intro: keeps_fault)
qed simp

lemma ep_ok_take: "conlist e = req # reqs \<Longrightarrow> ep_ok e \<Longrightarrow> ep_ok (e\<lparr>conlist := reqs, conreqcnt := conreqcnt e - 1\<rparr>)"
  by (simp add: ep_ok_def)

lemma keeps_accept_take: "accept_take a s = Some (l, req, s') \<Longrightarrow> keeps k st s \<Longrightarrow> keeps k st s'"
  by (auto simp: accept_take_def split: option.splits list.splits intro!: keeps_ep_at elim: ep_ok_take)

lemma keeps_accept_answer:
  assumes "keeps none st s"
  shows "case accept_answer env l msg req b s of Inl (r, c, p, s') \<Rightarrow> keeps none st s' | Inr (p, s') \<Rightarrow> keeps none st s'"
  using assms by (auto simp: accept_answer_def Let_def intro!: keeps_reject keeps_ep_free keeps_teardown keeps_fields keeps_release)

lemma keeps_accept_round:
  assumes "\<And>r s. keeps none s (ac_put env r s)" "\<And>i s. keeps none s (ac_waits env i s)" "accept_round env a st = Some x"
  shows "case x of Inl (r, c, p, s') \<Rightarrow> keeps none st s' | Inr (p, s') \<Rightarrow> keeps none st s'"
proof (cases "accept_take a st")
  case None
  with assms(3) show ?thesis by (auto simp: accept_round_def keeps_fault keeps_refl)
next
  case (Some t)
  obtain l req s1 where t: "t = (l, req, s1)" by (metis surj_pair)
  have k1: "keeps none st s1" using keeps_accept_take Some t keeps_refl by blast
  show ?thesis
  proof (cases "accept_grant env l req s1")
    case (Inl y)
    then show ?thesis
      using keeps_accept_grant [of env s1 l req, OF assms(1)] k1 assms(3) Some t
      by (auto simp: accept_round_def Let_def intro: keeps_then)
  next
    case (Inr y)
    obtain msg s2 where y: "y = (msg, s2)" by fastforce
    have k2: "keeps none st s2"
      using keeps_accept_grant [of env s1 l req, OF assms(1)] k1 Inr y by (auto intro: keeps_then)
    obtain b s3 where w: "wait_retry (ac_waits env) (ac_rounds env) (\<lambda>s. \<not> ep_in (ac_ep env) SCIFEP_CONNECTING s)
        (scifdev_alive_dev (pid_node (msg_src req))) s2 = Some (b, s3)" "x = accept_answer env l msg req b s3"
      using assms(3) Some t Inr y by (auto simp: accept_round_def Let_def split: option.splits)
    have "keeps none st s3" by (rule keeps_wait_retry [where ws = "ac_waits env", OF assms(2) k2 w(1)])
    then show ?thesis unfolding w(2) by (rule keeps_accept_answer)
  qed
qed

definition acc_quiet :: "acc_env \<Rightarrow> bool" where
  "acc_quiet env \<longleftrightarrow> (\<forall>r s. keeps none s (ac_put env r s)) \<and> (\<forall>i s. keeps none s (ac_waits env i s))"

lemma keeps_accept_loop:
  assumes "\<And>i. acc_quiet (envs i)" "\<And>i j s. keeps none s (snd (ws i j) s)"
  shows "keeps none st s \<Longrightarrow> accept_loop n envs ws m sync a s = Some (r, c, p, s') \<Longrightarrow> keeps none st s'"
  using assms
proof (induction n arbitrary: envs ws s)
  case (Suc n)
  obtain err s1 where 1: "accept_wait m (ws 0) a s = Some (err, s1)"
    using Suc.prems(2) by (auto split: option.splits)
  have k1: "keeps none st s1" by (rule keeps_accept_wait [where ws = "ws 0", OF Suc.prems(4,1) 1])
  show ?case
  proof (cases "err = 0")
    case False
    then show ?thesis using Suc.prems(2) 1 k1 by simp
  next
    case True
    note err = this
    then obtain x where x: "accept_round (envs 0) a s1 = Some x" using Suc.prems(2) 1 by (auto split: option.splits)
    have q: "\<And>r s. keeps none s (ac_put (envs 0) r s)" "\<And>i s. keeps none s (ac_waits (envs 0) i s)"
      using Suc.prems(3) [of 0] by (auto simp: acc_quiet_def)
    have kx: "case x of Inl (r, c, p, s') \<Rightarrow> keeps none st s' | Inr (p, s') \<Rightarrow> keeps none st s'"
      using keeps_accept_round [OF q x] k1 by (auto split: sum.splits intro: keeps_then)
    show ?thesis
    proof (cases x)
      case (Inl y)
      then show ?thesis using kx Suc.prems(2) 1 True x by simp
    next
      case (Inr y)
      obtain p2 s2 where y: "y = (p2, s2)" by fastforce
      have k2: "keeps none st s2" using kx Inr y by simp
      show ?thesis
      proof (cases sync)
        case True
        have "accept_loop n (\<lambda>i. envs (Suc i)) (\<lambda>i. ws (Suc i)) m sync a s2 = Some (r, c, p, s')"
          using Suc.prems(2) 1 err True x Inr y by simp
        then show ?thesis
          by (rule Suc.IH [where envs = "\<lambda>i. envs (Suc i)" and ws = "\<lambda>i. ws (Suc i)", OF k2]) (rule Suc.prems)+
      next
        case False
        then show ?thesis using Suc.prems(2) 1 err x Inr y k2 by simp
      qed
    qed
  qed
qed simp

lemma keeps_accept:
  assumes "\<And>i. acc_quiet (envs i)" "\<And>i j s. keeps none s (snd (ws i j) s)"
    and "scif_accept n envs ws m flags out files a st = Some (r, c, p, st')"
  shows "keeps none st st'"
proof -
  have "keeps none st (ep_upd a (\<lambda>e. e\<lparr>ep_files := files\<rparr>) st)" by (rule keeps_ep [OF keeps_refl]) simp
  from keeps_accept_loop [where envs = envs and ws = ws, OF assms(1,2) this] assms(3) show ?thesis
    by (auto simp: scif_accept_def Let_def keeps_refl keeps_fault split: if_splits option.splits)
qed

text \<open>Closing: the windows are taken off, the peer is told, and the accepted endpoints are closed in turn.\<close>

lemma keeps_unregister_window [keeps_intros]: "keeps k st s \<Longrightarrow> keeps k st (snd (scif_unregister_window q msg w s))"
  by (auto simp: scif_unregister_window_def scif_send_scif_unregister_def Let_def split_beta
      split: option.split intro!: keeps_intros)

lemma keeps_unregister_all: "keeps k st s \<Longrightarrow> keeps k st (snd (unregister_all qs msg a ws err s))"
proof (induction ws arbitrary: err s)
  case (Cons w ws)
  then show ?case by (simp add: split_beta keeps_intros)
qed simp

lemma keeps_unregister_windows [keeps_intros]: "keeps k st s \<Longrightarrow> keeps k st (snd (scif_unregister_all_windows qs msg a s))"
  by (auto simp: scif_unregister_all_windows_def split_beta split: option.split intro!: keeps_intros keeps_unregister_all)

lemma keeps_disconnect_send: "keeps k st s \<Longrightarrow> keeps k st (snd (disconnect_send env a s))"
  by (auto simp: disconnect_send_def Let_def split_beta split: option.split intro!: keeps_intros)

definition close_quiet :: "close_env \<Rightarrow> bool" where
  "close_quiet env \<longleftrightarrow> (\<forall>s. keeps none s (cl_wait env s)) \<and> (\<forall>s. keeps none s (cl_flush env s))"

lemma keeps_disconnect: "close_quiet env \<Longrightarrow> keeps k st s \<Longrightarrow> keeps k st (scif_disconnect_ep env a s)"
  by (auto simp: scif_disconnect_ep_def split_beta close_quiet_def intro: keeps_then keeps_disconnect_send)

lemma keeps_close_accepts:
  assumes "\<And>k st s b. keeps k st s \<Longrightarrow> keeps k st (close b s)"
  shows "keeps k st s \<Longrightarrow> keeps k st (close_accepts close n a s)"
proof (induction n arbitrary: s)
  case (Suc n)
  then show ?case
    by (auto simp: Let_def split: option.split list.split intro!: keeps_intros assms Suc.IH)
qed simp

lemma keeps_close_listener:
  assumes "\<And>k st s b. keeps k st s \<Longrightarrow> keeps k st (close b s)" "keeps k st s"
  shows "keeps k st (close_listener close a s)"
  unfolding close_listener_def
  by (intro keeps_splits keeps_ep keeps_close_accepts keeps_fields keeps_fault assms) (auto simp: ep_ok_def)

lemma keeps_close_end [keeps_intros]: "keeps k st s \<Longrightarrow> keeps k st (close_end x a s)"
  unfolding close_end_def by (intro keeps_intros keeps_splits; simp)

lemma keeps_close: "(\<And>b. close_quiet (envs b)) \<Longrightarrow> keeps k st s \<Longrightarrow> keeps k st (scif_close n envs a s)"
proof (induction n arbitrary: k st s a)
  case (Suc n)
  have flushed: "keeps k st (if b then cl_flush (envs a) s else s)" for b
    using Suc.prems by (auto simp: close_quiet_def intro: keeps_then)
  show ?case
    unfolding scif_close.simps Let_def
    by (intro keeps_splits keeps_close_end keeps_disconnect keeps_close_listener keeps_unregister_windows keeps_fields
        keeps_release keeps_fault Suc.prems Suc.IH flushed; (rule Suc.prems)?)
qed (simp add: keeps_fault)

text \<open>Transfers.\<close>

definition returns :: "(u16 \<Rightarrow> int) \<Rightarrow> scif_node \<Rightarrow> ('a \<times> 'b \<times> scif_node) option \<Rightarrow> bool" where
  "returns k st x \<longleftrightarrow> (\<forall>r c s'. x = Some (r, c, s') \<longrightarrow> keeps k st s')"

lemma returns_intros:
  "returns k st None" "keeps k st s \<Longrightarrow> returns k st (Some (r, c, s))"
  "(b \<Longrightarrow> returns k st x) \<Longrightarrow> (\<not> b \<Longrightarrow> returns k st y) \<Longrightarrow> returns k st (if b then x else y)"
  "(u = None \<Longrightarrow> returns k st x) \<Longrightarrow> (\<And>v. u = Some v \<Longrightarrow> returns k st (f v)) \<Longrightarrow>
    returns k st (case u of None \<Rightarrow> x | Some v \<Rightarrow> f v)"
  "(\<And>v w. p = (v, w) \<Longrightarrow> returns k st (g v w)) \<Longrightarrow> returns k st (case p of (v, w) \<Rightarrow> g v w)"
  by (simp_all add: returns_def split: option.split prod.split)

lemma keeps_send_loop:
  "(\<And>i s. keeps none s (snd (ws i) s)) \<Longrightarrow> keeps k st s \<Longrightarrow> returns k st (send_loop n qs ws nm blocking a msg sent ret s)"
proof (induction n arbitrary: qs ws msg sent ret s)
  case (Suc n)
  have w: "keeps k st (snd (ws 0) s)" by (rule keeps_then [OF Suc.prems(2,1)])
  have sent: "ep_raw_send q e m (ep_upd a (\<lambda>e. e\<lparr>qp := p\<rparr>) s) = (r2, s2) \<Longrightarrow> keeps k st s2" for q e m p r2 s2
    by (erule keeps_sent(4)) (intro keeps_ep Suc.prems, simp)
  show ?case
    unfolding send_loop.simps(2) Let_def
    by (intro returns_intros Suc.IH Suc.prems w keeps_fault; erule sent)
qed (simp add: returns_intros)

lemma keeps_recv_loop:
  "(\<And>i s. keeps none s (snd (ws i) s)) \<Longrightarrow> keeps k st s \<Longrightarrow> returns k st (recv_loop n qs ws nm blocking a remaining got ret s)"
proof (induction n arbitrary: qs ws remaining got ret s)
  case (Suc n)
  have w: "keeps k st (snd (ws 0) s)" by (rule keeps_then [OF Suc.prems(2,1)])
  have upd: "keeps k st (ep_upd a (\<lambda>e. e\<lparr>qp := p\<rparr>) s)" for p by (intro keeps_ep Suc.prems) simp
  show ?case
    unfolding recv_loop.simps(2) Let_def
    by (intro returns_intros Suc.IH Suc.prems w keeps_fault upd; erule keeps_sent(4) [OF _ upd])
qed (simp add: returns_intros)

lemma keeps_transfers:
  assumes "\<And>i s. keeps none s (snd (ws i) s)"
  shows "scif_send n qs ws nm a msg len flags st = Some (r, st') \<Longrightarrow> keeps none st st'"
    and "scif_recv n qs ws nm a len flags st = Some (r, bs, st') \<Longrightarrow> keeps none st st'"
  using keeps_send_loop [where ws = ws, OF assms keeps_refl] keeps_recv_loop [where ws = ws, OF assms keeps_refl]
  by (auto simp: scif_send_def scif_recv_def raw_scif_send_def raw_scif_recv_def returns_def keeps_refl keeps_fault
      split: if_splits option.splits)

section \<open>Runs of a node\<close>

text \<open>
  The activities of a node. The rules of the first group handle one message each, with any
  contents; \<open>store\<close> is a store of a peer into a queue pair of this node. The rules of the second
  group are the calls that have returned; whatever happens in their waits is a run itself.
\<close>

inductive runs :: "scif_node \<Rightarrow> scif_node \<Rightarrow> bool" where
  idle: "runs st st"
| seq: "runs st s \<Longrightarrow> runs s st' \<Longrightarrow> runs st st'"
| cnctreq: "runs st (scif_cnctreq q alloc msg st)"
| cnctgnt: "runs st (scif_cnctgnt msg st)"
| cnctgnt_ack: "runs st (scif_cnctgnt_ack msg st)"
| cnctgnt_nack: "runs st (scif_cnctgnt_nack msg st)"
| cnctrej: "runs st (scif_cnctrej msg st)"
| discnct: "runs st (scif_discnct q msg st)"
| discnt_ack: "runs st (scif_discnt_ack msg st)"
| clientsend: "runs st (scif_clientsend msg st)"
| clientrcvd: "runs st (scif_clientrcvd msg st)"
| alloc_req: "runs st (scif_alloc_req q wa env d msg st)"
| alloc_gnt_rej: "runs st (scif_alloc_gnt_rej msg st)"
| free_virt: "runs st (scif_free_virt msg st)"
| recv_reg: "runs st (scif_recv_reg q msg st)"
| recv_reg_ack: "runs st (scif_recv_reg_ack msg st)"
| recv_reg_nack: "runs st (scif_recv_reg_nack msg st)"
| recv_unreg: "runs st (scif_recv_unreg q msg st)"
| recv_del_window: "runs st (scif_recv_del_window rb has_mm msg st)"
| recv_used_window: "runs st (scif_recv_used_window msg st)"
| store: "runs st (ep_upd a (\<lambda>e. e\<lparr>qp := f (qp e)\<rparr>) st)"
| cleanup: "runs st (scif_cleanup_zombie_epd st)"
| open_call: "runs st (snd (scif_open ea qp_ok anon_err st))"
| bind_call: "runs st (snd (scif_bind pick alloc cap a pn st))"
| listen_call: "runs st (snd (scif_listen a bl st))"
| flush_call: "runs st (snd (scif_flush a st))"
| connect_call: "(\<And>s. runs s (cn_wait cenv s)) \<Longrightarrow> (\<And>r s. runs s (cn_put cenv r s)) \<Longrightarrow> (\<And>s. runs s (flush s)) \<Longrightarrow>
    runs st (snd (scif_connect_nb pick alloc cenv flush a dst non_block st))"
| connect_work: "(\<And>b s. runs s (cn_wait (cenvs b) s)) \<Longrightarrow> (\<And>b r s. runs s (cn_put (cenvs b) r s)) \<Longrightarrow>
    scif_conn_handler cenvs n st = Some st' \<Longrightarrow> runs st st'"
| accept_call: "(\<And>i r s. runs s (ac_put (aenvs i) r s)) \<Longrightarrow> (\<And>i j s. runs s (ac_waits (aenvs i) j s)) \<Longrightarrow>
    (\<And>i j s. runs s (snd (aws i j) s)) \<Longrightarrow> scif_accept n aenvs aws m flags out files a st = Some (ret, c, p, st') \<Longrightarrow> runs st st'"
| send_call: "(\<And>i s. runs s (snd (ws i) s)) \<Longrightarrow> scif_send n qs ws nm a bs len flags st = Some (ret, st') \<Longrightarrow> runs st st'"
| recv_call: "(\<And>i s. runs s (snd (ws i) s)) \<Longrightarrow> scif_recv n qs ws nm a len flags st = Some (ret, bs, st') \<Longrightarrow> runs st st'"
| close_call: "(\<And>b s. runs s (cl_wait (clenvs b) s)) \<Longrightarrow> (\<And>b s. runs s (cl_flush (clenvs b) s)) \<Longrightarrow>
    runs st (scif_close n clenvs a st)"

lemma runs_keeps: "runs st st' \<Longrightarrow> keeps none st st'"
proof (induction rule: runs.induct)
  case (seq st s st')
  then show ?case using keeps_then by blast
next
  case (store st a f)
  show ?case by (intro keeps_ep keeps_refl) simp
next
  case (connect_call cenv flush)
  then show ?case by (intro keeps_connect)
next
  case (connect_work cenvs n st st')
  show ?case by (rule keeps_conn_handler [where envs = cenvs, OF connect_work(4,5) keeps_refl connect_work(3)])
next
  case (accept_call aenvs aws n m flags out files a st ret c p st')
  have "acc_quiet (aenvs i)" for i using accept_call(5,6) by (simp add: acc_quiet_def)
  then show ?case by (rule keeps_accept [where envs = aenvs and ws = aws, OF _ accept_call(7,4)])
next
  case (send_call ws n qs nm a bs len flags st ret st')
  show ?case by (rule keeps_transfers(1) [where ws = ws, OF send_call(3,2)])
next
  case (recv_call ws n qs nm a len flags st ret bs st')
  show ?case by (rule keeps_transfers(2) [where ws = ws, OF recv_call(3,2)])
next
  case (close_call clenvs)
  then show ?case by (intro keeps_close keeps_refl) (simp add: close_quiet_def)
qed (simp_all add: keeps_refl keeps_cnctreq keeps_conn_handlers keeps_alloc_req keeps_rma_handlers keeps_recv_unreg
    keeps_open keeps_bind keeps_listen keeps_flush zombie_walk_keeps scif_cleanup_zombie_epd_def)


text \<open>A request that the example server queues.\<close>

definition example_request :: scifmsg where
  "example_request = example_msg\<lparr>msg_src := \<lparr>pid_node = 1, pid_port = 1100\<rparr>, msg_dst := \<lparr>pid_node = 0, pid_port = 80\<rparr>\<rparr>"


end
