(* ===== verification/Scif_Fence.thy ===== *)
theory Scif_Fence
  imports Scif_Conn
begin

text \<open>
  Fences (\<open>scif_fence.c\<close>): marks in the stream of copies of an endpoint, waiting for a mark, and
  signals that store a value once the copies before them are done. A mark can be set by the node
  itself or, with a message, by its peer. The copy engine is a parameter: what its functions
  return, and the time that is left when a wait for it ends. A signal is entered in \<open>signals\<close>
  when it is programmed.
\<close>

section \<open>The copy engine\<close>

abbreviation (input) ETIMEDOUT :: int where "ETIMEDOUT \<equiv> 110"
abbreviation (input) SCIF_REMOTE_FENCE :: int where "SCIF_REMOTE_FENCE \<equiv> 0x80000000"
abbreviation (input) SCIF_RMA_ERROR_CODE :: u64 where "SCIF_RMA_ERROR_CODE \<equiv> NOT 0"

definition s32 :: "int \<Rightarrow> int" where
  "s32 x = signed_take_bit 31 x"

text \<open>
  A descriptor is \<open>None\<close> where its preparation fails and else the cookie that its submission
  returns, negative for an error. \<open>dm_mark\<close> is the uninitialised variable of a caller,
  \<open>dm_left\<close> the time left after the wait for a cookie, negative where a signal ended it.
\<close>

record dma_env =
  dm_x100 :: bool
  dm_fence :: "int option"
  dm_intr :: "int option"
  dm_pool :: bool
  dm_val :: "int option"
  dm_mark :: int
  dm_wait :: "scif_node \<Rightarrow> scif_node"
  dm_left :: "int \<Rightarrow> int"

definition dma_cookie :: "int option \<Rightarrow> int" where
  "dma_cookie desc = (case desc of None \<Rightarrow> - ENOMEM | Some c \<Rightarrow> c)"

text \<open>\<open>_scif_fence_mark\<close>: the error, the mark and the state.\<close>

definition raw_fence_mark :: "dma_env \<Rightarrow> int \<Rightarrow> u64 \<Rightarrow> scif_node \<Rightarrow> int \<times> int \<times> scif_node" where
  "raw_fence_mark env mark a st =
     (case eps st a of
        None \<Rightarrow> (0, mark, st\<lparr>fault := True\<rparr>)
      | Some e \<Rightarrow>
          if dma_chan (rma_info e) = None then (0, mark, st\<lparr>fault := True\<rparr>)
          else if dm_x100 env \<and> dma_cookie (dm_fence env) < 0 then (dma_cookie (dm_fence env), mark, st)
          else (case dm_intr env of
                  None \<Rightarrow> (- ENOMEM, mark, st)
                | Some c \<Rightarrow>
                    if c < 0 then (c, c, st)
                    else (0, c, rma_upd a (\<lambda>r. r\<lparr>fence_refcount := fence_refcount r + 1\<rparr>) st)))"

text \<open>The call-back of the copy engine at a mark.\<close>

definition scif_fence_mark_cb :: "u64 \<Rightarrow> scif_node \<Rightarrow> scif_node" where
  "scif_fence_mark_cb a st = rma_upd a (\<lambda>r. r\<lparr>fence_refcount := fence_refcount r - 1\<rparr>) st"

definition fence_cookie :: "int \<Rightarrow> int" where
  "fence_cookie mark = s32 (mark AND NOT SCIF_REMOTE_FENCE)"

definition raw_fence_wait :: "dma_env \<Rightarrow> u64 \<Rightarrow> int \<Rightarrow> scif_node \<Rightarrow> int \<times> scif_node" where
  "raw_fence_wait env a mark st =
     (case eps st a of
        None \<Rightarrow> (0, st\<lparr>fault := True\<rparr>)
      | Some e \<Rightarrow>
          let err = dm_left env (fence_cookie mark)
          in (if err = 0 then - ETIMEDOUT else if err > 0 then 0 else err, dm_wait env st))"

section \<open>Signals\<close>

text \<open>\<open>scif_get_local_va\<close>: \<open>None\<close> where it reads outside the table of pages.\<close>

definition scif_get_local_va :: "int \<Rightarrow> u64 \<Rightarrow> scif_node \<Rightarrow> u64 option" where
  "scif_get_local_va off w st =
     (case wins st w of
        None \<Rightarrow> None
      | Some x \<Rightarrow>
          (case pins st (pinned_pages x) of
             None \<Rightarrow> None
           | Some pin \<Rightarrow>
               let page_nr = s32 ((off - win_offset x) div PAGE_SIZE)
               in if 0 \<le> page_nr \<and> nat page_nr < length (pin_pages pin)
                  then Some (pin_pages pin ! nat page_nr + word_of_int (off mod PAGE_SIZE)) else None))"

definition raw_prog_signal :: "dma_env \<Rightarrow> u64 \<Rightarrow> u64 \<Rightarrow> u64 \<Rightarrow> scif_node \<Rightarrow> int \<times> scif_node" where
  "raw_prog_signal env a dst val st =
     (case eps st a of
        None \<Rightarrow> (0, st\<lparr>fault := True\<rparr>)
      | Some e \<Rightarrow>
          if dma_chan (rma_info e) = None then (0, st\<lparr>fault := True\<rparr>)
          else if dma_cookie (dm_fence env) < 0 then (dma_cookie (dm_fence env), st)
          else if \<not> dm_x100 env \<and> \<not> dm_pool env then (- ENOMEM, st)
          else (case dm_val env of
                  None \<Rightarrow> (- ENOMEM, st)
                | Some c \<Rightarrow> if c < 0 then (- EIO, st) else (0, st\<lparr>signals := signals st @ [(dst, val)]\<rparr>)))"

definition scif_prog_signal :: "dma_env \<Rightarrow> u64 \<Rightarrow> int \<Rightarrow> u64 \<Rightarrow> scif_window_type \<Rightarrow> scif_node \<Rightarrow> int \<times> scif_node" where
  "scif_prog_signal env a offset val type st =
     (case eps st a of
        None \<Rightarrow> (0, st\<lparr>fault := True\<rparr>)
      | Some e \<Rightarrow>
          let req = \<lparr>req_offset = offset, nr_bytes = 8, req_prot = SCIF_PROT_WRITE, req_type = SCIF_WINDOW_SINGLE,
                     req_head = (if type = SCIF_WINDOW_SELF then reg_list (rma_info e) else remote_reg_list (rma_info e))\<rparr>;
              (err, out) = scif_query_window (win_at st) req
          in if err \<noteq> 0 then (err, st)
             else case (out, remote_dev e) of
               (Some w, Some d) \<Rightarrow>
                 if scif_is_mgmt_node st \<and> scifdev_self d st then
                   (case scif_get_local_va offset (if type = SCIF_WINDOW_SELF then w else peer_window (win_at st w)) st of
                      None \<Rightarrow> (0, st\<lparr>fault := True\<rparr>)
                    | Some va \<Rightarrow> (0, st\<lparr>signals := signals st @ [(va, val)]\<rparr>))
                 else raw_prog_signal env a
                        (case scif_off_to_dma_addr (win_at st w) offset None of
                           None \<Rightarrow> SCIF_RMA_ERROR_CODE | Some (da, n, it) \<Rightarrow> da) val st
             | _ \<Rightarrow> (0, st\<lparr>fault := True\<rparr>))"

section \<open>Message handlers\<close>

definition ep_answer :: "nodeqp_env \<Rightarrow> u64 \<Rightarrow> scifmsg \<Rightarrow> scif_node \<Rightarrow> scif_node" where
  "ep_answer q a msg st =
     (case eps st a of None \<Rightarrow> st\<lparr>fault := True\<rparr> | Some e \<Rightarrow> snd (ep_send q e (msg\<lparr>payload0 := remote_ep e\<rparr>) st))"

definition req_upd :: "u64 \<Rightarrow> (scif_fence_info \<Rightarrow> scif_fence_info) \<Rightarrow> scif_node \<Rightarrow> scif_node" where
  "req_upd p f st =
     (case fence_reqs st p of None \<Rightarrow> st\<lparr>fault := True\<rparr> | Some x \<Rightarrow> st\<lparr>fence_reqs := (fence_reqs st)(p \<mapsto> f x)\<rparr>)"

text \<open>An update under the lock of endpoint \<open>a\<close>.\<close>

definition fence_upd :: "u64 \<Rightarrow> u64 \<Rightarrow> (scif_fence_info \<Rightarrow> scif_fence_info) \<Rightarrow> scif_node \<Rightarrow> scif_node" where
  "fence_upd a p f st = (if eps st a = None then st\<lparr>fault := True\<rparr> else req_upd p f st)"

definition scif_recv_mark :: "nodeqp_env \<Rightarrow> dma_env \<Rightarrow> scifmsg \<Rightarrow> scif_node \<Rightarrow> scif_node" where
  "scif_recv_mark q env msg st =
     (let (err, mark, st1) = raw_fence_mark env (dm_mark env) (payload0 msg) st
      in ep_answer q (payload0 msg)
           (msg\<lparr>uop := (if err \<noteq> 0 then SCIF_MARK_NACK else SCIF_MARK_ACK), payload2 := word_of_int mark\<rparr>) st1)"

definition scif_recv_mark_resp :: "scifmsg \<Rightarrow> scif_node \<Rightarrow> scif_node" where
  "scif_recv_mark_resp msg st =
     fence_upd (payload0 msg) (payload1 msg)
       (\<lambda>x. if uop msg = SCIF_MARK_ACK
            then x\<lparr>fi_state := OP_COMPLETED, fi_mark := s32 (uint (payload2 msg)), fi_comp := True\<rparr>
            else x\<lparr>fi_state := OP_FAILED, fi_comp := True\<rparr>) st"

definition scif_recv_wait :: "nodeqp_env \<Rightarrow> bool \<Rightarrow> scifmsg \<Rightarrow> scif_node \<Rightarrow> scif_node" where
  "scif_recv_wait q alloc msg st =
     (let a = payload0 msg
      in if \<not> alloc then ep_answer q a (msg\<lparr>uop := SCIF_WAIT_NACK\<rparr>) st
         else let st1 = rma_upd a (\<lambda>r. r\<lparr>fence_refcount := fence_refcount r + 1\<rparr>) st
              in st1\<lparr>fence := fence st1 @ [msg]\<rparr>)"

definition scif_recv_wait_resp :: "scifmsg \<Rightarrow> scif_node \<Rightarrow> scif_node" where
  "scif_recv_wait_resp msg st =
     fence_upd (payload0 msg) (payload1 msg)
       (\<lambda>x. x\<lparr>fi_state := (if uop msg = SCIF_WAIT_ACK then OP_COMPLETED else OP_FAILED), fi_comp := True\<rparr>) st"

definition recv_sig :: "scif_window_type \<Rightarrow> nodeqp_env \<Rightarrow> dma_env \<Rightarrow> scifmsg \<Rightarrow> scif_node \<Rightarrow> scif_node" where
  "recv_sig type q env msg st =
     (let (err, st1) = scif_prog_signal env (payload0 msg) (sint (payload1 msg)) (payload2 msg) type st
      in ep_answer q (payload0 msg) (msg\<lparr>uop := (if err \<noteq> 0 then SCIF_SIG_NACK else SCIF_SIG_ACK)\<rparr>) st1)"

definition scif_recv_sig_local :: "nodeqp_env \<Rightarrow> dma_env \<Rightarrow> scifmsg \<Rightarrow> scif_node \<Rightarrow> scif_node" where
  "scif_recv_sig_local q env msg st = recv_sig SCIF_WINDOW_SELF q env msg st"

definition scif_recv_sig_remote :: "nodeqp_env \<Rightarrow> dma_env \<Rightarrow> scifmsg \<Rightarrow> scif_node \<Rightarrow> scif_node" where
  "scif_recv_sig_remote q env msg st = recv_sig SCIF_WINDOW_PEER q env msg st"

definition scif_recv_sig_resp :: "scifmsg \<Rightarrow> scif_node \<Rightarrow> scif_node" where
  "scif_recv_sig_resp msg st =
     fence_upd (payload0 msg) (payload3 msg)
       (\<lambda>x. x\<lparr>fi_state := (if uop msg = SCIF_SIG_ACK then OP_COMPLETED else OP_FAILED), fi_comp := True\<rparr>) st"

text \<open>
  The work that serves the waiting requests of peers. It holds the lock of the list meanwhile, so
  that it serves the requests found at its start.
\<close>

fun fences_walk :: "(nat \<Rightarrow> nodeqp_env \<times> dma_env) \<Rightarrow> scifmsg list \<Rightarrow> scif_node \<Rightarrow> scif_node" where
  "fences_walk envs [] st = st"
| "fences_walk envs (m # ms) st =
     (let a = payload0 m;
          (err, st1) = raw_fence_wait (snd (envs 0)) a (s32 (uint (payload2 m))) (st\<lparr>fence := tl (fence st)\<rparr>);
          st2 = ep_answer (fst (envs 0)) a (m\<lparr>uop := (if err \<noteq> 0 then SCIF_WAIT_NACK else SCIF_WAIT_ACK)\<rparr>) st1
      in fences_walk (\<lambda>i. envs (Suc i)) ms (rma_upd a (\<lambda>r. r\<lparr>fence_refcount := fence_refcount r - 1\<rparr>) st2))"

definition scif_rma_handle_remote_fences :: "(nat \<Rightarrow> nodeqp_env \<times> dma_env) \<Rightarrow> scif_node \<Rightarrow> scif_node" where
  "scif_rma_handle_remote_fences envs st = fences_walk envs (fence st) st"

section \<open>Requests to the peer\<close>

text \<open>
  A request is a \<open>struct scif_fence_info\<close> at address \<open>p\<close>, 0 where its allocation fails. The
  services of one exchange of messages are the send and what happens in each period of the wait
  for the answer, with the number of periods observed.
\<close>

record fence_env =
  fe_send :: nodeqp_env
  fe_ws :: "nat \<Rightarrow> scif_node \<Rightarrow> scif_node"
  fe_rounds :: nat

definition fence_alloc :: "u64 \<Rightarrow> scif_node \<Rightarrow> scif_node" where
  "fence_alloc p st = st\<lparr>fence_reqs := (fence_reqs st)(p \<mapsto> \<lparr>fi_state = OP_IN_PROGRESS, fi_comp = False, fi_mark = 0\<rparr>)\<rparr>"

definition fence_free :: "u64 \<Rightarrow> scif_node \<Rightarrow> scif_node" where
  "fence_free p st =
     (if fence_reqs st p = None then st\<lparr>fault := True\<rparr> else st\<lparr>fence_reqs := (fence_reqs st)(p := None)\<rparr>)"

definition fence_done :: "u64 \<Rightarrow> scif_node \<Rightarrow> bool" where
  "fence_done p st = (case fence_reqs st p of None \<Rightarrow> False | Some x \<Rightarrow> fi_comp x)"

definition ep_alive :: "u64 \<Rightarrow> scif_node \<Rightarrow> bool" where
  "ep_alive a st = (case eps st a of None \<Rightarrow> False | Some e \<Rightarrow> scifdev_alive e st)"

text \<open>
  The send on a connected endpoint and the wait for the answer: \<open>Inl\<close> the error of the send, or
  \<open>Inr\<close> whether the request was completed before the peer was gone.
\<close>

definition fence_exchange :: "fence_env \<Rightarrow> u64 \<Rightarrow> u64 \<Rightarrow> scifmsg \<Rightarrow> scif_node \<Rightarrow> ((int + bool) \<times> scif_node) option" where
  "fence_exchange env p a msg st =
     (case eps st a of
        None \<Rightarrow> Some (Inl 0, st\<lparr>fault := True\<rparr>)
      | Some e \<Rightarrow>
          let (err, st1) = (if ep_state e = SCIFEP_CONNECTED then ep_send (fe_send env) e msg st else (- ENOTCONN, st))
          in if err \<noteq> 0 then Some (Inl err, st1)
             else map_option (\<lambda>(answered, s). (Inr answered, req_upd p (\<lambda>x. x\<lparr>fi_comp := False\<rparr>) s))
                    (wait_retry (fe_ws env) (fe_rounds env) (fence_done p) (ep_alive a) st1))"

definition fence_msg :: "scifmsg \<Rightarrow> u64 \<Rightarrow> u32 \<Rightarrow> int \<Rightarrow> scif_endpt \<Rightarrow> scifmsg" where
  "fence_msg nm p op mark e =
     (let msg = nm\<lparr>msg_src := ep_port e, uop := op, payload0 := remote_ep e, payload1 := p\<rparr>
      in if op = SCIF_WAIT then msg\<lparr>payload2 := word_of_int mark\<rparr> else msg)"

text \<open>\<open>_scif_send_fence\<close>: the error, the mark if one is stored, and the state.\<close>

definition raw_send_fence :: "fence_env \<Rightarrow> u64 \<Rightarrow> scifmsg \<Rightarrow> u64 \<Rightarrow> u32 \<Rightarrow> int \<Rightarrow> scif_node
    \<Rightarrow> (int \<times> int option \<times> scif_node) option" where
  "raw_send_fence env p nm a op mark st =
     (if p = 0 then Some (- ENOMEM, None, st)
      else case eps st a of
        None \<Rightarrow> Some (0, None, st\<lparr>fault := True\<rparr>)
      | Some e \<Rightarrow>
          (case fence_exchange env p a (fence_msg nm p op mark e) (fence_alloc p st) of
             None \<Rightarrow> None
           | Some (Inl err, st1) \<Rightarrow> Some (err, None, fence_free p st1)
           | Some (Inr answered, st1) \<Rightarrow>
               (case fence_reqs st1 p of
                  None \<Rightarrow> Some (0, None, st1\<lparr>fault := True\<rparr>)
                | Some x \<Rightarrow>
                    Some (if \<not> answered then - ENODEV else if fi_state x = OP_FAILED then - ENOMEM else 0,
                          if op = SCIF_MARK \<and> fi_state x = OP_COMPLETED then Some (s32 (SCIF_REMOTE_FENCE OR fi_mark x))
                          else None,
                          fence_free p st1))))"

definition signal_exchange :: "fence_env \<Rightarrow> u64 \<Rightarrow> u64 \<Rightarrow> scifmsg \<Rightarrow> scif_node \<Rightarrow> (int \<times> scif_node) option" where
  "signal_exchange env p a msg st =
     (case fence_exchange env p a msg st of
        None \<Rightarrow> None
      | Some (Inl err, st1) \<Rightarrow> Some (err, st1)
      | Some (Inr answered, st1) \<Rightarrow>
          if \<not> answered then
            Some (- ENODEV, fence_upd a p (\<lambda>x. if fi_state x = OP_IN_PROGRESS then x\<lparr>fi_state := OP_FAILED\<rparr> else x) st1)
          else (case fence_reqs st1 p of
                  None \<Rightarrow> Some (0, st1\<lparr>fault := True\<rparr>)
                | Some x \<Rightarrow> Some (if fi_state x = OP_FAILED then - ENXIO else 0, st1)))"

abbreviation (input) SCIF_FENCE_INIT_SELF :: int where "SCIF_FENCE_INIT_SELF \<equiv> 1"
abbreviation (input) SCIF_FENCE_INIT_PEER :: int where "SCIF_FENCE_INIT_PEER \<equiv> 2"
abbreviation (input) SCIF_SIGNAL_LOCAL :: int where "SCIF_SIGNAL_LOCAL \<equiv> 16"
abbreviation (input) SCIF_SIGNAL_REMOTE :: int where "SCIF_SIGNAL_REMOTE \<equiv> 32"

definition signal_msg :: "scifmsg \<Rightarrow> u64 \<Rightarrow> u32 \<Rightarrow> int \<Rightarrow> u64 \<Rightarrow> scif_endpt \<Rightarrow> scifmsg" where
  "signal_msg nm p op off val e =
     nm\<lparr>msg_src := ep_port e, uop := op, payload0 := remote_ep e, payload1 := word_of_int off, payload2 := val, payload3 := p\<rparr>"

text \<open>
  \<open>scif_send_fence_signal\<close>; \<open>env\<close> serves the first exchange and \<open>env2\<close> the second. \<open>SCIF_SIG_LOCAL\<close>
  carries the remote offset, which is a local one at the peer.
\<close>

definition scif_send_fence_signal :: "fence_env \<Rightarrow> fence_env \<Rightarrow> u64 \<Rightarrow> scifmsg \<Rightarrow> u64 \<Rightarrow> int \<Rightarrow> u64 \<Rightarrow> int \<Rightarrow> u64 \<Rightarrow> int
    \<Rightarrow> scif_node \<Rightarrow> (int \<times> scif_node) option" where
  "scif_send_fence_signal env env2 p nm a roff rval loff lval flags st =
     (if p = 0 then Some (- ENOMEM, st)
      else case eps st a of
        None \<Rightarrow> Some (0, st\<lparr>fault := True\<rparr>)
      | Some e \<Rightarrow>
          (case (if flags AND SCIF_SIGNAL_LOCAL \<noteq> 0
                 then signal_exchange env p a (signal_msg nm p SCIF_SIG_LOCAL roff rval e) (fence_alloc p st)
                 else Some (0, fence_alloc p st)) of
             None \<Rightarrow> None
           | Some (err, st1) \<Rightarrow>
               if err \<noteq> 0 then Some (err, fence_free p st1)
               else let st2 = req_upd p (\<lambda>x. x\<lparr>fi_state := OP_IN_PROGRESS\<rparr>) st1
                    in if flags AND SCIF_SIGNAL_REMOTE \<noteq> 0
                       then map_option (\<lambda>(err, s). (err, fence_free p s))
                              (signal_exchange env2 p a (signal_msg nm p SCIF_SIG_REMOTE loff lval e) st2)
                       else Some (0, fence_free p st2)))"

section \<open>The programming interface\<close>

abbreviation (input) SCIF_LOOPB_MAGIC_MARK :: int where "SCIF_LOOPB_MAGIC_MARK \<equiv> 0xdead"

definition ep_loopback :: "scif_endpt \<Rightarrow> scif_node \<Rightarrow> bool" where
  "ep_loopback e st = (case remote_dev e of None \<Rightarrow> False | Some d \<Rightarrow> scifdev_self d st \<and> scif_is_mgmt_node st)"

definition scif_fence_mark :: "dma_env \<Rightarrow> fence_env \<Rightarrow> u64 \<Rightarrow> scifmsg \<Rightarrow> u64 \<Rightarrow> int \<Rightarrow> int \<Rightarrow> scif_node
    \<Rightarrow> (int \<times> int \<times> scif_node) option" where
  "scif_fence_mark dma env p nm a flags mark st =
     (case eps st a of
        None \<Rightarrow> Some (0, mark, st\<lparr>fault := True\<rparr>)
      | Some e \<Rightarrow>
          if scif_verify_epd e st \<noteq> 0 then Some (scif_verify_epd e st, mark, st)
          else if flags AND NOT (SCIF_FENCE_INIT_SELF OR SCIF_FENCE_INIT_PEER) \<noteq> 0 then Some (- EINVAL, mark, st)
          else if flags AND (SCIF_FENCE_INIT_SELF OR SCIF_FENCE_INIT_PEER) = 0 then Some (- EINVAL, mark, st)
          else if flags AND SCIF_FENCE_INIT_SELF \<noteq> 0 \<and> flags AND SCIF_FENCE_INIT_PEER \<noteq> 0 then Some (- EINVAL, mark, st)
          else if ep_loopback e st then Some (0, SCIF_LOOPB_MAGIC_MARK, st)
          else if flags AND SCIF_FENCE_INIT_SELF \<noteq> 0 then Some (raw_fence_mark dma mark a st)
          else map_option (\<lambda>(err, m, s). (err, case m of None \<Rightarrow> mark | Some k \<Rightarrow> k, s))
                 (raw_send_fence env p nm a SCIF_MARK 0 st))"

definition scif_fence_wait :: "dma_env \<Rightarrow> fence_env \<Rightarrow> u64 \<Rightarrow> scifmsg \<Rightarrow> u64 \<Rightarrow> int \<Rightarrow> scif_node
    \<Rightarrow> (int \<times> scif_node) option" where
  "scif_fence_wait dma env p nm a mark st =
     (case eps st a of
        None \<Rightarrow> Some (0, st\<lparr>fault := True\<rparr>)
      | Some e \<Rightarrow>
          if scif_verify_epd e st \<noteq> 0 then Some (scif_verify_epd e st, st)
          else if ep_loopback e st then Some (if mark = SCIF_LOOPB_MAGIC_MARK then 0 else - EINVAL, st)
          else if mark AND SCIF_REMOTE_FENCE \<noteq> 0
          then map_option (\<lambda>(err, m, s). (err, s)) (raw_send_fence env p nm a SCIF_WAIT mark st)
          else Some (raw_fence_wait dma a mark st))"

definition signal_flags_ok :: "int \<Rightarrow> int \<Rightarrow> int \<Rightarrow> bool" where
  "signal_flags_ok loff roff flags \<longleftrightarrow>
     flags AND NOT (SCIF_FENCE_INIT_SELF OR SCIF_FENCE_INIT_PEER OR SCIF_SIGNAL_LOCAL OR SCIF_SIGNAL_REMOTE) = 0 \<and>
     flags AND (SCIF_FENCE_INIT_SELF OR SCIF_FENCE_INIT_PEER) \<noteq> 0 \<and>
     \<not> (flags AND SCIF_FENCE_INIT_SELF \<noteq> 0 \<and> flags AND SCIF_FENCE_INIT_PEER \<noteq> 0) \<and>
     flags AND (SCIF_SIGNAL_LOCAL OR SCIF_SIGNAL_REMOTE) \<noteq> 0 \<and>
     \<not> (flags AND SCIF_SIGNAL_LOCAL \<noteq> 0 \<and> loff AND 3 \<noteq> 0) \<and>
     \<not> (flags AND SCIF_SIGNAL_REMOTE \<noteq> 0 \<and> roff AND 3 \<noteq> 0)"

definition scif_fence_signal :: "dma_env \<Rightarrow> fence_env \<Rightarrow> fence_env \<Rightarrow> u64 \<Rightarrow> scifmsg \<Rightarrow> u64 \<Rightarrow> int \<Rightarrow> u64 \<Rightarrow> int \<Rightarrow> u64 \<Rightarrow> int
    \<Rightarrow> scif_node \<Rightarrow> (int \<times> scif_node) option" where
  "scif_fence_signal dma env env2 p nm a loff lval roff rval flags st =
     (case eps st a of
        None \<Rightarrow> Some (0, st\<lparr>fault := True\<rparr>)
      | Some e \<Rightarrow>
          if scif_verify_epd e st \<noteq> 0 then Some (scif_verify_epd e st, st)
          else if \<not> signal_flags_ok loff roff flags then Some (- EINVAL, st)
          else if flags AND SCIF_FENCE_INIT_PEER \<noteq> 0
          then scif_send_fence_signal env env2 p nm a roff rval loff lval flags st
          else let (err, st1) = (if flags AND SCIF_SIGNAL_LOCAL \<noteq> 0
                                 then scif_prog_signal dma a loff lval SCIF_WINDOW_SELF st else (0, st))
               in if err \<noteq> 0 then Some (err, st1)
                  else if flags AND SCIF_SIGNAL_REMOTE \<noteq> 0
                  then Some (scif_prog_signal dma a roff rval SCIF_WINDOW_PEER st1)
                  else Some (0, st1))"

section \<open>Marks\<close>

lemma remote_bit [simp]: "bit SCIF_REMOTE_FENCE n \<longleftrightarrow> n = 31"
  using bit_exp_iff [of 31 n, where ?'a = int] by auto

lemma remote_mark: "0 \<le> c \<Longrightarrow> c < 2 ^ 31 \<Longrightarrow> s32 (SCIF_REMOTE_FENCE OR c) = c - 2 ^ 31"
proof -
  assume c: "0 \<le> c" "c < 2 ^ 31"
  have "\<not> bit c 31" using c by (metis bit_take_bit_iff less_irrefl take_bit_int_eq_self)
  then have "SCIF_REMOTE_FENCE AND c = 0"
    by (intro bit_eqI) (auto simp: bit_simps)
  then have "SCIF_REMOTE_FENCE OR c = 2 ^ 31 + c"
    using plus_and_or [of SCIF_REMOTE_FENCE c] by simp
  then show ?thesis using c by (simp add: s32_def signed_take_bit_eq_take_bit_shift take_bit_eq_mod)
qed

lemma fence_cookie_low: "fence_cookie x = take_bit 31 x"
  unfolding fence_cookie_def s32_def
  by (rule bit_eqI) (auto simp: bit_simps min_def)

text \<open>A mark that travelled to the peer and back is the mark that the copy engine of the peer has set.\<close>

lemma mark_travels:
  assumes "0 \<le> c" "c < 2 ^ 31"
  shows "fence_cookie (s32 (uint (word_of_int (s32 (SCIF_REMOTE_FENCE OR s32 (uint (word_of_int c :: u64)))) :: u64))) = c"
    and "s32 (SCIF_REMOTE_FENCE OR s32 (uint (word_of_int c :: u64))) AND SCIF_REMOTE_FENCE \<noteq> 0"
proof -
  have c: "s32 (uint (word_of_int c :: u64)) = c"
    using assms by (simp add: s32_def unsigned_of_int take_bit_int_eq_self signed_take_bit_int_eq_self)
  have m: "s32 (SCIF_REMOTE_FENCE OR c) = c - 2 ^ 31" using remote_mark assms by simp
  have "take_bit 31 (s32 (uint (word_of_int (c - 2 ^ 31) :: u64))) = take_bit 31 (c - 2 ^ 31)"
    unfolding s32_def uint_word_of_int_eq by (rule bit_eqI) (simp add: bit_simps, linarith?)
  also have "\<dots> = c" using assms by (simp add: take_bit_eq_mod mod_diff_right_eq [symmetric])
  finally have "take_bit 31 (s32 (uint (word_of_int (c - 2 ^ 31) :: u64))) = c" .
  then show "fence_cookie (s32 (uint (word_of_int (s32 (SCIF_REMOTE_FENCE OR s32 (uint (word_of_int c :: u64)))) :: u64))) = c"
    unfolding fence_cookie_low c m .
  have "(c - 2 ^ 31) div 2 ^ 31 = - 1" using assms by (simp add: div_eq_minus1)
  then have "bit (c - 2 ^ 31) 31" by (simp add: bit_iff_odd)
  then have "bit ((c - 2 ^ 31) AND SCIF_REMOTE_FENCE) 31" by (simp add: bit_and_iff)
  then show "s32 (SCIF_REMOTE_FENCE OR s32 (uint (word_of_int c :: u64))) AND SCIF_REMOTE_FENCE \<noteq> 0"
    unfolding c m by force
qed

text \<open>Sending a message leaves everything but the link and the loopback list as it is.\<close>

lemma raw_send_keeps [simp]:
  "fence_reqs (snd (raw_nodeqp_send q d msg st)) = fence_reqs st" "signals (snd (raw_nodeqp_send q d msg st)) = signals st"
  "eps (snd (raw_nodeqp_send q d msg st)) = eps st" "wins (snd (raw_nodeqp_send q d msg st)) = wins st"
  by (auto simp: raw_nodeqp_send_def scif_loopback_nodeqp_send_def dev_upd_def split: option.split)

lemma nodeqp_send_keeps [simp]:
  "fence_reqs (snd (scif_nodeqp_send q d msg st)) = fence_reqs st" "signals (snd (scif_nodeqp_send q d msg st)) = signals st"
  "eps (snd (scif_nodeqp_send q d msg st)) = eps st" "wins (snd (scif_nodeqp_send q d msg st)) = wins st"
  by (auto simp: scif_nodeqp_send_def scif_get_peer_dev_def scif_put_peer_dev_def dev_upd_def Let_def split_beta)

lemma ep_send_keeps [simp]:
  "fence_reqs (snd (ep_send q e msg st)) = fence_reqs st" "signals (snd (ep_send q e msg st)) = signals st"
  "eps (snd (ep_send q e msg st)) = eps st" "wins (snd (ep_send q e msg st)) = wins st"
  by (auto simp: ep_send_def split: option.split)

lemma ep_answer_signals [simp]: "signals (ep_answer q a msg st) = signals st"
  by (auto simp: ep_answer_def split: option.split)

text \<open>The peer sets the mark and answers with it.\<close>

lemma recv_mark_answers:
  assumes "eps sB b = Some eB" "remote_dev eB = Some dA" "dma_chan (rma_info eB) \<noteq> None"
    and "net dA [] (Suc n) sB" "dev_exit (devs sB dA) = OP_IDLE"
    and "dm_x100 dma \<longrightarrow> 0 \<le> dma_cookie (dm_fence dma)" "dm_intr dma = Some c" "0 \<le> c" "payload0 msg = b"
  shows "net dA [msg\<lparr>uop := SCIF_MARK_ACK, payload2 := word_of_int c, payload0 := remote_ep eB\<rparr>] n (scif_recv_mark q dma msg sB)"
    and "fault (scif_recv_mark q dma msg sB) = fault sB"
    and "eps (scif_recv_mark q dma msg sB) = (eps sB)(b \<mapsto> eB\<lparr>rma_info := (rma_info eB)\<lparr>fence_refcount := fence_refcount (rma_info eB) + 1\<rparr>\<rparr>)"
proof -
  let ?s = "rma_upd b (\<lambda>r. r\<lparr>fence_refcount := fence_refcount r + 1\<rparr>) sB"
    and ?m = "msg\<lparr>uop := SCIF_MARK_ACK, payload2 := word_of_int c, payload0 := remote_ep eB\<rparr>"
  let ?e = "eB\<lparr>rma_info := (rma_info eB)\<lparr>fence_refcount := fence_refcount (rma_info eB) + 1\<rparr>\<rparr>"
  have m: "raw_fence_mark dma (dm_mark dma) b sB = (0, c, ?s)"
    using assms(1,3,6-8) by (auto simp: raw_fence_mark_def)
  have s: "eps ?s = (eps sB)(b \<mapsto> ?e)" "fault ?s = fault sB" "net dA [] (Suc n) ?s" "devs ?s = devs sB"
    using assms(1,4) by (simp_all add: rma_upd_def ep_upd_def net_def scifdev_self_def)
  obtain s' where s': "scif_nodeqp_send q dA ?m ?s = (0, s')" "net dA [?m] n s'" "fault s' = fault ?s" "eps s' = eps ?s"
    using net_nodeqp_send [OF s(3), of ?m q] assms(5) s(4) by auto
  have "scif_recv_mark q dma msg sB = s'"
    using m s(1) s'(1) assms(2,9) by (simp add: scif_recv_mark_def ep_answer_def ep_send_def)
  with s s' show "net dA [?m] n (scif_recv_mark q dma msg sB)" "fault (scif_recv_mark q dma msg sB) = fault sB"
    "eps (scif_recv_mark q dma msg sB) = (eps sB)(b \<mapsto> ?e)" by simp_all
qed

text \<open>The requesting node, with the answer arriving in its wait.\<close>

lemma send_mark_answered:
  assumes "eps sA a = Some eA" "ep_state eA = SCIFEP_CONNECTED" "remote_dev eA = Some dB"
    and "net dB [] (Suc n) sA" "dev_exit (devs sA dB) = OP_IDLE" "p \<noteq> 0"
    and "fe_ws env 0 = scif_recv_mark_resp m2" "fe_rounds env = Suc k"
    and "payload0 m2 = a" "payload1 m2 = p" "uop m2 = SCIF_MARK_ACK"
  obtains sA' where "raw_send_fence env p nm a SCIF_MARK 0 sA = Some (0, Some (s32 (SCIF_REMOTE_FENCE OR s32 (uint (payload2 m2)))), sA')"
    "net dB [fence_msg nm p SCIF_MARK 0 eA] n sA'" "fault sA' = fault sA" "eps sA' = eps sA"
    "fence_reqs sA' = (fence_reqs sA)(p := None)"
proof -
  let ?m = "fence_msg nm p SCIF_MARK 0 eA" and ?s0 = "fence_alloc p sA"
  have n0: "net dB [] (Suc n) ?s0" using assms(4) by (simp add: fence_alloc_def net_def scifdev_self_def)
  have "dev_exit (devs ?s0 dB) = OP_IDLE" "uop ?m > SCIF_EXIT_ACK" using assms(5) by (simp_all add: fence_alloc_def fence_msg_def)
  from net_nodeqp_send [OF n0 this] obtain s1 where
    s1: "scif_nodeqp_send (fe_send env) dB ?m ?s0 = (0, s1)" "net dB [?m] n s1" "fault s1 = fault ?s0" "eps s1 = eps ?s0"
    by (metis append_Nil)
  have f1: "fence_reqs s1 = fence_reqs ?s0" using nodeqp_send_keeps(1) [of "fe_send env" dB ?m ?s0] s1(1) by simp
  let ?x = "\<lparr>fi_state = OP_COMPLETED, fi_comp = True, fi_mark = s32 (uint (payload2 m2))\<rparr>"
  let ?s2 = "s1\<lparr>fence_reqs := (fence_reqs s1)(p \<mapsto> ?x)\<rparr>"
  let ?s3 = "?s2\<lparr>fence_reqs := (fence_reqs s1)(p \<mapsto> ?x\<lparr>fi_comp := False\<rparr>)\<rparr>"
  have r: "scif_recv_mark_resp m2 s1 = ?s2"
    using assms(1,9-11) s1(4) f1 by (simp add: scif_recv_mark_resp_def fence_upd_def req_upd_def fence_alloc_def)
  have "fence_exchange env p a ?m ?s0 = Some (Inr True, ?s3)"
    using assms(1-3,7,8) s1(1) r
    by (simp add: fence_exchange_def ep_send_def fence_alloc_def Let_def fence_done_def req_upd_def)
  then have "raw_send_fence env p nm a SCIF_MARK 0 sA =
      Some (0, Some (s32 (SCIF_REMOTE_FENCE OR s32 (uint (payload2 m2)))), fence_free p ?s3)"
    using assms(1,6) by (simp add: raw_send_fence_def)
  then show thesis
    by (rule that) (use s1 f1 in \<open>auto simp: fence_free_def fence_alloc_def net_def scifdev_self_def\<close>)
qed

section \<open>A signal stays inside a window\<close>

lemma query_single:
  assumes "query_walk W req xs off (nr_bytes req) None = (0, out)" "req_type req = SCIF_WINDOW_SINGLE"
    and "0 < nr_bytes req" "- (2 ^ 63) \<le> off"
  obtains w where "w \<in> set xs" "out = Some w" "win_offset (W w) \<le> off" "off + nr_bytes req \<le> win_end (W w)"
    "(prot (W w) AND req_prot req) = req_prot req"
  using assms(1)
proof (induction xs arbitrary: thesis)
  case (Cons a as)
  have bound: "win_end (W a) < 2 ^ 63" unfolding win_end_def s64_def by (rule signed_take_bit_int_less_exp)
  consider (skip) "win_end (W a) \<le> off" "win_offset (W a) \<le> off"
    | (hit) "off < win_end (W a)" "win_offset (W a) \<le> off" "(prot (W a) AND req_prot req) = req_prot req"
    using Cons.prems(2) by (auto simp: Let_def split: if_splits)
  then show ?case
  proof cases
    case skip
    with Cons show ?thesis by (auto simp: query_walk_skip)
  next
    case hit
    have "u64i (win_end (W a) - off) = win_end (W a) - off" using hit(1) bound assms(4) by simp
    moreover from this have "nr_bytes req \<le> win_end (W a) - off"
      using Cons.prems(2) hit assms(2,3) by (auto simp: Let_def min_def split: if_splits)
    ultimately have "out = Some a"
      using Cons.prems(2) hit assms(2,3) by (auto simp: Let_def min_def split: if_splits)
    with hit \<open>nr_bytes req \<le> _\<close> show ?thesis using Cons.prems(1) [of a] by auto
  qed
qed simp

text \<open>
  \<open>writable_at a type off st\<close>: the 8 bytes at \<open>off\<close> are inside one window of the endpoint that may be written.
\<close>

definition writable_at :: "u64 \<Rightarrow> scif_window_type \<Rightarrow> int \<Rightarrow> scif_node \<Rightarrow> bool" where
  "writable_at a type off st \<longleftrightarrow>
     (\<exists>e w. eps st a = Some e \<and> w \<in> set (if type = SCIF_WINDOW_SELF then reg_list (rma_info e) else remote_reg_list (rma_info e)) \<and>
        win_offset (win_at st w) \<le> off \<and> off + 8 \<le> win_end (win_at st w) \<and> prot (win_at st w) AND SCIF_PROT_WRITE = SCIF_PROT_WRITE)"

lemma raw_prog_signal_one:
  "signals (snd (raw_prog_signal env a dst val st)) = signals st \<or>
   signals (snd (raw_prog_signal env a dst val st)) = signals st @ [(dst, val)]"
  by (auto simp: raw_prog_signal_def split: option.split)

lemma prog_signal_confined:
  assumes "- (2 ^ 63) \<le> off"
  shows "signals (snd (scif_prog_signal env a off val type st)) = signals st \<or>
    writable_at a type off st \<and> (\<exists>dst. signals (snd (scif_prog_signal env a off val type st)) = signals st @ [(dst, val)])"
proof (cases "eps st a")
  case (Some e)
  let ?req = "\<lparr>req_offset = off, nr_bytes = 8, req_prot = SCIF_PROT_WRITE, req_type = SCIF_WINDOW_SINGLE,
    req_head = (if type = SCIF_WINDOW_SELF then reg_list (rma_info e) else remote_reg_list (rma_info e))\<rparr>"
  obtain err out where q: "scif_query_window (win_at st) ?req = (err, out)" by fastforce
  have w: "writable_at a type off st" if "err = 0"
  proof -
    have "query_walk (win_at st) ?req (req_head ?req) off (nr_bytes ?req) None = (0, out)"
      using q that by (simp add: scif_query_window_def)
    from query_single [OF this _ _ assms] obtain w where "w \<in> set (req_head ?req)" "win_offset (win_at st w) \<le> off"
      "off + 8 \<le> win_end (win_at st w)" "prot (win_at st w) AND SCIF_PROT_WRITE = SCIF_PROT_WRITE" by auto
    with Some show ?thesis unfolding writable_at_def by auto
  qed
  show ?thesis
    using w raw_prog_signal_one [of env a _ val st]
    by (auto simp: scif_prog_signal_def Some q Let_def split: option.split)
qed (simp add: scif_prog_signal_def)

section \<open>Properties\<close>




text \<open>Two connected endpoints, on the nodes of the example connection.\<close>

definition example_marker :: scif_node where
  "example_marker = example_client\<lparr>eps := [0x100 \<mapsto> zero_ep\<lparr>ep_state := SCIFEP_CONNECTED, remote_dev := Some 0, remote_ep := 0x300\<rparr>]\<rparr>"

definition example_marked :: scif_node where
  "example_marked = example_server\<lparr>eps := [0x300 \<mapsto> zero_ep\<lparr>ep_state := SCIFEP_CONNECTED, remote_dev := Some 1, remote_ep := 0x100,
     rma_info := zero_rma\<lparr>dma_chan := Some 0\<rparr>\<rparr>]\<rparr>"

definition example_dma :: dma_env where
  "example_dma = \<lparr>dm_x100 = False, dm_fence = Some 4, dm_intr = Some 5, dm_pool = True, dm_val = Some 6, dm_mark = 0,
     dm_wait = (\<lambda>s. s), dm_left = (\<lambda>_. 1)\<rparr>"

definition example_fence :: "scifmsg \<Rightarrow> fence_env" where
  "example_fence ack = \<lparr>fe_send = idle_env, fe_ws = (\<lambda>_. scif_recv_mark_resp ack), fe_rounds = 1\<rparr>"



end
