(* ===== verification/Spec2Isabelle.thy ===== *)
theory Spec2Isabelle
  imports Cosm Scif_Steps Scif_Fence
begin

text \<open>
  A verification development for the Manycore Platform Software Stack.
\<close>

end
